(* ===== verification/Prelude.thy ===== *)
theory Prelude
  imports Main "HOL-Library.Word" "HOL-Library.Monad_Syntax"
begin

text \<open>
  What every component of the model shares: the machine integers of the source under their
  Rust names, \<open>std::io::Error\<close> and \<open>Result\<close>, the \<open>?\<close> operator and the loops that leave
  early through it, \<open>std::time::Duration\<close>, and the conversions between integers and bytes.

  Conventions of the whole development:
  \<^item> \<open>Result<T, E>\<close> is the sum \<open>'e + 't\<close>, with \<open>Inl\<close> for \<open>Err\<close> and \<open>Inr\<close> for \<open>Ok\<close>;
  \<^item> a computation that may panic, or may never return, has type \<open>'a option\<close>, and \<open>None\<close>
    is the panic (or the missing return);
  \<^item> a Rust \<open>String\<close>, \<open>OsString\<close> or \<open>PathBuf\<close> is a \<open>string\<close>, the list of its bytes.
\<close>

unbundle bit_operations_syntax

named_theorems result_simps \<open>rewriting of results and of the question-mark operator\<close>
named_theorems duration_simps \<open>unfolding of the operations on durations\<close>

type_synonym u8 = "8 word"
type_synonym u16 = "16 word"
type_synonym u32 = "32 word"
type_synonym i32 = "32 word"
type_synonym u64 = "64 word"

section \<open>Errors and results\<close>

datatype error_kind =
    InvalidData | InvalidInput | UnexpectedEof | TimedOut | WouldBlock | Interrupted
  | WriteZero | NotFound | OtherError | UnlistedKind nat

text \<open>
  The text of an error: a literal, or a \<open>format!\<close> with its format string and the values of
  its arguments. What an error of the operating system prints is not modelled further than
  its number.
\<close>

datatype fmt_arg = ArgText string | ArgNum u32 | ArgError string | ArgShown message
  and message = Literal string | Formatted string "fmt_arg list" | OsMessage nat

datatype io_error = IoError (error_kind_of: error_kind) (error_message: message)

type_synonym 'a io_result = "io_error + 'a"

definition error_other :: "string \<Rightarrow> io_error" where
  "error_other text = IoError OtherError (Literal text)"

fun and_then :: "'e + 'a \<Rightarrow> ('a \<Rightarrow> 'e + 'b) \<Rightarrow> 'e + 'b" where
  "and_then (Inl e) f = Inl e"
| "and_then (Inr x) f = f x"

fun map_err :: "('e \<Rightarrow> 'f) \<Rightarrow> 'e + 'a \<Rightarrow> 'f + 'a" where
  "map_err f (Inl e) = Inl (f e)"
| "map_err f (Inr x) = Inr x"

fun ok_or :: "'a option \<Rightarrow> 'e \<Rightarrow> 'e + 'a" where
  "ok_or None e = Inl e"
| "ok_or (Some x) e = Inr x"

lemma and_then_Inr_iff [result_simps]:
  "and_then r f = Inr y \<longleftrightarrow> (\<exists>x. r = Inr x \<and> f x = Inr y)"
  by (cases r) auto

lemma and_then_Inl_iff [result_simps]:
  "and_then r f = Inl e \<longleftrightarrow> r = Inl e \<or> (\<exists>x. r = Inr x \<and> f x = Inl e)"
  by (cases r) auto

lemma ok_or_Inr_iff [result_simps]: "ok_or x e = Inr y \<longleftrightarrow> x = Some y"
  by (cases x) auto

lemma ok_or_Inl_iff [result_simps]: "ok_or x e = Inl e' \<longleftrightarrow> x = None \<and> e' = e"
  by (cases x) auto

lemma map_err_Inr_iff [result_simps]: "map_err f r = Inr y \<longleftrightarrow> r = Inr y"
  by (cases r) auto

lemma map_err_Inl_iff [result_simps]: "map_err f r = Inl e \<longleftrightarrow> (\<exists>e'. r = Inl e' \<and> e = f e')"
  by (cases r) auto

lemma not_Inr_is_Inl: "(\<forall>y. r \<noteq> Inr y) \<longleftrightarrow> (\<exists>e. r = Inl e)"
  by (cases r) auto

section \<open>Loops that leave early\<close>

text \<open>
  \<open>for x in xs { body }\<close>, where the body updates the variables \<open>s\<close> and may leave the function
  with an error through \<open>?\<close> or \<open>return Err\<close>.
\<close>

fun try_fold :: "('s \<Rightarrow> 'a \<Rightarrow> 'e + 's) \<Rightarrow> 's \<Rightarrow> 'a list \<Rightarrow> 'e + 's" where
  "try_fold f s [] = Inr s"
| "try_fold f s (x # xs) = and_then (f s x) (\<lambda>s'. try_fold f s' xs)"

lemma try_fold_append:
  "try_fold f s (xs @ ys) = and_then (try_fold f s xs) (\<lambda>s'. try_fold f s' ys)"
proof (induction xs arbitrary: s)
  case (Cons x xs)
  then show ?case by (cases "f s x") auto
qed simp

lemma try_fold_invariant:
  assumes "try_fold f s xs = Inr t"
    and "P s"
    and "\<And>s x s'. x \<in> set xs \<Longrightarrow> P s \<Longrightarrow> f s x = Inr s' \<Longrightarrow> P s'"
  shows "P t"
  using assms
proof (induction xs arbitrary: s)
  case (Cons x xs)
  from Cons.prems(1) obtain s' where step: "f s x = Inr s'" and rest: "try_fold f s' xs = Inr t"
    by (auto simp: and_then_Inr_iff)
  have "P s'" using Cons.prems step by (auto intro: Cons.prems(3) [of x s])
  then show ?case
    using Cons.IH [OF rest] Cons.prems(3) by (meson list.set_intros(2))
qed simp

text \<open>A loop whose body accepts or refuses an element whatever the state.\<close>

lemma try_fold_accepts:
  assumes "\<And>s x s'. x \<in> set xs \<Longrightarrow> f s x = Inr s' \<longleftrightarrow> ok x \<and> s' = upd x s"
  shows "try_fold f s xs = Inr t \<longleftrightarrow> (\<forall>x \<in> set xs. ok x) \<and> t = fold upd xs s"
  using assms by (induction xs arbitrary: s) (auto simp: and_then_Inr_iff)

lemma try_fold_error:
  assumes "try_fold f s xs = Inl e"
  obtains pre x post s' where "xs = pre @ x # post" "try_fold f s pre = Inr s'" "f s' x = Inl e"
proof -
  have "\<exists>pre x post s'. xs = pre @ x # post \<and> try_fold f s pre = Inr s' \<and> f s' x = Inl e"
    using assms
  proof (induction xs arbitrary: s)
    case (Cons x xs)
    show ?case
    proof (cases "f s x")
      case (Inl e')
      with Cons.prems show ?thesis
        by (intro exI [of _ "[]"] exI [of _ x] exI [of _ xs] exI [of _ s]) simp
    next
      case (Inr t)
      with Cons obtain pre y post s' where
        "xs = pre @ y # post" "try_fold f t pre = Inr s'" "f s' y = Inl e"
        by force
      with Inr show ?thesis
        by (intro exI [of _ "x # pre"] exI [of _ y] exI [of _ post] exI [of _ s']) simp
    qed
  qed simp
  then show thesis using that by blast
qed

text \<open>\<open>iter().map(f).collect()\<close> where \<open>f\<close> may panic.\<close>

fun map_panics :: "('a \<Rightarrow> 'b option) \<Rightarrow> 'a list \<Rightarrow> 'b list option" where
  "map_panics f [] = Some []"
| "map_panics f (x # xs) = do { y \<leftarrow> f x; ys \<leftarrow> map_panics f xs; Some (y # ys) }"

lemma map_panics_Some: "(\<And>x. x \<in> set xs \<Longrightarrow> f x = Some (g x)) \<Longrightarrow> map_panics f xs = Some (map g xs)"
  by (induction xs) auto

section \<open>Loops that may not end\<close>

text \<open>
  \<open>loop { .. }\<close>: one round of the body goes on with new values of the variables or leaves the
  loop with a result. \<open>None\<close> is a panic in the body, or a loop that never leaves.
\<close>

datatype ('a, 'b) control = Again 'a | Leave 'b

partial_function (option) loop :: "('a \<Rightarrow> ('a, 'b) control option) \<Rightarrow> 'a \<Rightarrow> 'b option" where
  "loop body s = do {
     c \<leftarrow> body s;
     case c of Again s' \<Rightarrow> loop body s' | Leave r \<Rightarrow> Some r
   }"

lemma loop_leaves: "body s = Some (Leave r) \<Longrightarrow> loop body s = Some r"
  by (subst loop.simps) simp

lemma loop_goes_on: "body s = Some (Again s') \<Longrightarrow> loop body s = loop body s'"
  by (subst loop.simps) simp

lemma loop_invariant:
  assumes "loop body s = Some r" "P s"
    and "\<And>s s'. P s \<Longrightarrow> body s = Some (Again s') \<Longrightarrow> P s'"
    and "\<And>s r. P s \<Longrightarrow> body s = Some (Leave r) \<Longrightarrow> Q r"
  shows "Q r"
proof -
  have "body = body \<longrightarrow> P s \<longrightarrow> Q r"
    using assms(1)
  proof (rule loop.raw_induct [where P = "\<lambda>body' s r. body' = body \<longrightarrow> P s \<longrightarrow> Q r", rotated])
    fix self body' s r
    assume IH: "\<And>body' s r. self body' s = Some r \<Longrightarrow> body' = body \<longrightarrow> P s \<longrightarrow> Q r"
      and step: "(do { c \<leftarrow> body' s; case c of Again s' \<Rightarrow> self body' s' | Leave r \<Rightarrow> Some r }) = Some r"
    show "body' = body \<longrightarrow> P s \<longrightarrow> Q r"
    proof (intro impI)
      assume b: "body' = body" and P: "P s"
      from step [unfolded b] obtain c where c: "body s = Some c"
          "(case c of Again s' \<Rightarrow> self body s' | Leave r \<Rightarrow> Some r) = Some r"
        by (auto split: bind_splits)
      show "Q r"
      proof (cases c)
        case (Again s')
        then show ?thesis using IH [of body s' r] c assms(3) [OF P] by auto
      next
        case (Leave r')
        then show ?thesis using c assms(4) [OF P] by auto
      qed
    qed
  qed
  then show ?thesis using assms(2) by blast
qed

lemma loop_total:
  fixes m :: "'a \<Rightarrow> nat"
  assumes "P s"
    and "\<And>s. P s \<Longrightarrow> body s \<noteq> None"
    and "\<And>s s'. P s \<Longrightarrow> body s = Some (Again s') \<Longrightarrow> P s' \<and> m s' < m s"
  shows "\<exists>r. loop body s = Some r"
  using assms(1)
proof (induction "m s" arbitrary: s rule: less_induct)
  case less
  then obtain c where c: "body s = Some c" using assms(2) by blast
  show ?case
  proof (cases c)
    case (Again s')
    then show ?thesis using less c assms(3) [OF less.prems] loop_goes_on by metis
  next
    case (Leave r)
    then show ?thesis using c loop_leaves by metis
  qed
qed

section \<open>Results of calls that change the world\<close>

text \<open>
  The \<open>?\<close> operator after a call that may change the world and may not return.
\<close>

definition try_call ::
    "(('e + 'a) \<times> 'w) option \<Rightarrow> ('a \<Rightarrow> 'w \<Rightarrow> (('e + 'b) \<times> 'w) option) \<Rightarrow> (('e + 'b) \<times> 'w) option" where
  "try_call m f =
     (case m of
        None \<Rightarrow> None
      | Some (Inl e, w) \<Rightarrow> Some (Inl e, w)
      | Some (Inr x, w) \<Rightarrow> f x w)"

lemma try_call_simps [simp]:
  "try_call None f = None"
  "try_call (Some (Inl e, w)) f = Some (Inl e, w)"
  "try_call (Some (Inr x, w)) f = f x w"
  by (simp_all add: try_call_def)

lemma try_call_Ok:
  "try_call m f = Some (Inr y, w') \<longleftrightarrow> (\<exists>x w. m = Some (Inr x, w) \<and> f x w = Some (Inr y, w'))"
  by (auto simp: try_call_def split: option.splits prod.splits sum.splits)

lemma try_call_returns:
  assumes "\<exists>r. m = Some r" "\<And>x w. m = Some (Inr x, w) \<Longrightarrow> \<exists>r. f x w = Some r"
  shows "\<exists>r. try_call m f = Some r"
proof -
  obtain r w where m: "m = Some (r, w)" using assms(1) by auto
  show ?thesis using assms(2) [of _ w] m by (cases r) auto
qed

section \<open>Durations\<close>

text \<open>
  A \<open>std::time::Duration\<close> is a number of nanoseconds: the type holds \<open>u64\<close> seconds and less
  than a second of nanoseconds, so the largest is \<open>2^64 - 1\<close> seconds and \<open>999 999 999\<close>
  nanoseconds. \<open>saturating_add\<close> and \<open>saturating_sub\<close> stop at the ends, \<open>delay * 2\<close> panics
  past the largest.
\<close>

type_synonym duration = nat

definition nanos_per_sec :: nat where
  "nanos_per_sec = 1000000000"

definition from_secs :: "nat \<Rightarrow> duration" where
  "from_secs n = n * nanos_per_sec"

definition duration_max :: duration where
  "duration_max = from_secs (2 ^ 64 - 1) + 999999999"

definition saturating_add :: "duration \<Rightarrow> duration \<Rightarrow> duration" where
  "saturating_add a b = min (a + b) duration_max"

definition saturating_sub :: "duration \<Rightarrow> duration \<Rightarrow> duration" where
  "saturating_sub a b = a - b"

definition twice :: "duration \<Rightarrow> duration option" where
  "twice d = (if d * 2 \<le> duration_max then Some (d * 2) else None)"

lemmas duration_defs = nanos_per_sec_def from_secs_def duration_max_def saturating_add_def
  saturating_sub_def twice_def

lemma from_secs_mono [simp]: "from_secs a \<le> from_secs b \<longleftrightarrow> a \<le> b"
  by (simp add: duration_defs)

lemma from_secs_less [simp]: "from_secs a < from_secs b \<longleftrightarrow> a < b"
  by (simp add: duration_defs)

lemma from_secs_inject [simp]: "from_secs a = from_secs b \<longleftrightarrow> a = b"
  by (simp add: duration_defs)

lemma from_secs_double: "from_secs n * 2 = from_secs (n * 2)"
  by (simp add: from_secs_def)

lemma saturating_add_le_max [simp]: "saturating_add a b \<le> duration_max"
  by (simp add: saturating_add_def)

lemma saturating_add_ge: "a \<le> duration_max \<Longrightarrow> a \<le> saturating_add a b"
  by (simp add: saturating_add_def)

lemma saturating_add_le_sum: "saturating_add a b \<le> a + b"
  by (simp add: saturating_add_def)

section \<open>Integers as bytes\<close>

datatype byte_order = BigEndian | LittleEndian

definition u16_to_be_bytes :: "u16 \<Rightarrow> u8 list" where
  "u16_to_be_bytes w = [ucast (drop_bit 8 w), ucast w]"

definition u16_to_le_bytes :: "u16 \<Rightarrow> u8 list" where
  "u16_to_le_bytes w = [ucast w, ucast (drop_bit 8 w)]"

definition u32_to_be_bytes :: "u32 \<Rightarrow> u8 list" where
  "u32_to_be_bytes v = [ucast (drop_bit 24 v), ucast (drop_bit 16 v), ucast (drop_bit 8 v), ucast v]"

definition u16_from_be_bytes :: "u8 \<Rightarrow> u8 \<Rightarrow> u16" where
  "u16_from_be_bytes b0 b1 = push_bit 8 (ucast b0) OR ucast b1"

definition u32_from_be_bytes :: "u8 \<Rightarrow> u8 \<Rightarrow> u8 \<Rightarrow> u8 \<Rightarrow> u32" where
  "u32_from_be_bytes b0 b1 b2 b3 =
     push_bit 24 (ucast b0) OR push_bit 16 (ucast b1) OR push_bit 8 (ucast b2) OR ucast b3"

text \<open>\<open>u32::from_ne_bytes\<close>: the byte order is the one of the machine.\<close>

fun u32_from_ne_bytes :: "byte_order \<Rightarrow> u8 \<Rightarrow> u8 \<Rightarrow> u8 \<Rightarrow> u8 \<Rightarrow> u32" where
  "u32_from_ne_bytes BigEndian b0 b1 b2 b3 = u32_from_be_bytes b0 b1 b2 b3"
| "u32_from_ne_bytes LittleEndian b0 b1 b2 b3 = u32_from_be_bytes b3 b2 b1 b0"

lemma u16_be_roundtrip: "u16_from_be_bytes (ucast (drop_bit 8 w)) (ucast w) = w"
  unfolding u16_from_be_bytes_def
  by (rule bit_word_eqI) (auto simp: bit_simps)

lemma u32_be_roundtrip:
  "u32_from_be_bytes (ucast (drop_bit 24 w)) (ucast (drop_bit 16 w)) (ucast (drop_bit 8 w)) (ucast w) = w"
    (is "?v = _")
proof (rule bit_word_eqI)
  fix n :: nat assume n: "n < LENGTH(32)"
  have "n - 8 < 8 \<longleftrightarrow> n < 16" "n - 16 < 8 \<longleftrightarrow> n < 24" "n - 24 < 8" using n by auto
  moreover have "8 \<le> n \<Longrightarrow> 8 + (n - 8) = n" "16 \<le> n \<Longrightarrow> 16 + (n - 16) = n"
    "24 \<le> n \<Longrightarrow> 24 + (n - 24) = n" by auto
  ultimately show "bit ?v n \<longleftrightarrow> bit w n"
    using n by (auto simp: u32_from_be_bytes_def bit_simps)
qed

lemma length_u16_bytes [simp]:
  "length (u16_to_be_bytes w) = 2" "length (u16_to_le_bytes w) = 2"
  by (simp_all add: u16_to_be_bytes_def u16_to_le_bytes_def)

end
