(* ===== verification/Ordered_Map.thy ===== *)
theory Ordered_Map
  imports Prelude "HOL-Library.Char_ord" "HOL-Library.List_Lexorder"
begin

text \<open>
  The ordered collections of the standard library that the program uses: \<open>BTreeMap\<close> and
  \<open>BTreeSet\<close>. A map is the list of its entries in ascending key order. The order is an
  argument \<open>lt\<close> (the \<open>Ord\<close> of the key type), because the keys of the served table are
  AgentX object identifiers, whose order belongs to another crate. A set of a type with a
  linear order is its sorted list, and inserting is \<open>insort_insert\<close>.

  The locale \<open>ordered_map\<close> is what the program relies on; \<open>ranked\<close> is what it takes to
  provide it, an order read off a rank in some linear order; the \<open>sublocale\<close> discharges
  the first from the second for the sorted list.
\<close>

section \<open>The interface\<close>

datatype 'k bound = Included 'k | Excluded 'k | Unbounded

fun above :: "('k \<Rightarrow> 'o::linorder) \<Rightarrow> 'k bound \<Rightarrow> 'k \<Rightarrow> bool" where
  "above rank (Included a) k \<longleftrightarrow> rank a \<le> rank k"
| "above rank (Excluded a) k \<longleftrightarrow> rank a < rank k"
| "above rank Unbounded k \<longleftrightarrow> True"

locale ordered_map =
  fixes rank :: "'k \<Rightarrow> 'o::linorder"
    and none :: 'm
    and put :: "'k \<Rightarrow> 'v \<Rightarrow> 'm \<Rightarrow> 'm"
    and fetch :: "'m \<Rightarrow> 'k \<Rightarrow> 'v option"
    and first :: "'k bound \<Rightarrow> 'm \<Rightarrow> ('k \<times> 'v) option"
    and entries :: "'m \<Rightarrow> ('k \<times> 'v) list"
    and ordered :: "'m \<Rightarrow> bool"
  assumes ordered_none: "ordered none"
    and ordered_put: "ordered m \<Longrightarrow> ordered (put k v m)"
    and entries_none: "entries none = []"
    and entries_ascend: "ordered m \<Longrightarrow> sorted_wrt (<) (map (rank \<circ> fst) (entries m))"
    and fetch_none: "fetch none k = None"
    and fetch_put: "ordered m \<Longrightarrow>
          fetch (put k v m) k' = (if rank k' = rank k then Some v else fetch m k')"
    and fetch_entry: "ordered m \<Longrightarrow>
          fetch m k = Some v \<longleftrightarrow> (\<exists>k'. (k', v) \<in> set (entries m) \<and> rank k' = rank k)"
    and first_entry: "ordered m \<Longrightarrow> first b m = find (\<lambda>(k, v). above rank b k) (entries m)"
begin

text \<open>Collecting an iterator into the map.\<close>

definition collect :: "('k \<times> 'v) list \<Rightarrow> 'm" where
  "collect kvs = fold (\<lambda>(k, v). put k v) kvs none"

lemma ordered_fold: "ordered m \<Longrightarrow> ordered (fold (\<lambda>(k, v). put k v) kvs m)"
  by (induction kvs arbitrary: m) (auto simp: ordered_put)

lemma ordered_collect: "ordered (collect kvs)"
  by (simp add: collect_def ordered_fold ordered_none)

lemma fetch_fold_constant:
  "ordered m \<Longrightarrow> fetch (fold (\<lambda>(k, v). put k v) (map (\<lambda>x. (g x, c)) xs) m) k =
     (if rank k \<in> (rank \<circ> g) ` set xs then Some c else fetch m k)"
  by (induction xs arbitrary: m) (auto simp: ordered_put fetch_put)

text \<open>When every entry carries the same value, a key is there exactly when it was collected.\<close>

lemma fetch_collect_constant:
  "fetch (collect (map (\<lambda>x. (g x, c)) xs)) k =
     (if rank k \<in> (rank \<circ> g) ` set xs then Some c else None)"
  by (simp add: collect_def fetch_fold_constant ordered_none fetch_none)

text \<open>When the keys are distinct, the collected map holds exactly the collected entries.\<close>

lemma fetch_fold_distinct:
  assumes "ordered m" "distinct (map (rank \<circ> fst) kvs)"
  shows "fetch (fold (\<lambda>(k, v). put k v) kvs m) k = Some v \<longleftrightarrow>
     (\<exists>k'. (k', v) \<in> set kvs \<and> rank k' = rank k) \<or>
     rank k \<notin> (rank \<circ> fst) ` set kvs \<and> fetch m k = Some v"
  using assms
proof (induction kvs arbitrary: m)
  case (Cons e kvs)
  obtain a b where e: "e = (a, b)" by (cases e)
  show ?case
    using Cons.IH [OF ordered_put [OF Cons.prems(1)]] Cons.prems
    by (auto simp: e fetch_put image_iff)
qed simp

lemma fetch_collect_distinct:
  "distinct (map (rank \<circ> fst) kvs) \<Longrightarrow>
     fetch (collect kvs) k = Some v \<longleftrightarrow> (\<exists>k'. (k', v) \<in> set kvs \<and> rank k' = rank k)"
  by (simp add: collect_def fetch_fold_distinct ordered_none fetch_none)

lemma entry_rank_unique:
  assumes "ordered m" "(k, v) \<in> set (entries m)" "(k', v') \<in> set (entries m)" "rank k = rank k'"
  shows "(k, v) = (k', v')"
proof -
  have "distinct (map (rank \<circ> fst) (entries m))"
    using entries_ascend [OF assms(1)] by (simp add: strict_sorted_iff)
  then have "inj_on (rank \<circ> fst) (set (entries m))" by (simp add: distinct_map)
  with assms show ?thesis by (metis comp_apply fst_conv inj_onD)
qed

text \<open>\<open>range\<close> from a bound starts at the least entry within it.\<close>

lemma first_None: "ordered m \<Longrightarrow>
    first b m = None \<longleftrightarrow> (\<forall>(k, v) \<in> set (entries m). \<not> above rank b k)"
  by (auto simp: first_entry find_None_iff)

lemma first_Some:
  assumes "ordered m" "first b m = Some (k, v)"
  shows "(k, v) \<in> set (entries m)" and "above rank b k"
    and "\<And>k' v'. (k', v') \<in> set (entries m) \<Longrightarrow> above rank b k' \<Longrightarrow> rank k \<le> rank k'"
proof -
  from assms have "find (\<lambda>(k, v). above rank b k) (entries m) = Some (k, v)"
    by (simp add: first_entry)
  then obtain i where i: "i < length (entries m)" "above rank b k" "(k, v) = entries m ! i"
    and least: "\<And>j. j < i \<Longrightarrow> \<not> (case entries m ! j of (k, v) \<Rightarrow> above rank b k)"
    unfolding find_Some_iff by auto
  show "(k, v) \<in> set (entries m)" using i(1) i(3) by (metis nth_mem)
  show "above rank b k" by fact
  fix k' v' assume in': "(k', v') \<in> set (entries m)" and "above rank b k'"
  from in' obtain j where j: "j < length (entries m)" "entries m ! j = (k', v')"
    by (auto simp: in_set_conv_nth)
  with least \<open>above rank b k'\<close> have "i \<le> j" by (metis case_prod_conv linorder_not_le)
  then have "i = j \<or> i < j" by auto
  then show "rank k \<le> rank k'"
  proof
    assume "i = j"
    then show ?thesis using i(3) j(2) by simp
  next
    assume "i < j"
    then have "map (rank \<circ> fst) (entries m) ! i < map (rank \<circ> fst) (entries m) ! j"
      using j(1) by (intro sorted_wrt_nth_less [OF entries_ascend [OF assms(1)]]) simp_all
    then show ?thesis using i j by (metis comp_apply fst_conv less_imp_le nth_map)
  qed
qed

end

section \<open>The sorted list\<close>

fun bt_insert :: "('k \<Rightarrow> 'k \<Rightarrow> bool) \<Rightarrow> 'k \<Rightarrow> 'v \<Rightarrow> ('k \<times> 'v) list \<Rightarrow> ('k \<times> 'v) list" where
  "bt_insert lt k v [] = [(k, v)]"
| "bt_insert lt k v ((k', v') # m) =
     (if lt k k' then (k, v) # (k', v') # m
      else if lt k' k then (k', v') # bt_insert lt k v m
      else (k', v) # m)"

fun bt_get :: "('k \<Rightarrow> 'k \<Rightarrow> bool) \<Rightarrow> ('k \<times> 'v) list \<Rightarrow> 'k \<Rightarrow> 'v option" where
  "bt_get lt [] k = None"
| "bt_get lt ((k', v') # m) k =
     (if lt k k' then None else if lt k' k then bt_get lt m k else Some v')"

fun bt_within :: "('k \<Rightarrow> 'k \<Rightarrow> bool) \<Rightarrow> 'k bound \<Rightarrow> 'k \<Rightarrow> bool" where
  "bt_within lt (Included a) k \<longleftrightarrow> \<not> lt k a"
| "bt_within lt (Excluded a) k \<longleftrightarrow> lt a k"
| "bt_within lt Unbounded k \<longleftrightarrow> True"

text \<open>\<open>map.range((bound, Unbounded)).next()\<close>.\<close>

definition bt_first :: "('k \<Rightarrow> 'k \<Rightarrow> bool) \<Rightarrow> 'k bound \<Rightarrow> ('k \<times> 'v) list \<Rightarrow> ('k \<times> 'v) option" where
  "bt_first lt b m = find (\<lambda>(k, v). bt_within lt b k) m"

definition bt_collect :: "('k \<Rightarrow> 'k \<Rightarrow> bool) \<Rightarrow> ('k \<times> 'v) list \<Rightarrow> ('k \<times> 'v) list" where
  "bt_collect lt kvs = fold (\<lambda>(k, v). bt_insert lt k v) kvs []"

lemma bt_collect_Nil [simp]: "bt_collect lt [] = []"
  by (simp add: bt_collect_def)

lemma bt_collect_snoc [simp]:
  "bt_collect lt (kvs @ [(k, v)]) = bt_insert lt k v (bt_collect lt kvs)"
  by (simp add: bt_collect_def)

lemma parts_bt_insert:
  "fst ` set (bt_insert lt k v m) \<subseteq> insert k (fst ` set m)"
  "snd ` set (bt_insert lt k v m) \<subseteq> insert v (snd ` set m)"
  by (induction lt k v m rule: bt_insert.induct) auto

lemma parts_bt_collect:
  "fst ` set (bt_collect lt kvs) \<subseteq> fst ` set kvs"
  "snd ` set (bt_collect lt kvs) \<subseteq> snd ` set kvs"
proof (induction kvs rule: rev_induct)
  case (snoc e kvs)
  {
    case 1
    then show ?case
      using snoc.IH(1) parts_bt_insert(1) [of lt "fst e" "snd e" "bt_collect lt kvs"] by (cases e) force
  next
    case 2
    then show ?case
      using snoc.IH(2) parts_bt_insert(2) [of lt "fst e" "snd e" "bt_collect lt kvs"] by (cases e) force
  }
qed simp_all

definition bt_ordered :: "('k \<Rightarrow> 'k \<Rightarrow> bool) \<Rightarrow> ('k \<times> 'v) list \<Rightarrow> bool" where
  "bt_ordered lt m = sorted_wrt lt (map fst m)"

locale ranked =
  fixes lt :: "'k \<Rightarrow> 'k \<Rightarrow> bool"
    and rank :: "'k \<Rightarrow> 'o::linorder"
  assumes lt_rank: "lt a b \<longleftrightarrow> rank a < rank b"
begin

text \<open>\<open>Ord::cmp\<close> of two keys, for case splits.\<close>

lemma compare [case_names less greater equal]:
  obtains "lt a b" "\<not> lt b a" "rank a < rank b"
    | "\<not> lt a b" "lt b a" "rank b < rank a"
    | "\<not> lt a b" "\<not> lt b a" "rank a = rank b"
  by (metis lt_rank linorder_neqE order_less_asym order_less_irrefl)

lemma bt_ordered_rank: "bt_ordered lt m \<longleftrightarrow> sorted_wrt (<) (map (rank \<circ> fst) m)"
  by (simp add: bt_ordered_def lt_rank sorted_wrt_map)

lemma bt_ordered_Cons:
  "bt_ordered lt ((k, v) # m) \<longleftrightarrow> (\<forall>y \<in> set m. rank k < rank (fst y)) \<and> bt_ordered lt m"
  by (simp add: bt_ordered_rank)

lemma ranks_bt_insert:
  "(rank \<circ> fst) ` set (bt_insert lt k v m) = insert (rank k) ((rank \<circ> fst) ` set m)"
proof (induction m)
  case (Cons x m)
  obtain k' v' where x: "x = (k', v')" by (cases x)
  show ?case by (cases k k' rule: compare) (use Cons in \<open>auto simp: x\<close>)
qed simp

lemma ranks_bt_collect: "(rank \<circ> fst) ` set (bt_collect lt kvs) = (rank \<circ> fst) ` set kvs"
proof (induction kvs rule: rev_induct)
  case (snoc x kvs)
  then show ?case by (cases x) (simp add: ranks_bt_insert [unfolded comp_def] comp_def)
qed simp

lemma bt_insert_above:
  "(\<forall>y \<in> set (bt_insert lt k v m). r < rank (fst y)) \<longleftrightarrow>
     r < rank k \<and> (\<forall>y \<in> set m. r < rank (fst y))"
  using arg_cong [OF ranks_bt_insert, of "\<lambda>A. \<forall>x \<in> A. r < x"] by simp

lemma bt_ordered_insert: "bt_ordered lt m \<Longrightarrow> bt_ordered lt (bt_insert lt k v m)"
proof (induction m)
  case (Cons x m)
  obtain k' v' where x: "x = (k', v')" by (cases x)
  show ?case
    by (cases k k' rule: compare)
      (use Cons in \<open>auto simp: x bt_ordered_Cons bt_insert_above\<close>)
qed (simp add: bt_ordered_def)

lemma bt_get_above: "\<forall>y \<in> set m. rank k < rank (fst y) \<Longrightarrow> bt_get lt m k = None"
  by (cases m) (auto simp: lt_rank)

lemma bt_get_iff:
  "bt_ordered lt m \<Longrightarrow>
     bt_get lt m k = Some v \<longleftrightarrow> (\<exists>k'. (k', v) \<in> set m \<and> rank k' = rank k)"
proof (induction m)
  case (Cons x m)
  obtain k' v' where x: "x = (k', v')" by (cases x)
  show ?case
    by (cases k k' rule: compare)
      (use Cons in \<open>fastforce simp: x bt_ordered_Cons\<close>)+
qed simp

lemma bt_get_insert:
  "bt_ordered lt m \<Longrightarrow>
     bt_get lt (bt_insert lt k v m) k' = (if rank k' = rank k then Some v else bt_get lt m k')"
proof (induction m)
  case Nil
  show ?case by (cases k k' rule: compare) simp_all
next
  case (Cons x m)
  obtain k1 v1 where x: "x = (k1, v1)" by (cases x)
  have IH: "bt_get lt (bt_insert lt k v m) k' = (if rank k' = rank k then Some v else bt_get lt m k')"
    using Cons by (simp add: x bt_ordered_Cons)
  show ?case
    by (cases k k1 rule: compare; cases k' k1 rule: compare; cases k' k rule: compare)
      (auto simp: x IH)
qed

lemma bt_within_above: "bt_within lt b k \<longleftrightarrow> above rank b k"
  by (cases b) (auto simp: lt_rank)

end

sublocale ranked \<subseteq> bt: ordered_map rank "[]" "bt_insert lt" "bt_get lt" "bt_first lt"
    "\<lambda>m. m" "bt_ordered lt"
  rewrites "ordered_map.collect [] (bt_insert lt) = bt_collect lt"
proof -
  show laws: "ordered_map rank [] (bt_insert lt) (bt_get lt) (bt_first lt) (\<lambda>m. m) (bt_ordered lt)"
    by unfold_locales
      (simp_all add: bt_ordered_insert bt_get_insert bt_get_iff bt_first_def bt_within_above
        bt_ordered_rank [symmetric], simp add: bt_ordered_def)
  show "ordered_map.collect [] (bt_insert lt) = bt_collect lt"
    by (simp add: fun_eq_iff ordered_map.collect_def [OF laws] bt_collect_def)
qed

text \<open>The key types of the program that carry a linear order of their own.\<close>

interpretation native: ranked "(<) :: 'n::linorder \<Rightarrow> 'n \<Rightarrow> bool" "\<lambda>x :: 'n::linorder. x"
  by unfold_locales simp

section \<open>Sorted sets\<close>

text \<open>\<open>BTreeSet::insert\<close> and \<open>collect\<close>.\<close>

definition bs_insert :: "'a::linorder \<Rightarrow> 'a list \<Rightarrow> 'a list" where
  "bs_insert x xs = insort_insert x xs"

definition bs_collect :: "'a::linorder list \<Rightarrow> 'a list" where
  "bs_collect xs = fold bs_insert xs []"

definition bs_ordered :: "'a::linorder list \<Rightarrow> bool" where
  "bs_ordered xs \<longleftrightarrow> sorted_wrt (<) xs"

lemma set_bs_insert [simp]: "set (bs_insert x xs) = insert x (set xs)"
  by (auto simp: bs_insert_def set_insort_insert)

lemma bs_ordered_insert [simp]: "bs_ordered xs \<Longrightarrow> bs_ordered (bs_insert x xs)"
  by (simp add: bs_ordered_def bs_insert_def strict_sorted_iff sorted_insort_insert
      distinct_insort_insert)

lemma set_fold_bs_insert [simp]: "set (fold bs_insert xs s) = set xs \<union> set s"
  by (induction xs arbitrary: s) auto

lemma set_bs_collect [simp]: "set (bs_collect xs) = set xs"
  by (simp add: bs_collect_def)

lemma bs_ordered_fold [simp]: "bs_ordered s \<Longrightarrow> bs_ordered (fold bs_insert xs s)"
  by (induction xs arbitrary: s) auto

lemma bs_ordered_Nil [simp]: "bs_ordered []"
  by (simp add: bs_ordered_def)

lemma bs_ordered_collect [simp]: "bs_ordered (bs_collect xs)"
  by (simp add: bs_collect_def)

lemma bs_ordered_unique:
  "bs_ordered xs \<Longrightarrow> bs_ordered ys \<Longrightarrow> set xs = set ys \<Longrightarrow> xs = ys"
  by (simp add: bs_ordered_def strict_sorted_equal)

lemma bs_ordered_sorted_list_of_set [simp]: "bs_ordered (sorted_list_of_set A)"
  by (simp add: bs_ordered_def)

end
