(* ===== verification/Link.thy ===== *)
theory Link
  imports Ordered_Map "HOL-Library.Multiset"
begin

text \<open>
  \<open>src/link.rs\<close>: the observed links of one inventory and the topology built from them. The
  model follows \<open>Topology::from_observed\<close> statement by statement: a first loop checks every
  link and fills \<open>by_index\<close> and \<open>by_name\<close>, a second one derives the direct stack
  relationships. The specification beside it (\<open>coherent\<close>, \<open>runs_over\<close>) says which
  inventories are accepted and which pairs are relationships, without any map or loop.
\<close>

section \<open>Data\<close>

datatype LinkKind = Bond | Bridge | Vlan | MacVlan | IpVlan | MacVtap | Vxlan | Veth | Other

record ObservedLink =
  link_index :: u32
  link_name :: string
  link_kind :: LinkKind
  link_controller :: "u32 option"
  link_lower :: "u32 option"
  link_lower_netnsid :: "i32 option"
  link_vxlan_lower :: "u32 option"

datatype StackRelationship = StackRelationship (higher: u32) (lower: u32)

text \<open>The derived \<open>Ord\<close> compares the fields in the order they are declared.\<close>

instantiation StackRelationship :: linorder
begin

definition less_eq_StackRelationship :: "StackRelationship \<Rightarrow> StackRelationship \<Rightarrow> bool" where
  "less_eq_StackRelationship a b \<longleftrightarrow>
     higher a < higher b \<or> higher a = higher b \<and> lower a \<le> lower b"

definition less_StackRelationship :: "StackRelationship \<Rightarrow> StackRelationship \<Rightarrow> bool" where
  "less_StackRelationship a b \<longleftrightarrow>
     higher a < higher b \<or> higher a = higher b \<and> lower a < lower b"

instance
  by standard
    (auto simp: less_eq_StackRelationship_def less_StackRelationship_def
      intro: StackRelationship.expand)

end

record Topology =
  interfaces :: "u32 list"
  relationships :: "StackRelationship list"

text \<open>The constructors \<open>impl ObservedLink\<close> gives to the tests; the witnesses use them too.\<close>

definition of_kind :: "u32 \<Rightarrow> string \<Rightarrow> LinkKind \<Rightarrow> ObservedLink" where
  "of_kind i n k = \<lparr> link_index = i, link_name = n, link_kind = k, link_controller = None,
     link_lower = None, link_lower_netnsid = None, link_vxlan_lower = None \<rparr>"

definition plain :: "u32 \<Rightarrow> string \<Rightarrow> ObservedLink" where
  "plain i n = of_kind i n Other"

definition with_controller :: "ObservedLink \<Rightarrow> u32 \<Rightarrow> ObservedLink" where
  "with_controller l c = l\<lparr> link_controller := Some c \<rparr>"

definition with_lower :: "ObservedLink \<Rightarrow> u32 \<Rightarrow> ObservedLink" where
  "with_lower l b = l\<lparr> link_lower := Some b \<rparr>"

definition with_remote_lower :: "ObservedLink \<Rightarrow> u32 \<Rightarrow> ObservedLink" where
  "with_remote_lower l b = l\<lparr> link_lower := Some b, link_lower_netnsid := Some 0 \<rparr>"

definition with_vxlan_lower :: "ObservedLink \<Rightarrow> u32 \<Rightarrow> ObservedLink" where
  "with_vxlan_lower l b = l\<lparr> link_vxlan_lower := Some b \<rparr>"

section \<open>Building the topology\<close>

definition i32_max :: u32 where
  "i32_max = 2147483647"

definition link_invalid :: "message \<Rightarrow> io_error" where
  "link_invalid text = IoError InvalidData text"

type_synonym link_maps = "(u32 \<times> ObservedLink) list \<times> (string \<times> ObservedLink) list"

text \<open>The body of the first loop.\<close>

fun index_link :: "link_maps \<Rightarrow> ObservedLink \<Rightarrow> io_error + link_maps" where
  "index_link (by_index, by_name) link =
     (if link_index link = 0 \<or> link_index link > i32_max then
        Inl (link_invalid (Formatted ''interface {:?} has invalid index {}''
          [ArgText (link_name link), ArgNum (link_index link)]))
      else if link_name link = [] then
        Inl (link_invalid (Formatted ''interface at index {} has an empty name''
          [ArgNum (link_index link)]))
      else case bt_get (<) by_index (link_index link) of
        Some existing \<Rightarrow>
          Inl (link_invalid (Formatted ''interface {:?} duplicates index {} of interface {:?}''
            [ArgText (link_name link), ArgNum (link_index link), ArgText (link_name existing)]))
      | None \<Rightarrow>
        (case bt_get (<) by_name (link_name link) of
          Some existing \<Rightarrow>
            Inl (link_invalid (Formatted
              ''interface {:?} (index {}) duplicates the name of interface at index {}''
              [ArgText (link_name link), ArgNum (link_index link), ArgNum (link_index existing)]))
        | None \<Rightarrow>
            Inr (bt_insert (<) (link_index link) link by_index,
                 bt_insert (<) (link_name link) link by_name)))"

text \<open>
  The patterns of the second loop: the controllers that stack over their members, and the
  kinds that stack over their \<open>IFLA_LINK\<close>.
\<close>

definition has_members :: "LinkKind \<Rightarrow> bool" where
  "has_members k \<longleftrightarrow> k \<in> {Bond, Bridge}"

definition has_lower_link :: "LinkKind \<Rightarrow> bool" where
  "has_lower_link k \<longleftrightarrow> k \<in> {Vlan, MacVlan, IpVlan, MacVtap}"

lemma has_lower_link_Vxlan [simp]: "\<not> has_lower_link Vxlan"
  by (simp add: has_lower_link_def)

text \<open>The second loop: first the controller, then the lower sub-layer of the link's kind.\<close>

definition relate_controller ::
    "(u32 \<times> ObservedLink) list \<Rightarrow> ObservedLink \<Rightarrow> StackRelationship list \<Rightarrow>
     io_error + StackRelationship list" where
  "relate_controller by_index link rels =
     (case link_controller link of
        None \<Rightarrow> Inr rels
      | Some controller_index \<Rightarrow>
          and_then (ok_or (bt_get (<) by_index controller_index)
            (link_invalid (Formatted
              ''interface {:?} (index {}) references unknown controller index {}''
              [ArgText (link_name link), ArgNum (link_index link), ArgNum controller_index])))
          (\<lambda>controller.
            if link_index controller = link_index link then
              Inl (link_invalid (Formatted ''interface {:?} (index {}) references itself as controller''
                [ArgText (link_name link), ArgNum (link_index link)]))
            else if has_members (link_kind controller) then
              Inr (bs_insert (StackRelationship (link_index controller) (link_index link)) rels)
            else Inr rels))"

definition relate_lower ::
    "(u32 \<times> ObservedLink) list \<Rightarrow> ObservedLink \<Rightarrow> StackRelationship list \<Rightarrow>
     io_error + StackRelationship list" where
  "relate_lower by_index link rels =
     (if has_lower_link (link_kind link) then
        and_then (ok_or (link_lower link)
          (link_invalid (Formatted ''interface {:?} (index {}) has no lower sub-layer reference''
            [ArgText (link_name link), ArgNum (link_index link)])))
        (\<lambda>below.
          if link_lower_netnsid link \<noteq> None then
            Inl (link_invalid (Formatted
              ''interface {:?} (index {}) references lower sub-layer index {} in another network namespace''
              [ArgText (link_name link), ArgNum (link_index link), ArgNum below]))
          else if below = link_index link then
            Inl (link_invalid (Formatted
              ''interface {:?} (index {}) references itself as lower sub-layer''
              [ArgText (link_name link), ArgNum (link_index link)]))
          else if bt_get (<) by_index below = None then
            Inl (link_invalid (Formatted
              ''interface {:?} (index {}) references unknown lower sub-layer index {}''
              [ArgText (link_name link), ArgNum (link_index link), ArgNum below]))
          else Inr (bs_insert (StackRelationship (link_index link) below) rels))
      else if link_kind link = Vxlan \<and> link_lower_netnsid link = None then
        (case link_vxlan_lower link of
           None \<Rightarrow> Inr rels
         | Some below \<Rightarrow>
             if bt_get (<) by_index below \<noteq> None then
               if below = link_index link then
                 Inl (link_invalid (Formatted
                   ''interface {:?} (index {}) references itself as lower sub-layer''
                   [ArgText (link_name link), ArgNum (link_index link)]))
               else Inr (bs_insert (StackRelationship (link_index link) below) rels)
             else Inr rels)
      else Inr rels)"

definition relate_link ::
    "(u32 \<times> ObservedLink) list \<Rightarrow> StackRelationship list \<Rightarrow> ObservedLink \<Rightarrow>
     io_error + StackRelationship list" where
  "relate_link by_index rels link =
     and_then (relate_controller by_index link rels) (relate_lower by_index link)"

definition from_observed :: "ObservedLink list \<Rightarrow> io_error + Topology" where
  "from_observed links =
     and_then (try_fold index_link ([], []) links) (\<lambda>(by_index, by_name).
     and_then (try_fold (relate_link by_index) [] links) (\<lambda>rels.
     Inr \<lparr> interfaces = bs_collect (map fst by_index), relationships = rels \<rparr>))"

section \<open>Specification\<close>

definition indices :: "ObservedLink list \<Rightarrow> u32 set" where
  "indices links = link_index ` set links"

definition indexable :: "ObservedLink list \<Rightarrow> bool" where
  "indexable links \<longleftrightarrow>
     (\<forall>l \<in> set links. 0 < link_index l \<and> link_index l \<le> i32_max \<and> link_name l \<noteq> []) \<and>
     distinct (map link_index links) \<and> distinct (map link_name links)"

definition controller_ok :: "u32 set \<Rightarrow> ObservedLink \<Rightarrow> bool" where
  "controller_ok known l \<longleftrightarrow>
     (case link_controller l of None \<Rightarrow> True | Some c \<Rightarrow> c \<in> known \<and> c \<noteq> link_index l)"

definition lower_ok :: "u32 set \<Rightarrow> ObservedLink \<Rightarrow> bool" where
  "lower_ok known l \<longleftrightarrow>
     (has_lower_link (link_kind l) \<longrightarrow>
        (\<exists>b \<in> known. link_lower l = Some b \<and> b \<noteq> link_index l) \<and> link_lower_netnsid l = None) \<and>
     (link_kind l = Vxlan \<and> link_lower_netnsid l = None \<and> link_index l \<in> known \<longrightarrow>
        link_vxlan_lower l \<noteq> Some (link_index l))"

text \<open>The inventories the program accepts.\<close>

definition coherent :: "ObservedLink list \<Rightarrow> bool" where
  "coherent links \<longleftrightarrow> indexable links \<and>
     (\<forall>l \<in> set links. controller_ok (indices links) l \<and> lower_ok (indices links) l)"

text \<open>
  The direct relationships of an inventory: a bond or a bridge runs over its members; a VLAN,
  macvlan, ipvlan or macvtap runs over its lower link; a VXLAN whose underlay is a link of
  the same namespace runs over that link.
\<close>

inductive runs_over :: "ObservedLink list \<Rightarrow> u32 \<Rightarrow> u32 \<Rightarrow> bool" for links where
  member: "x \<in> set links \<Longrightarrow> c \<in> set links \<Longrightarrow> link_controller x = Some (link_index c) \<Longrightarrow>
     has_members (link_kind c) \<Longrightarrow> runs_over links (link_index c) (link_index x)"
| stacked: "x \<in> set links \<Longrightarrow> has_lower_link (link_kind x) \<Longrightarrow>
     link_lower x = Some b \<Longrightarrow> runs_over links (link_index x) b"
| underlay: "x \<in> set links \<Longrightarrow> link_kind x = Vxlan \<Longrightarrow> link_lower_netnsid x = None \<Longrightarrow>
     link_vxlan_lower x = Some b \<Longrightarrow> b \<in> indices links \<Longrightarrow> runs_over links (link_index x) b"

definition stack_of :: "ObservedLink list \<Rightarrow> StackRelationship set" where
  "stack_of links = {r. runs_over links (higher r) (lower r)}"

section \<open>The first loop\<close>

definition index_map :: "ObservedLink list \<Rightarrow> (u32 \<times> ObservedLink) list" where
  "index_map links = bt_collect (<) (map (\<lambda>l. (link_index l, l)) links)"

definition name_map :: "ObservedLink list \<Rightarrow> (string \<times> ObservedLink) list" where
  "name_map links = bt_collect (<) (map (\<lambda>l. (link_name l, l)) links)"

lemma get_index_map:
  "distinct (map link_index links) \<Longrightarrow>
     bt_get (<) (index_map links) i = Some l \<longleftrightarrow> l \<in> set links \<and> link_index l = i"
  unfolding index_map_def
  by (subst native.bt.fetch_collect_distinct) (auto simp: comp_def)

lemma get_name_map:
  "distinct (map link_name links) \<Longrightarrow>
     bt_get (<) (name_map links) n = Some l \<longleftrightarrow> l \<in> set links \<and> link_name l = n"
  unfolding name_map_def
  by (subst native.bt.fetch_collect_distinct) (auto simp: comp_def)

lemma get_index_map_None:
  "distinct (map link_index links) \<Longrightarrow>
     bt_get (<) (index_map links) i = None \<longleftrightarrow> i \<notin> indices links"
  unfolding not_Some_eq [symmetric] by (auto simp: get_index_map indices_def)

lemma get_name_map_None:
  "distinct (map link_name links) \<Longrightarrow>
     bt_get (<) (name_map links) n = None \<longleftrightarrow> n \<notin> link_name ` set links"
  unfolding not_Some_eq [symmetric] by (auto simp: get_name_map)

lemma index_link_Inr:
  "index_link (by_index, by_name) l = Inr m \<longleftrightarrow>
     0 < link_index l \<and> link_index l \<le> i32_max \<and> link_name l \<noteq> [] \<and>
     bt_get (<) by_index (link_index l) = None \<and> bt_get (<) by_name (link_name l) = None \<and>
     m = (bt_insert (<) (link_index l) l by_index, bt_insert (<) (link_name l) l by_name)"
  by (auto simp: word_neq_0_conv not_less split: option.split)

declare index_link.simps [simp del]

lemma index_map_snoc:
  "index_map (links @ [l]) = bt_insert (<) (link_index l) l (index_map links)"
  "name_map (links @ [l]) = bt_insert (<) (link_name l) l (name_map links)"
  by (simp_all add: index_map_def name_map_def)

lemma index_link_snoc:
  assumes "indexable links"
  shows "index_link (index_map links, name_map links) l = Inr m \<longleftrightarrow>
     indexable (links @ [l]) \<and> m = (index_map (links @ [l]), name_map (links @ [l]))"
proof -
  have d: "distinct (map link_index links)" "distinct (map link_name links)"
    using assms by (simp_all add: indexable_def)
  show ?thesis
    using assms
    by (auto simp: index_link_Inr index_map_snoc get_index_map_None [OF d(1)]
        get_name_map_None [OF d(2)] indexable_def indices_def)
qed

lemma index_loop:
  "try_fold index_link ([], []) links = Inr m \<longleftrightarrow>
     indexable links \<and> m = (index_map links, name_map links)"
proof (induction links arbitrary: m rule: rev_induct)
  case Nil
  show ?case by (auto simp: indexable_def index_map_def name_map_def)
next
  case (snoc l links)
  have "indexable links" if "indexable (links @ [l])"
    using that by (auto simp: indexable_def)
  then show ?case
    by (auto simp: try_fold_append and_then_Inr_iff snoc.IH index_link_snoc)
qed

section \<open>The second loop\<close>

text \<open>The relationships one link contributes, in the order it inserts them.\<close>

definition controller_edges ::
    "(u32 \<times> ObservedLink) list \<Rightarrow> ObservedLink \<Rightarrow> StackRelationship list" where
  "controller_edges by_index l =
     (case Option.bind (link_controller l) (bt_get (<) by_index) of
        None \<Rightarrow> []
      | Some c \<Rightarrow>
          if has_members (link_kind c) then [StackRelationship (link_index c) (link_index l)] else [])"

definition lower_edges ::
    "(u32 \<times> ObservedLink) list \<Rightarrow> ObservedLink \<Rightarrow> StackRelationship list" where
  "lower_edges by_index l =
     (if has_lower_link (link_kind l) then
        map (StackRelationship (link_index l)) (case link_lower l of None \<Rightarrow> [] | Some b \<Rightarrow> [b])
      else if link_kind l = Vxlan \<and> link_lower_netnsid l = None then
        map (StackRelationship (link_index l))
          (case link_vxlan_lower l of
             None \<Rightarrow> []
           | Some b \<Rightarrow> if bt_get (<) by_index b \<noteq> None then [b] else [])
      else [])"

lemma relate_controller_Inr:
  assumes "distinct (map link_index links)"
  shows "relate_controller (index_map links) l rels = Inr rels' \<longleftrightarrow>
     controller_ok (indices links) l \<and>
     rels' = fold bs_insert (controller_edges (index_map links) l) rels"
proof (cases "link_controller l")
  case None
  then show ?thesis by (auto simp: relate_controller_def controller_ok_def controller_edges_def)
next
  case (Some c)
  show ?thesis
  proof (cases "bt_get (<) (index_map links) c")
    case None
    with get_index_map_None [OF assms, of c] Some show ?thesis
      by (auto simp: relate_controller_def controller_ok_def)
  next
    case (Some k)
    then have "c \<in> indices links" "link_index k = c"
      using get_index_map [OF assms, of c k] by (auto simp: indices_def)
    with Some \<open>link_controller l = Some c\<close> show ?thesis
      by (auto simp: relate_controller_def controller_ok_def controller_edges_def)
  qed
qed

lemma relate_lower_Inr:
  assumes "distinct (map link_index links)" "l \<in> set links"
  shows "relate_lower (index_map links) l rels = Inr rels' \<longleftrightarrow>
     lower_ok (indices links) l \<and>
     rels' = fold bs_insert (lower_edges (index_map links) l) rels"
proof -
  have known: "bt_get (<) (index_map links) b \<noteq> None \<longleftrightarrow> b \<in> indices links" for b
    using get_index_map_None [OF assms(1)] by auto
  have self: "link_index l \<in> indices links"
    using assms(2) by (simp add: indices_def)
  consider (tagged) "has_lower_link (link_kind l)"
    | (vxlan) "link_kind l = Vxlan" "link_lower_netnsid l = None"
    | (neither) "\<not> has_lower_link (link_kind l)"
        "\<not> (link_kind l = Vxlan \<and> link_lower_netnsid l = None)"
    by argo
  then show ?thesis
  proof cases
    case tagged
    have "link_kind l \<noteq> Vxlan" using tagged by auto
    show ?thesis
    proof (cases "link_lower l")
      case None
      with tagged show ?thesis by (simp add: relate_lower_def lower_ok_def)
    next
      case (Some b)
      with tagged \<open>link_kind l \<noteq> Vxlan\<close> known [of b] show ?thesis
        by (cases "link_lower_netnsid l"; cases "b = link_index l"; cases "b \<in> indices links")
          (simp_all add: relate_lower_def lower_ok_def lower_edges_def eq_commute)
    qed
  next
    case vxlan
    have "bt_get (<) (index_map links) (link_index l) \<noteq> None" using known self by blast
    with vxlan self show ?thesis
      by (cases "link_vxlan_lower l") (auto simp: relate_lower_def lower_ok_def lower_edges_def)
  next
    case neither
    then show ?thesis by (auto simp: relate_lower_def lower_ok_def lower_edges_def)
  qed
qed

lemma relate_link_Inr:
  assumes "distinct (map link_index links)" "l \<in> set links"
  shows "relate_link (index_map links) rels l = Inr rels' \<longleftrightarrow>
     (controller_ok (indices links) l \<and> lower_ok (indices links) l) \<and>
     rels' = fold bs_insert (controller_edges (index_map links) l @ lower_edges (index_map links) l) rels"
  by (auto simp: relate_link_def and_then_Inr_iff relate_controller_Inr [OF assms(1)]
      relate_lower_Inr [OF assms])

lemma fold_fold_concat: "fold (\<lambda>x. fold f (g x)) xs s = fold f (concat (map g xs)) s"
  by (induction xs arbitrary: s) auto

lemma relate_loop:
  assumes "distinct (map link_index links)"
  shows "try_fold (relate_link (index_map links)) [] links = Inr rels \<longleftrightarrow>
     (\<forall>l \<in> set links. controller_ok (indices links) l \<and> lower_ok (indices links) l) \<and>
     rels = bs_collect (concat (map (\<lambda>l. controller_edges (index_map links) l @
       lower_edges (index_map links) l) links))"
  unfolding bs_collect_def fold_fold_concat [symmetric]
  by (rule try_fold_accepts) (rule relate_link_Inr [OF assms])

lemma set_controller_edges:
  assumes "distinct (map link_index links)"
  shows "r \<in> set (controller_edges (index_map links) l) \<longleftrightarrow>
     (\<exists>c \<in> set links. link_controller l = Some (link_index c) \<and> has_members (link_kind c) \<and>
       r = StackRelationship (link_index c) (link_index l))"
proof (cases "Option.bind (link_controller l) (bt_get (<) (index_map links))")
  case None
  then have "link_controller l = None \<or> (\<exists>i. link_controller l = Some i \<and> i \<notin> indices links)"
    using get_index_map_None [OF assms] by (cases "link_controller l") simp_all
  then show ?thesis
    by (auto simp: controller_edges_def None indices_def)
next
  case (Some c)
  then have c: "link_controller l = Some (link_index c)" "c \<in> set links"
    using get_index_map [OF assms] by (auto simp: bind_eq_Some_conv)
  have "c' = c" if "c' \<in> set links" "link_index c = link_index c'" for c'
    using assms that c(2) by (auto simp: distinct_map dest: inj_onD)
  then show ?thesis
    unfolding controller_edges_def Some using c by auto
qed

lemma set_lower_edges:
  assumes "distinct (map link_index links)"
  shows "r \<in> set (lower_edges (index_map links) l) \<longleftrightarrow>
     (\<exists>b. r = StackRelationship (link_index l) b \<and>
       (has_lower_link (link_kind l) \<and> link_lower l = Some b \<or>
        link_kind l = Vxlan \<and> link_lower_netnsid l = None \<and> link_vxlan_lower l = Some b \<and>
          b \<in> indices links))"
proof (cases "has_lower_link (link_kind l)")
  case True
  then have "link_kind l \<noteq> Vxlan" by auto
  with True show ?thesis by (cases "link_lower l") (auto simp: lower_edges_def)
next
  case False
  then show ?thesis
    using get_index_map_None [OF assms]
    by (cases "link_vxlan_lower l") (simp_all add: lower_edges_def, blast)
qed

lemma edges_are_stack:
  assumes "distinct (map link_index links)"
  shows "set (concat (map (\<lambda>l. controller_edges (index_map links) l @
       lower_edges (index_map links) l) links)) = stack_of links"
proof (rule set_eqI)
  fix r
  show "r \<in> set (concat (map (\<lambda>l. controller_edges (index_map links) l @
       lower_edges (index_map links) l) links)) \<longleftrightarrow> r \<in> stack_of links"
    by (cases r)
      (simp add: stack_of_def runs_over.simps set_controller_edges [OF assms]
        set_lower_edges [OF assms], blast)
qed

section \<open>The topology of an inventory\<close>

definition topology_of :: "ObservedLink list \<Rightarrow> Topology" where
  "topology_of links =
     \<lparr> interfaces = sorted_list_of_set (indices links),
       relationships = sorted_list_of_set (stack_of links) \<rparr>"

lemma finite_stack_of [simp]: "finite (stack_of links)"
proof (rule finite_subset)
  show "stack_of links \<subseteq> (\<lambda>(h, b). StackRelationship h b) `
      (indices links \<times> (indices links \<union> (the \<circ> link_lower) ` set links))"
  proof
    fix r assume "r \<in> stack_of links"
    then have "runs_over links (higher r) (lower r)" by (simp add: stack_of_def)
    then have "(higher r, lower r) \<in> indices links \<times> (indices links \<union> (the \<circ> link_lower) ` set links)"
      by cases (auto simp: indices_def intro: rev_image_eqI)
    then show "r \<in> (\<lambda>(h, b). StackRelationship h b) `
      (indices links \<times> (indices links \<union> (the \<circ> link_lower) ` set links))"
      by (metis StackRelationship.collapse case_prod_conv image_eqI)
  qed
qed (simp add: indices_def)

lemma bs_collect_eq: "finite A \<Longrightarrow> set xs = A \<Longrightarrow> bs_collect xs = sorted_list_of_set A"
  by (rule bs_ordered_unique) simp_all

lemma interfaces_index_map: "set (map fst (index_map links)) = indices links"
  using native.ranks_bt_collect [of "map (\<lambda>l. (link_index l, l)) links"]
  by (simp add: index_map_def indices_def image_comp comp_def)

lemma from_observed_iff:
  "from_observed links = Inr t \<longleftrightarrow> coherent links \<and> t = topology_of links"
proof -
  have "from_observed links = Inr t \<longleftrightarrow> indexable links \<and>
     (\<forall>l \<in> set links. controller_ok (indices links) l \<and> lower_ok (indices links) l) \<and>
     t = \<lparr> interfaces = bs_collect (map fst (index_map links)),
           relationships = bs_collect (concat (map (\<lambda>l. controller_edges (index_map links) l @
             lower_edges (index_map links) l) links)) \<rparr>"
    by (auto simp: from_observed_def and_then_Inr_iff index_loop relate_loop indexable_def)
  moreover have "bs_collect (map fst (index_map links)) = sorted_list_of_set (indices links)"
    by (rule bs_collect_eq) (simp_all only: interfaces_index_map, simp add: indices_def)
  moreover have "bs_collect (concat (map (\<lambda>l. controller_edges (index_map links) l @
      lower_edges (index_map links) l) links)) = sorted_list_of_set (stack_of links)" if "indexable links"
    using that by (intro bs_collect_eq edges_are_stack) (simp_all add: indexable_def)
  ultimately show ?thesis
    by (cases "indexable links") (simp_all add: coherent_def topology_of_def)
qed

text \<open>
  C8. \<open>Topology::from_observed\<close> accepts exactly the coherent inventories, and the topology it
  returns holds exactly the interface indices of the inventory and its direct stack
  relationships, both in ascending order.
\<close>

theorem from_observed_correct:
  "from_observed links = Inr t \<longleftrightarrow> coherent links \<and> t = topology_of links"
  by (rule from_observed_iff)

text \<open>
  The topology does not depend on the order in which the kernel reported the links.
\<close>

lemma from_observed_any_order:
  assumes "from_observed links = Inr t" "mset links' = mset links"
  shows "from_observed links' = Inr t"
proof -
  have same: "set links' = set links" using assms(2) by (metis set_mset_mset)
  have "indices links' = indices links" by (simp add: indices_def same)
  moreover have "distinct (map link_index links') = distinct (map link_index links)"
    "distinct (map link_name links') = distinct (map link_name links)"
    using assms(2) by (metis mset_eq_imp_distinct_iff mset_map)+
  moreover have "runs_over links' = runs_over links"
    by (intro ext) (simp add: runs_over.simps same \<open>indices links' = indices links\<close>)
  ultimately show ?thesis
    using assms(1)
    by (simp add: from_observed_iff coherent_def indexable_def topology_of_def stack_of_def same)
qed

lemma from_observed_any_order_witness:
  "from_observed [of_kind 9 ''bond'' Bond, with_controller (plain 3 ''member'') 9] =
     Inr \<lparr> interfaces = [3, 9], relationships = [StackRelationship 9 3] \<rparr>"
proof (rule from_observed_any_order)
  show "from_observed [with_controller (plain 3 ''member'') 9, of_kind 9 ''bond'' Bond] =
     Inr \<lparr> interfaces = [3, 9], relationships = [StackRelationship 9 3] \<rparr>"
    by code_simp
qed simp

section \<open>What every topology satisfies\<close>

text \<open>
  The well-formedness of a topology: its interfaces and relationships ascend strictly, its
  indices are the positive ones of the kernel, its relationships join two different
  interfaces of the topology.
\<close>

definition topology_ok :: "Topology \<Rightarrow> bool" where
  "topology_ok t \<longleftrightarrow>
     bs_ordered (interfaces t) \<and> bs_ordered (relationships t) \<and>
     (\<forall>i \<in> set (interfaces t). 0 < i \<and> i \<le> i32_max) \<and>
     (\<forall>r \<in> set (relationships t). higher r \<in> set (interfaces t) \<and>
        lower r \<in> set (interfaces t) \<and> higher r \<noteq> lower r)"

lemma runs_over_ends:
  assumes "coherent links" "runs_over links h b"
  shows "h \<in> indices links \<and> b \<in> indices links \<and> h \<noteq> b"
  using assms(2)
proof cases
  case (member x c)
  then show ?thesis using assms(1) by (auto simp: coherent_def controller_ok_def indices_def)
next
  case (stacked x)
  then have "lower_ok (indices links) x" using assms(1) by (simp add: coherent_def)
  with stacked show ?thesis by (auto simp: lower_ok_def indices_def)
next
  case (underlay x)
  then have "lower_ok (indices links) x" using assms(1) by (simp add: coherent_def)
  with underlay show ?thesis by (auto simp: lower_ok_def indices_def)
qed

text \<open>
  C9. Every topology the program builds is well formed: no relationship of an interface with
  itself, none with an interface outside the inventory, every index between 1 and \<open>i32::MAX\<close>,
  each collection strictly ascending.
\<close>

theorem from_observed_topology_ok:
  assumes "from_observed links = Inr t"
  shows "topology_ok t"
proof -
  have c: "coherent links" and t: "t = topology_of links"
    using assms by (simp_all add: from_observed_iff)
  have "\<forall>r \<in> stack_of links. higher r \<in> indices links \<and> lower r \<in> indices links \<and> higher r \<noteq> lower r"
    using runs_over_ends [OF c] by (auto simp: stack_of_def)
  moreover have "\<forall>i \<in> indices links. 0 < i \<and> i \<le> i32_max" "finite (indices links)"
    using c by (auto simp: coherent_def indexable_def indices_def)
  ultimately show ?thesis by (simp add: topology_ok_def t topology_of_def)
qed

lemma from_observed_topology_ok_witness:
  "topology_ok \<lparr> interfaces = [2, 3], relationships = [StackRelationship 2 3, StackRelationship 3 2] \<rparr>"
  by (rule from_observed_topology_ok [where links =
      "[of_kind 2 ''bond'' Bond, with_lower (with_controller (of_kind 3 ''vlan'' Vlan) 2) 2]"])
    code_simp

section \<open>Errors\<close>

lemma index_link_kind: "index_link maps l = Inl e \<Longrightarrow> error_kind_of e = InvalidData"
  by (cases maps) (auto simp: index_link.simps link_invalid_def split: if_splits option.splits)

lemma relate_controller_kind:
  "relate_controller by_index l rels = Inl e \<Longrightarrow> error_kind_of e = InvalidData"
  unfolding relate_controller_def
  by (cases "link_controller l"; cases "bt_get (<) by_index (the (link_controller l))")
    (auto simp: link_invalid_def split: if_splits)

lemma relate_lower_kind: "relate_lower by_index l rels = Inl e \<Longrightarrow> error_kind_of e = InvalidData"
  unfolding relate_lower_def
  by (cases "link_lower l"; cases "link_vxlan_lower l") (auto simp: link_invalid_def split: if_splits)

lemma relate_link_kind: "relate_link by_index rels l = Inl e \<Longrightarrow> error_kind_of e = InvalidData"
  unfolding relate_link_def and_then_Inl_iff
  by (blast intro: relate_controller_kind relate_lower_kind)

text \<open>
  An inventory that is not coherent is refused, always with an \<open>InvalidData\<close> error.
\<close>

theorem from_observed_refuses:
  "(\<exists>e. from_observed links = Inl e \<and> error_kind_of e = InvalidData) \<longleftrightarrow> \<not> coherent links"
proof -
  have kind: "error_kind_of e = InvalidData" if "from_observed links = Inl e" for e
  proof -
    from that consider "try_fold index_link ([], []) links = Inl e"
      | by_index where "try_fold (relate_link by_index) [] links = Inl e"
      by (auto simp: from_observed_def and_then_Inl_iff)
    then show ?thesis
      by cases (erule try_fold_error, metis index_link_kind relate_link_kind)+
  qed
  show ?thesis
  proof
    assume "\<exists>e. from_observed links = Inl e \<and> error_kind_of e = InvalidData"
    then show "\<not> coherent links"
      using from_observed_iff [of links "topology_of links"] by auto
  next
    assume "\<not> coherent links"
    then have "\<forall>t. from_observed links \<noteq> Inr t" by (simp add: from_observed_iff)
    then show "\<exists>e. from_observed links = Inl e \<and> error_kind_of e = InvalidData"
      using kind by (auto simp: not_Inr_is_Inl)
  qed
qed

text \<open>The first link that the first loop refuses decides the error.\<close>

lemma from_observed_first_error:
  assumes "indexable pre" "index_link (index_map pre, name_map pre) l = Inl e"
  shows "from_observed (pre @ l # post) = Inl e"
proof -
  have "try_fold index_link ([], []) pre = Inr (index_map pre, name_map pre)"
    using assms(1) by (simp add: index_loop)
  then show ?thesis using assms(2) by (simp add: from_observed_def try_fold_append)
qed

text \<open>
  A second link with the index of an earlier one is refused with the error that names the
  new link, the index and the earlier link, whatever follows in the inventory.
\<close>

lemma duplicate_index_reported:
  assumes "indexable pre" "x \<in> set pre" "link_index l = link_index x" "link_name l \<noteq> []"
  shows "from_observed (pre @ l # post) =
    Inl (IoError InvalidData (Formatted ''interface {:?} duplicates index {} of interface {:?}''
      [ArgText (link_name l), ArgNum (link_index l), ArgText (link_name x)]))"
proof (rule from_observed_first_error [OF assms(1)])
  have "bt_get (<) (index_map pre) (link_index l) = Some x"
    using assms by (simp add: get_index_map indexable_def)
  moreover have "link_index x \<noteq> 0" "\<not> i32_max < link_index x"
    using assms(1,2) by (auto simp: indexable_def not_less)
  ultimately show "index_link (index_map pre, name_map pre) l = Inl (IoError InvalidData
      (Formatted ''interface {:?} duplicates index {} of interface {:?}''
        [ArgText (link_name l), ArgNum (link_index l), ArgText (link_name x)]))"
    using assms(3,4) by (simp add: index_link.simps link_invalid_def)
qed

lemma duplicate_index_reported_witness:
  "from_observed ([plain 7 ''first''] @ plain 7 ''second'' # [plain 0 []]) =
    Inl (IoError InvalidData (Formatted ''interface {:?} duplicates index {} of interface {:?}''
      [ArgText ''second'', ArgNum 7, ArgText ''first'']))"
proof -
  have "indexable [plain 7 ''first'']" by code_simp
  from duplicate_index_reported [OF this, of "plain 7 ''first''" "plain 7 ''second''" "[plain 0 []]"]
  show ?thesis by (simp add: plain_def of_kind_def)
qed

end
