(* ===== verification/Agentx.thy ===== *)
theory Agentx
  imports Ordered_Map
begin

text \<open>
  What the program uses of the \<open>agentx\<close> crate. The crate is not part of the repository, so its
  object identifiers are an abstract type: the definitions of the model take the operations
  on them as an argument, the record \<open>id_ops\<close>, and the theorems assume the documented
  behaviour of these operations, the locale \<open>agentx_ids\<close>. The public data of the crate
  (\<open>Value\<close>, \<open>VarBind\<close>, \<open>SearchRange\<close>) has the constructors and fields the program names.
\<close>

section \<open>Object identifiers\<close>

record 'id id_ops =
  id_lt :: "'id \<Rightarrow> 'id \<Rightarrow> bool"  \<comment> \<open>\<open>Ord\<close>\<close>
  id_include :: "'id \<Rightarrow> u8"  \<comment> \<open>the public field \<open>include\<close>\<close>
  id_set_include :: "u8 \<Rightarrow> 'id \<Rightarrow> 'id"  \<comment> \<open>an assignment to it\<close>
  id_is_null :: "'id \<Rightarrow> bool"  \<comment> \<open>\<open>is_null()\<close>\<close>
  id_try_from :: "u32 list \<Rightarrow> io_error + 'id"  \<comment> \<open>\<open>ID::try_from(Vec<u32>)\<close>\<close>
  id_to_string :: "'id \<Rightarrow> string"  \<comment> \<open>\<open>Display\<close>\<close>

text \<open>\<open>ID::try_from(..).expect(..)\<close> panics where the conversion fails.\<close>

definition expect_id :: "'id id_ops \<Rightarrow> u32 list \<Rightarrow> 'id option" where
  "expect_id ids subs = (case id_try_from ids subs of Inl _ \<Rightarrow> None | Inr i \<Rightarrow> Some i)"

text \<open>\<open>str::split(c)\<close> and the decimal \<open>Display\<close> of a number.\<close>

fun split_on :: "char \<Rightarrow> string \<Rightarrow> string list" where
  "split_on c [] = [[]]"
| "split_on c (x # xs) =
     (if x = c then [] # split_on c xs
      else case split_on c xs of [] \<Rightarrow> [[x]] | part # parts \<Rightarrow> (x # part) # parts)"

fun decimal :: "nat \<Rightarrow> string" where
  "decimal n =
     (if n < 10 then [char_of (48 + n)] else decimal (n div 10) @ [char_of (48 + n mod 10)])"

declare decimal.simps [simp del]

fun dotted :: "u32 list \<Rightarrow> string" where
  "dotted [] = []"
| "dotted [x] = decimal (unat x)"
| "dotted (x # xs) = decimal (unat x) @ CHR ''.'' # dotted xs"

lemma length_split_on: "length (split_on c s) = Suc (count_list s c)"
proof (induction s)
  case (Cons x s)
  then show ?case by (auto split: list.split)
qed simp

lemma count_dots_decimal: "count_list (decimal n) (CHR ''.'') = 0"
proof (induction n rule: decimal.induct)
  case (1 n)
  have digit: "char_of (48 + d) \<noteq> CHR ''.''" if "d < 10" for d :: nat
  proof
    assume "char_of (48 + d) = CHR ''.''"
    then have "of_char (char_of (48 + d) :: char) = (46 :: nat)" by simp
    with that show False by (simp add: of_char_of)
  qed
  show ?case using "1.IH" digit by (subst decimal.simps) auto
qed

lemma count_dots_dotted: "count_list (dotted subs) (CHR ''.'') = length subs - 1"
  by (induction subs rule: dotted.induct) (auto simp: count_dots_decimal)

text \<open>
  The documented behaviour: identifiers compare by their components (the prefix expanded),
  in lexicographic order and whatever their \<open>include\<close> flag; a sequence of up to 128
  components (RFC 2741, 5.1) converts to the identifier with these components; \<open>Display\<close>
  prints the components in decimal, separated by dots. The components \<open>subids\<close> themselves
  are private to the crate.
\<close>

locale agentx_ids =
  fixes ids :: "'id id_ops"
    and subids :: "'id \<Rightarrow> u32 list"
  assumes lt_subids: "id_lt ids a b \<longleftrightarrow> subids a < subids b"
    and include_set: "id_include ids (id_set_include ids x a) = x"
    and subids_set: "subids (id_set_include ids x a) = subids a"
    and try_from_subids: "length subs \<le> 128 \<Longrightarrow>
          \<exists>i. id_try_from ids subs = Inr i \<and> subids i = subs \<and> id_include ids i = 0"
    and to_string_subids: "subids a \<noteq> [] \<Longrightarrow> id_to_string ids a = dotted (subids a)"
    and to_string_null: "subids a = [] \<Longrightarrow> length (split_on (CHR ''.'') (id_to_string ids a)) \<le> 2"
begin

lemma expect_id_Some:
  "length subs \<le> 128 \<Longrightarrow>
     \<exists>i. expect_id ids subs = Some i \<and> subids i = subs \<and> id_include ids i = 0"
  using try_from_subids [of subs] by (auto simp: expect_id_def)

lemma count_components:
  "length (split_on (CHR ''.'') (id_to_string ids a)) > 128 \<longleftrightarrow> length (subids a) > 128"
  using to_string_null [of a]
  by (cases "subids a = []") (auto simp: to_string_subids length_split_on count_dots_dotted)

end

text \<open>The order of identifiers is one the ordered map can be keyed with.\<close>

sublocale agentx_ids \<subseteq> oid: ranked "id_lt ids" subids
  by unfold_locales (rule lt_subids)

section \<open>Values, bindings and ranges\<close>

datatype 'id Value =
    Integer i32 | ObjectIdentifier 'id | NoSuchObject | NoSuchInstance | EndOfMibView
  | OtherValue "u8 list"

record 'id VarBind =
  vb_name :: 'id
  vb_data :: "'id Value"

record 'id SearchRange =
  sr_start :: 'id
  sr_end :: 'id

section \<open>Identifiers as RFC 2741 transmits them\<close>

text \<open>
  The identifiers of RFC 2741, 5.1, an \<open>include\<close> flag and the components, satisfy every
  assumption. The witnesses of the development evaluate the model on them.
\<close>

datatype rfc_id = RfcId (rfc_include: u8) (rfc_subids: "u32 list")

definition rfc_ids :: "rfc_id id_ops" where
  "rfc_ids =
     \<lparr> id_lt = (\<lambda>a b. rfc_subids a < rfc_subids b),
       id_include = rfc_include,
       id_set_include = (\<lambda>x a. RfcId x (rfc_subids a)),
       id_is_null = (\<lambda>a. rfc_subids a = []),
       id_try_from = (\<lambda>subs. if length subs \<le> 128 then Inr (RfcId 0 subs)
         else Inl (IoError InvalidData (Literal ''OID exceeds 128 sub-identifiers''))),
       id_to_string = (\<lambda>a. dotted (rfc_subids a)) \<rparr>"

interpretation rfc: agentx_ids rfc_ids rfc_subids
  by unfold_locales (auto simp: rfc_ids_def)

section \<open>Protocol data units\<close>

text \<open>
  The types of PDU the program tells apart (\<open>pdu::Type\<close>), the errors it sends or reads
  (\<open>ResError\<close>) and the fields it reads or assigns.
\<close>

datatype Type =
    TyOpen | TyClose | TyRegister | TyGet | TyGetNext | TyGetBulk | TyTestSet | TyCommitSet
  | TyUndoSet | TyCleanupSet | TyPing | TyResponse | TyOther u8

datatype ResError =
    NoAgentXError | NotOpen | UnsupportedContext | ParseError | RequestDenied | ProcessingError
  | OtherResError u16

record Header =
  hdr_version :: u8
  hdr_ty :: Type
  hdr_flags :: u8
  hdr_session_id :: u32
  hdr_transaction_id :: u32
  hdr_packet_id :: u32
  hdr_payload_length :: u32

record 'id Response =
  rs_header :: Header
  rs_res_error :: ResError
  rs_res_index :: u16
  rs_vb :: "'id VarBind list option"

record 'id Open =
  op_header :: Header
  op_timeout :: duration
  op_id :: 'id
  op_descr :: string

record 'id Register =
  rg_header :: Header
  rg_priority :: u8
  rg_subtree :: 'id

definition NETWORK_BYTE_ORDER :: nat where
  "NETWORK_BYTE_ORDER = 4"

definition NON_DEFAULT_CONTEXT :: nat where
  "NON_DEFAULT_CONTEXT = 3"

text \<open>
  The constructors and the codec of the crate. \<open>to_bytes\<close> may complete the header of the PDU it
  encodes, so it gives the PDU back.
\<close>

record 'id pdu_ops =
  px_default_id :: 'id
  px_open_new :: "'id \<Rightarrow> string \<Rightarrow> 'id Open"
  px_open_bytes :: "'id Open \<Rightarrow> (u8 list \<times> 'id Open) io_result"
  px_register_new :: "'id \<Rightarrow> 'id Register"
  px_register_bytes :: "'id Register \<Rightarrow> (u8 list \<times> 'id Register) io_result"
  px_from_header :: "Header \<Rightarrow> 'id Response"  \<comment> \<open>\<open>Response::from_header\<close>\<close>
  px_response_bytes :: "'id Response \<Rightarrow> (u8 list \<times> 'id Response) io_result"
  px_header :: "u8 list \<Rightarrow> Header io_result"  \<comment> \<open>the \<open>from_bytes\<close> of each PDU\<close>
  px_get :: "u8 list \<Rightarrow> 'id SearchRange list io_result"
  px_get_bulk :: "u8 list \<Rightarrow> ('id SearchRange list \<times> u16 \<times> u16) io_result"
  px_test_set :: "u8 list \<Rightarrow> 'id VarBind list io_result"
  px_ping :: "u8 list \<Rightarrow> unit io_result"
  px_close :: "u8 list \<Rightarrow> unit io_result"
  px_res_error :: "u8 list \<Rightarrow> byte_order \<Rightarrow> ResError io_result"
  px_debug_type :: "Type \<Rightarrow> string"  \<comment> \<open>the derived \<open>Debug\<close> of both\<close>
  px_debug_error :: "ResError \<Rightarrow> string"

end
