(* ===== verification/Mib.thy ===== *)
theory Mib
  imports Link Agentx
begin

text \<open>
  \<open>src/mib.rs\<close>: the table an SNMP manager reads. \<open>Mib\<close> is an ordered map from object
  identifiers to values; the model keeps it as the sorted list of \<open>Ordered_Map\<close>, keyed with
  the order of the AgentX identifiers. \<open>serves\<close> relates such a map to the set of rows
  \<open>(higher, lower)\<close> it stands for, and the lemmas say what each request returns in terms of
  the rows.
\<close>

section \<open>The table\<close>

definition TABLE :: "u32 list" where
  "TABLE = [1, 3, 6, 1, 2, 1, 31, 1, 2]"

definition STATUS :: "u32 list" where
  "STATUS = [1, 3, 6, 1, 2, 1, 31, 1, 2, 1, 3]"

definition MAX_BULK_BINDINGS :: nat where
  "MAX_BULK_BINDINGS = 4096"

type_synonym 'id mib = "('id \<times> 'id Value) list"

definition from_rows :: "'id id_ops \<Rightarrow> (u32 \<times> u32) list \<Rightarrow> 'id mib option" where
  "from_rows ids rows = do {
     bindings \<leftarrow> map_panics (\<lambda>(h, l). do {
       name \<leftarrow> expect_id ids (STATUS @ [h, l]);
       Some (name, Integer 1)
     }) rows;
     Some (bt_collect (id_lt ids) bindings)
   }"

text \<open>The rows of \<open>from_topology\<close>: the relationships, then the boundary rows.\<close>

definition topology_rows :: "Topology \<Rightarrow> (u32 \<times> u32) list" where
  "topology_rows t =
     (let rows = map (\<lambda>r. (higher r, lower r)) (relationships t);
          highers = bs_collect (map higher (relationships t));
          lowers = bs_collect (map lower (relationships t))
      in rows @ concat (map (\<lambda>i.
           (if i \<notin> set lowers then [(0, i)] else []) @
           (if i \<notin> set highers then [(i, 0)] else [])) (interfaces t)))"

definition from_topology :: "'id id_ops \<Rightarrow> Topology \<Rightarrow> 'id mib option" where
  "from_topology ids t = from_rows ids (topology_rows t)"

section \<open>Requests\<close>

definition binding :: "'id id_ops \<Rightarrow> 'id \<Rightarrow> 'id Value \<Rightarrow> 'id VarBind" where
  "binding ids name data = \<lparr> vb_name = id_set_include ids 0 name, vb_data = data \<rparr>"

definition mib_get :: "'id id_ops \<Rightarrow> 'id mib \<Rightarrow> 'id \<Rightarrow> 'id VarBind option" where
  "mib_get ids m name =
     (case bt_get (id_lt ids) m name of
        Some data \<Rightarrow> Some (binding ids name data)
      | None \<Rightarrow> do {
          status \<leftarrow> expect_id ids STATUS;
          following \<leftarrow> expect_id ids (STATUS[10 := STATUS ! 10 + 1]);
          Some (binding ids name
            (if \<not> id_lt ids name status \<and> id_lt ids name following
             then NoSuchInstance else NoSuchObject))
        })"

definition mib_get_next :: "'id id_ops \<Rightarrow> 'id mib \<Rightarrow> 'id SearchRange \<Rightarrow> 'id VarBind" where
  "mib_get_next ids m rng =
     (let start = (if id_include ids (sr_start rng) = 1
                   then Included (sr_start rng) else Excluded (sr_start rng))
      in case bt_first (id_lt ids) start m of
           Some (name, data) \<Rightarrow>
             if id_is_null ids (sr_end rng) \<or> id_lt ids name (sr_end rng)
             then binding ids name data
             else binding ids (sr_start rng) EndOfMibView
         | None \<Rightarrow> binding ids (sr_start rng) EndOfMibView)"

text \<open>
  One pass of \<open>get_bulk\<close> over the repeaters: it appends to the result, moves the start of
  each repeater it visits, and returns from the function when the result is full.
\<close>

datatype 'id pass_result =
    PassFull "'id VarBind list"
  | PassDone "'id SearchRange list" "'id VarBind list" bool

fun bulk_pass :: "'id id_ops \<Rightarrow> 'id mib \<Rightarrow> 'id SearchRange list \<Rightarrow> 'id VarBind list \<Rightarrow> bool \<Rightarrow>
    'id pass_result" where
  "bulk_pass ids m [] result exhausted = PassDone [] result exhausted"
| "bulk_pass ids m (rng # ranges) result exhausted =
     (if length result = MAX_BULK_BINDINGS then PassFull result
      else let next = mib_get_next ids m rng in
        case bulk_pass ids m ranges (result @ [next]) (exhausted \<and> vb_data next = EndOfMibView) of
          PassFull result' \<Rightarrow> PassFull result'
        | PassDone ranges' result' exhausted' \<Rightarrow>
            PassDone (rng\<lparr> sr_start := vb_name next \<rparr> # ranges') result' exhausted')"

fun bulk_loop :: "'id id_ops \<Rightarrow> 'id mib \<Rightarrow> nat \<Rightarrow> 'id SearchRange list \<Rightarrow> 'id VarBind list \<Rightarrow>
    'id VarBind list" where
  "bulk_loop ids m 0 repeaters result = result"
| "bulk_loop ids m (Suc n) repeaters result =
     (case bulk_pass ids m repeaters result True of
        PassFull result' \<Rightarrow> result'
      | PassDone repeaters' result' exhausted \<Rightarrow>
          if exhausted then result' else bulk_loop ids m n repeaters' result')"

definition mib_get_bulk ::
    "'id id_ops \<Rightarrow> 'id mib \<Rightarrow> 'id SearchRange list \<Rightarrow> u16 \<Rightarrow> u16 \<Rightarrow> 'id VarBind list" where
  "mib_get_bulk ids m ranges non_repeaters max_repetitions =
     (let count = min (unat non_repeaters) (length ranges);
          result = map (mib_get_next ids m) (take MAX_BULK_BINDINGS (take count ranges))
      in bulk_loop ids m (unat max_repetitions) (drop count ranges) result)"

section \<open>The rows a table stands for\<close>

definition instance_of :: "u32 \<times> u32 \<Rightarrow> u32 list" where
  "instance_of row = STATUS @ [fst row, snd row]"

definition serves :: "'id id_ops \<Rightarrow> ('id \<Rightarrow> u32 list) \<Rightarrow> 'id mib \<Rightarrow> (u32 \<times> u32) set \<Rightarrow> bool" where
  "serves ids subids m rows \<longleftrightarrow>
     bt_ordered (id_lt ids) m \<and>
     (\<forall>(k, v) \<in> set m. v = Integer 1 \<and> id_include ids k = 0) \<and>
     (subids \<circ> fst) ` set m = instance_of ` rows"

text \<open>
  The rows RFC 2863 asks for: a row for each relationship, a row \<open>(0, i)\<close> for each interface
  no other runs over, a row \<open>(i, 0)\<close> for each interface that runs over no other.
\<close>

definition table_rows :: "Topology \<Rightarrow> (u32 \<times> u32) set" where
  "table_rows t =
     {(higher r, lower r) | r. r \<in> set (relationships t)} \<union>
     {(0, i) | i. i \<in> set (interfaces t) \<and> (\<forall>r \<in> set (relationships t). lower r \<noteq> i)} \<union>
     {(i, 0) | i. i \<in> set (interfaces t) \<and> (\<forall>r \<in> set (relationships t). higher r \<noteq> i)}"

text \<open>The instances a range admits: from its start, which counts when flagged, to its end.\<close>

definition admitted ::
    "'id id_ops \<Rightarrow> ('id \<Rightarrow> u32 list) \<Rightarrow> (u32 \<times> u32) set \<Rightarrow> 'id SearchRange \<Rightarrow> u32 list set" where
  "admitted ids subids rows rng =
     {x \<in> instance_of ` rows.
        (if id_include ids (sr_start rng) = 1 then subids (sr_start rng) \<le> x
         else subids (sr_start rng) < x) \<and>
        (id_is_null ids (sr_end rng) \<or> x < subids (sr_end rng))}"

definition start_bound :: "'id id_ops \<Rightarrow> 'id SearchRange \<Rightarrow> 'id bound" where
  "start_bound ids rng = (if id_include ids (sr_start rng) = 1
     then Included (sr_start rng) else Excluded (sr_start rng))"

lemma set_topology_rows: "set (topology_rows t) = table_rows t"
  by (auto simp: topology_rows_def table_rows_def Let_def)

lemma instance_of_inject [simp]: "instance_of a = instance_of b \<longleftrightarrow> a = b"
  by (auto simp: instance_of_def prod_eq_iff)

lemma length_STATUS [simp]: "length STATUS = 11"
  by (simp add: STATUS_def)

lemma STATUS_nth [simp]: "STATUS ! 10 = 3"
  by (simp add: STATUS_def)

section \<open>Order of instances\<close>

lemma prefix_interval:
  fixes subs pre :: "u32 list"
  assumes "a < a + 1"
  shows "\<not> subs < pre @ [a] \<and> subs < pre @ [a + 1] \<longleftrightarrow> (\<exists>rest. subs = pre @ a # rest)"
proof (induction pre arbitrary: subs)
  case Nil
  have between: "x < a + 1 \<Longrightarrow> \<not> x < a \<Longrightarrow> x = a" for x
    using assms by (metis antisym_conv3 inc_le leD)
  show ?case using assms by (cases subs) (auto dest: between)
next
  case (Cons p pre)
  show ?case by (cases subs) (use Cons.IH in auto)
qed

lemma STATUS_interval:
  "\<not> subs < STATUS \<and> subs < STATUS[10 := 4] \<longleftrightarrow> (\<exists>rest. subs = STATUS @ rest)"
proof -
  let ?pre = "[1, 3, 6, 1, 2, 1, 31, 1, 2, 1] :: u32 list"
  have "STATUS = ?pre @ [3]" "STATUS[10 := 4] = ?pre @ [3 + 1]"
    by (simp_all add: STATUS_def)
  moreover have three: "(3 :: u32) < 3 + 1" by simp
  moreover have "?pre @ 3 # rest = (?pre @ [3]) @ rest" for rest by simp
  ultimately show ?thesis using prefix_interval [of 3 subs ?pre] by (metis (no_types) three)
qed

lemma instance_order:
  "instance_of a < instance_of b \<longleftrightarrow> fst a < fst b \<or> fst a = fst b \<and> snd a < snd b"
  by (simp add: instance_of_def STATUS_def)

context agentx_ids
begin

lemma name_binding [simp]:
  "subids (vb_name (binding ids name data)) = subids name"
  "id_include ids (vb_name (binding ids name data)) = 0"
  "vb_data (binding ids name data) = data"
  by (simp_all add: binding_def include_set subids_set)

text \<open>Building the table never panics and serves exactly the given rows.\<close>

lemma from_rows_serves:
  obtains m where "from_rows ids rows = Some m" "serves ids subids m (set rows)"
proof -
  define name where "name row = the (expect_id ids (STATUS @ [fst row, snd row]))" for row :: "u32 \<times> u32"
  have name: "expect_id ids (STATUS @ [fst row, snd row]) = Some (name row)"
    "subids (name row) = instance_of row" "id_include ids (name row) = 0" for row
    using expect_id_Some [of "STATUS @ [fst row, snd row]"]
    by (auto simp: name_def instance_of_def)
  let ?kvs = "map (\<lambda>row. (name row, Integer 1)) rows"
  have rows: "from_rows ids rows = Some (bt_collect (id_lt ids) ?kvs)"
    using name(1) by (subst from_rows_def, subst map_panics_Some [of _ _ "\<lambda>row. (name row, Integer 1)"])
      (auto simp: case_prod_unfold)
  have "v = Integer 1 \<and> id_include ids k = 0" if "(k, v) \<in> set (bt_collect (id_lt ids) ?kvs)" for k v
  proof -
    have "k \<in> fst ` set ?kvs" "v \<in> snd ` set ?kvs"
      using that parts_bt_collect [of "id_lt ids" ?kvs] by force+
    then show ?thesis using name(3) by auto
  qed
  moreover have "(subids \<circ> fst) ` set (bt_collect (id_lt ids) ?kvs) = instance_of ` set rows"
    unfolding oid.ranks_bt_collect by (force simp: name(2))
  ultimately have "serves ids subids (bt_collect (id_lt ids) ?kvs) (set rows)"
    using oid.bt.ordered_collect [of ?kvs] unfolding serves_def by blast
  with rows that show thesis by blast
qed

lemma serves_entry:
  assumes "serves ids subids m rows" "(k, v) \<in> set m"
  shows "v = Integer 1" "id_include ids k = 0" "subids k \<in> instance_of ` rows"
proof -
  show "v = Integer 1" "id_include ids k = 0" using assms by (auto simp: serves_def)
  have "subids k \<in> (subids \<circ> fst) ` set m" using assms(2) by (metis comp_apply fst_conv imageI)
  then show "subids k \<in> instance_of ` rows" using assms(1) by (simp add: serves_def)
qed

text \<open>\<open>get\<close>, in terms of the rows.\<close>

lemma get_row:
  assumes "serves ids subids m rows"
  shows "mib_get ids m name = Some (binding ids name
     (if subids name \<in> instance_of ` rows then Integer 1
      else if \<exists>rest. subids name = STATUS @ rest then NoSuchInstance
      else NoSuchObject))"
proof (cases "bt_get (id_lt ids) m name")
  case None
  have ord: "bt_ordered (id_lt ids) m" and rows: "(subids \<circ> fst) ` set m = instance_of ` rows"
    using assms by (simp_all add: serves_def)
  have absent: "subids name \<notin> instance_of ` rows"
    unfolding rows [symmetric] using oid.bt.fetch_entry [OF ord, of name] None by fastforce
  obtain status following where
    s: "expect_id ids STATUS = Some status" "subids status = STATUS" and
    f: "expect_id ids (STATUS[10 := 4]) = Some following" "subids following = STATUS[10 := 4]"
    using expect_id_Some [of STATUS] expect_id_Some [of "STATUS[10 := 4]"] by auto
  have "(\<not> id_lt ids name status \<and> id_lt ids name following) =
      (\<exists>rest. subids name = STATUS @ rest)"
    unfolding lt_subids s(2) f(2) by (rule STATUS_interval)
  then show ?thesis using None absent by (simp add: mib_get_def s(1) f(1))
next
  case (Some v)
  then obtain k where "(k, v) \<in> set m" "subids k = subids name"
    using assms oid.bt.fetch_entry [of m name v] by (auto simp: serves_def)
  moreover from this have "v = Integer 1" "subids name \<in> instance_of ` rows"
    using serves_entry [OF assms] by metis+
  ultimately show ?thesis using Some by (simp add: mib_get_def)
qed

lemma above_start:
  "above subids (start_bound ids rng) k \<longleftrightarrow>
     (if id_include ids (sr_start rng) = 1 then subids (sr_start rng) \<le> subids k
      else subids (sr_start rng) < subids k)"
  by (simp add: start_bound_def)

lemma get_next_first:
  "mib_get_next ids m rng =
     (case bt_first (id_lt ids) (start_bound ids rng) m of
        Some (name, data) \<Rightarrow>
          if id_is_null ids (sr_end rng) \<or> subids name < subids (sr_end rng)
          then binding ids name data else binding ids (sr_start rng) EndOfMibView
      | None \<Rightarrow> binding ids (sr_start rng) EndOfMibView)"
  by (simp add: mib_get_next_def start_bound_def lt_subids split: option.split)

lemma get_next_empty:
  assumes "serves ids subids m rows" "admitted ids subids rows rng = {}"
  shows "mib_get_next ids m rng = binding ids (sr_start rng) EndOfMibView"
proof (cases "bt_first (id_lt ids) (start_bound ids rng) m")
  case (Some e)
  obtain k v where e: "e = (k, v)" by (cases e)
  have ord: "bt_ordered (id_lt ids) m" using assms(1) by (simp add: serves_def)
  from oid.bt.first_Some [OF ord Some [unfolded e]] assms(1)
  have "subids k \<in> instance_of ` rows" "above subids (start_bound ids rng) k"
    using serves_entry [OF assms(1)] by blast+
  then have "\<not> (id_is_null ids (sr_end rng) \<or> subids k < subids (sr_end rng))"
    using assms(2) by (auto simp: admitted_def above_start split: if_splits)
  then show ?thesis by (simp add: get_next_first Some e)
qed (simp add: get_next_first)

lemma get_next_least:
  assumes "serves ids subids m rows" "x \<in> admitted ids subids rows rng"
  obtains k where "(k, Integer 1) \<in> set m" "mib_get_next ids m rng = binding ids k (Integer 1)"
    "subids k \<in> admitted ids subids rows rng" "\<And>y. y \<in> admitted ids subids rows rng \<Longrightarrow> subids k \<le> y"
proof -
  have ord: "bt_ordered (id_lt ids) m" using assms(1) by (simp add: serves_def)
  have entry: "\<exists>k v. (k, v) \<in> set m \<and> subids k = y \<and> above subids (start_bound ids rng) k"
    if "y \<in> admitted ids subids rows rng" for y
  proof -
    from that have "y \<in> (subids \<circ> fst) ` set m"
      using assms(1) by (auto simp: serves_def admitted_def)
    then show ?thesis using that by (auto simp: above_start admitted_def)
  qed
  then have "bt_first (id_lt ids) (start_bound ids rng) m \<noteq> None"
    using assms(2) oid.bt.first_None [OF ord] by fast
  then obtain k v where kv: "bt_first (id_lt ids) (start_bound ids rng) m = Some (k, v)" by auto
  note first = oid.bt.first_Some [OF ord kv]
  have least: "subids k \<le> y" if "y \<in> admitted ids subids rows rng" for y
    using entry [OF that] first(3) by auto
  have "subids k \<le> x" using least assms(2) by simp
  then have fits: "id_is_null ids (sr_end rng) \<or> subids k < subids (sr_end rng)"
    using assms(2) by (auto simp: admitted_def dest: le_less_trans)
  have "v = Integer 1" "subids k \<in> instance_of ` rows"
    using serves_entry [OF assms(1) first(1)] by simp_all
  moreover from this fits first(2) have "subids k \<in> admitted ids subids rows rng"
    by (simp add: admitted_def above_start)
  moreover have "mib_get_next ids m rng = binding ids k v"
    using fits by (simp add: get_next_first kv)
  ultimately show thesis using that first(1) least by blast
qed

end

section \<open>GETBULK against its unbounded reading\<close>

text \<open>
  The rounds of repeaters without the size bound: each round asks every repeater once, each
  repeater continues where it stopped, and the rounds stop after one that only found the end
  of the view.
\<close>

definition advance :: "'id id_ops \<Rightarrow> 'id mib \<Rightarrow> 'id SearchRange \<Rightarrow> 'id SearchRange" where
  "advance ids m rng = rng\<lparr> sr_start := vb_name (mib_get_next ids m rng) \<rparr>"

fun bulk_rounds :: "'id id_ops \<Rightarrow> 'id mib \<Rightarrow> nat \<Rightarrow> 'id SearchRange list \<Rightarrow> 'id VarBind list" where
  "bulk_rounds ids m 0 repeaters = []"
| "bulk_rounds ids m (Suc n) repeaters =
     (let row = map (mib_get_next ids m) repeaters
      in if \<forall>vb \<in> set row. vb_data vb = EndOfMibView then row
         else row @ bulk_rounds ids m n (map (advance ids m) repeaters))"

lemma bulk_pass_eq:
  "length result \<le> MAX_BULK_BINDINGS \<Longrightarrow>
     bulk_pass ids m ranges result exhausted =
       (let row = map (mib_get_next ids m) ranges
        in if length (result @ row) \<le> MAX_BULK_BINDINGS
           then PassDone (map (advance ids m) ranges) (result @ row)
             (exhausted \<and> (\<forall>vb \<in> set row. vb_data vb = EndOfMibView))
           else PassFull (take MAX_BULK_BINDINGS (result @ row)))"
proof (induction ranges arbitrary: result exhausted)
  case (Cons rng ranges)
  show ?case
  proof (cases "length result = MAX_BULK_BINDINGS")
    case False
    with Cons.prems have "length (result @ [mib_get_next ids m rng]) \<le> MAX_BULK_BINDINGS" by simp
    from Cons.IH [OF this] False show ?thesis by (auto simp: Let_def advance_def)
  qed simp
qed simp

lemma bulk_loop_eq:
  "length result \<le> MAX_BULK_BINDINGS \<Longrightarrow>
     bulk_loop ids m n repeaters result =
       take MAX_BULK_BINDINGS (result @ bulk_rounds ids m n repeaters)"
  by (induction n arbitrary: repeaters result) (auto simp: bulk_pass_eq Let_def)

text \<open>
  C15. GETBULK answers the first \<open>non_repeaters\<close> ranges once and repeats the others in rounds,
  in iteration order, until a round finds only the end of the view or \<open>max_repetitions\<close> rounds
  are done; the response is that list cut at 4096 bindings. The program builds the bounded
  list directly, leaving its nested loops early.
\<close>

theorem get_bulk_correct:
  "mib_get_bulk ids m ranges non_repeaters max_repetitions =
     take MAX_BULK_BINDINGS
       (map (mib_get_next ids m) (take (unat non_repeaters) ranges) @
        bulk_rounds ids m (unat max_repetitions) (drop (unat non_repeaters) ranges))"
proof -
  let ?k = "min (unat non_repeaters) (length ranges)"
  have cut: "take ?k ranges = take (unat non_repeaters) ranges"
    "drop ?k ranges = drop (unat non_repeaters) ranges"
    by (simp_all add: min_def)
  have "take MAX_BULK_BINDINGS (take MAX_BULK_BINDINGS xs @ ys) = take MAX_BULK_BINDINGS (xs @ ys)"
    for xs ys :: "'a VarBind list"
    by (cases "length xs \<le> MAX_BULK_BINDINGS") simp_all
  then show ?thesis
    unfolding mib_get_bulk_def Let_def cut
    by (subst bulk_loop_eq) (simp_all only: length_map length_take min.cobounded2 min.cobounded1 take_map [symmetric])
qed

section \<open>Walking the table\<close>

text \<open>A manager that asks again from the name it was given.\<close>

fun walk :: "'id id_ops \<Rightarrow> 'id mib \<Rightarrow> nat \<Rightarrow> 'id SearchRange \<Rightarrow> 'id VarBind list" where
  "walk ids m 0 rng = []"
| "walk ids m (Suc n) rng = mib_get_next ids m rng # walk ids m n (advance ids m rng)"

context agentx_ids
begin

lemma find_at_suffix:
  "\<forall>e \<in> set pre. \<not> P e \<Longrightarrow> find P (pre @ suf) = find P suf"
  by (induction pre) auto

lemma first_suffix:
  assumes "bt_ordered (id_lt ids) (pre @ suf)"
    and "\<forall>e \<in> set pre. \<not> above subids (start_bound ids rng) (fst e)"
    and "\<forall>e \<in> set suf. above subids (start_bound ids rng) (fst e)"
  shows "bt_first (id_lt ids) (start_bound ids rng) (pre @ suf) =
    (case suf of [] \<Rightarrow> None | e # _ \<Rightarrow> Some e)"
proof -
  have "find (\<lambda>(k, v). above subids (start_bound ids rng) k) (pre @ suf) =
      find (\<lambda>(k, v). above subids (start_bound ids rng) k) suf"
    using assms(2) by (intro find_at_suffix) auto
  then show ?thesis
    using assms(3) oid.bt.first_entry [OF assms(1)] by (cases suf) auto
qed

lemma walk_suffix:
  assumes "m = pre @ suf" "bt_ordered (id_lt ids) m" "id_is_null ids (sr_end rng)"
    and "\<forall>e \<in> set pre. \<not> above subids (start_bound ids rng) (fst e)"
    and "\<forall>e \<in> set suf. above subids (start_bound ids rng) (fst e)"
  shows "\<exists>ends. walk ids m n rng = map (\<lambda>(k, v). binding ids k v) (take n suf) @ ends \<and>
     (\<forall>vb \<in> set ends. vb_data vb = EndOfMibView)"
  using assms
proof (induction n arbitrary: rng pre suf)
  case (Suc n)
  note ord = Suc.prems(2) [unfolded Suc.prems(1)]
  note first = first_suffix [OF ord Suc.prems(4,5)]
  show ?case
  proof (cases suf)
    case Nil
    have answer: "mib_get_next ids m rng = binding ids (sr_start rng) EndOfMibView"
      using first by (simp add: get_next_first Suc.prems(1) Nil)
    have moved: "above subids (start_bound ids (advance ids m rng)) k' \<longleftrightarrow>
        subids (sr_start rng) < subids k'" for k'
      by (simp add: above_start advance_def answer)
    have "\<exists>ends. walk ids m n (advance ids m rng) = map (\<lambda>(k, v). binding ids k v) (take n []) @ ends \<and>
       (\<forall>vb \<in> set ends. vb_data vb = EndOfMibView)"
    proof (rule Suc.IH)
      show "\<forall>e \<in> set m. \<not> above subids (start_bound ids (advance ids m rng)) (fst e)"
      proof
        fix e assume "e \<in> set m"
        then have "\<not> above subids (start_bound ids rng) (fst e)" using Suc.prems(1,4) by (simp add: Nil)
        then have "\<not> subids (sr_start rng) < subids (fst e)"
          by (auto simp: above_start split: if_splits)
        then show "\<not> above subids (start_bound ids (advance ids m rng)) (fst e)" by (simp only: moved not_False_eq_True)
      qed
    qed (use Suc.prems in \<open>auto simp: advance_def\<close>)
    then show ?thesis by (auto simp: Nil answer)
  next
    case (Cons e rest)
    obtain k v where e: "e = (k, v)" by (cases e)
    have answer: "mib_get_next ids m rng = binding ids k v"
      using first Suc.prems(3) by (simp add: get_next_first Suc.prems(1) Cons e)
    have moved: "above subids (start_bound ids (advance ids m rng)) k' \<longleftrightarrow> subids k < subids k'" for k'
      by (simp add: above_start advance_def answer)
    have asc: "sorted_wrt (<) (map (subids \<circ> fst) (pre @ e # rest))"
      using oid.bt.entries_ascend [OF ord] by (simp add: Cons)
    have "\<exists>ends. walk ids m n (advance ids m rng) = map (\<lambda>(k, v). binding ids k v) (take n rest) @ ends \<and>
       (\<forall>vb \<in> set ends. vb_data vb = EndOfMibView)"
    proof (rule Suc.IH)
      show "m = (pre @ [e]) @ rest" using Suc.prems(1) by (simp add: Cons)
      show "\<forall>e' \<in> set (pre @ [e]). \<not> above subids (start_bound ids (advance ids m rng)) (fst e')"
        using asc by (auto simp: moved sorted_wrt_append e not_less less_imp_le)
      show "\<forall>e' \<in> set rest. above subids (start_bound ids (advance ids m rng)) (fst e')"
        using asc by (auto simp: moved sorted_wrt_append e)
    qed (use Suc.prems in \<open>auto simp: advance_def\<close>)
    then show ?thesis by (auto simp: Cons e answer)
  qed
qed simp

lemma serves_ascending:
  assumes "serves ids subids m rows"
  shows "map (subids \<circ> fst) m = sorted_list_of_set (instance_of ` rows)" "length m = card rows"
proof -
  have asc: "sorted_wrt (<) (map (subids \<circ> fst) m)" and set: "set (map (subids \<circ> fst) m) = instance_of ` rows"
    using assms oid.bt_ordered_rank by (auto simp: serves_def)
  then show ks: "map (subids \<circ> fst) m = sorted_list_of_set (instance_of ` rows)"
    by (metis sorted_list_of_set.idem_if_sorted_distinct strict_sorted_iff)
  have "length m = card (set (map (subids \<circ> fst) m))"
    using asc by (metis distinct_card length_map strict_sorted_iff)
  also have "\<dots> = card rows"
    unfolding set by (rule card_image) (simp add: inj_on_def)
  finally show "length m = card rows" .
qed

text \<open>A walk from a start that precedes the table goes through the entries of the table.\<close>

lemma walk_whole:
  assumes "serves ids subids m rows" "id_is_null ids (sr_end rng)"
    and "admitted ids subids rows rng = instance_of ` rows"
  shows "\<exists>ends. walk ids m (card rows + n) rng = map (\<lambda>(k, v). binding ids k v) m @ ends \<and>
    (\<forall>vb \<in> set ends. vb_data vb = EndOfMibView)"
proof -
  have above: "\<forall>e \<in> set m. above subids (start_bound ids rng) (fst e)"
  proof
    fix e assume "e \<in> set m"
    then have "subids (fst e) \<in> admitted ids subids rows rng"
      using serves_entry(3) [OF assms(1), of "fst e" "snd e"] assms(3) by simp
    then show "above subids (start_bound ids rng) (fst e)"
      by (simp add: above_start admitted_def)
  qed
  have "bt_ordered (id_lt ids) m" using assms(1) by (simp add: serves_def)
  then have "\<exists>ends. walk ids m (card rows + n) rng =
      map (\<lambda>(k, v). binding ids k v) (take (card rows + n) m) @ ends \<and>
      (\<forall>vb \<in> set ends. vb_data vb = EndOfMibView)"
    by (intro walk_suffix [of _ "[]"]) (use assms(2) above in simp_all)
  then show ?thesis using serves_ascending(2) [OF assms(1)] by simp
qed

end

section \<open>Properties of the table\<close>

text \<open>
  C10. Building the table from a topology never panics, and the table serves exactly the rows
  RFC 2863 asks for: one per relationship, higher first, and the boundary rows of the missing
  sides.
\<close>

theorem topology_table:
  assumes "agentx_ids ids subids"
  shows "\<exists>m. from_topology ids t = Some m \<and> serves ids subids m (table_rows t)"
  using agentx_ids.from_rows_serves [OF assms, of "topology_rows t"]
  by (metis from_topology_def set_topology_rows)

lemma topology_table_witness:
  "\<exists>m. from_topology rfc_ids \<lparr> interfaces = [2, 10], relationships = [StackRelationship 10 2] \<rparr> = Some m \<and>
     serves rfc_ids rfc_subids m
       (table_rows \<lparr> interfaces = [2, 10], relationships = [StackRelationship 10 2] \<rparr>)"
  by (rule topology_table [OF rfc.agentx_ids_axioms])

text \<open>
  C11. In the table of a well-formed topology every interface has a row as the higher and a row
  as the lower sub-layer; its row with a zero lower index is there exactly when it runs over
  no interface, its row with a zero higher index exactly when no interface runs over it; and
  no row has two zeros.
\<close>

theorem boundary_rows:
  assumes "topology_ok t" "i \<in> set (interfaces t)"
  shows "(\<exists>l. (i, l) \<in> set (topology_rows t)) \<and> (\<exists>h. (h, i) \<in> set (topology_rows t)) \<and>
    ((i, 0) \<in> set (topology_rows t) \<longleftrightarrow> \<not> (\<exists>r \<in> set (relationships t). higher r = i)) \<and>
    ((0, i) \<in> set (topology_rows t) \<longleftrightarrow> \<not> (\<exists>r \<in> set (relationships t). lower r = i)) \<and>
    (0, 0) \<notin> set (topology_rows t)"
proof -
  have zero: "0 \<notin> set (interfaces t)" using assms(1) by (auto simp: topology_ok_def)
  then have pos: "i \<noteq> 0" "\<forall>r \<in> set (relationships t). higher r \<noteq> 0 \<and> lower r \<noteq> 0"
    using assms by (auto simp: topology_ok_def)
  show ?thesis
    unfolding set_topology_rows
  proof (intro conjI)
    show "\<exists>l. (i, l) \<in> table_rows t" "\<exists>h. (h, i) \<in> table_rows t"
      using assms(2) by (auto simp: table_rows_def)
  qed (use zero pos assms(2) in \<open>auto simp: table_rows_def\<close>)
qed

lemma boundary_rows_witness:
  "(10, 0) \<notin> set (topology_rows \<lparr> interfaces = [2, 10], relationships = [StackRelationship 10 2] \<rparr>) \<and>
   (2, 0) \<in> set (topology_rows \<lparr> interfaces = [2, 10], relationships = [StackRelationship 10 2] \<rparr>)"
proof -
  let ?t = "\<lparr> interfaces = [2, 10], relationships = [StackRelationship 10 2] \<rparr>"
  have "topology_ok ?t" by code_simp
  from boundary_rows [OF this, of 10] boundary_rows [OF this, of 2] show ?thesis by simp
qed

text \<open>
  C12. GET answers \<open>Integer 1\<close> for the instance of a served row, \<open>noSuchInstance\<close> for any other
  name under \<open>ifStackStatus\<close> (the column itself and longer names included), \<open>noSuchObject\<close>
  elsewhere; it never panics, and the answer repeats the requested name with the include flag
  cleared.
\<close>

theorem get_correct:
  assumes "agentx_ids ids subids" "serves ids subids m rows"
  shows "mib_get ids m name = Some (binding ids name
     (if subids name \<in> instance_of ` rows then Integer 1
      else if \<exists>rest. subids name = STATUS @ rest then NoSuchInstance
      else NoSuchObject))"
  by (rule agentx_ids.get_row [OF assms])

lemma one_row_served:
  "serves rfc_ids rfc_subids [(RfcId 0 (STATUS @ [2, 10]), Integer 1)] {(2, 10)}"
  by (simp add: serves_def bt_ordered_def rfc_ids_def instance_of_def)

lemma get_correct_witness:
  "mib_get rfc_ids [(RfcId 0 (STATUS @ [2, 10]), Integer 1)] (RfcId 1 (STATUS @ [2])) =
     Some \<lparr> vb_name = RfcId 0 (STATUS @ [2]), vb_data = NoSuchInstance \<rparr>"
  using get_correct [OF rfc.agentx_ids_axioms one_row_served, of "RfcId 1 (STATUS @ [2])"]
  by (simp add: binding_def rfc_ids_def instance_of_def)

text \<open>
  C13. GETNEXT answers the least served instance the range admits (from the start, inclusive
  when flagged, to the exclusive end, if there is one), with value \<open>Integer 1\<close> and a cleared
  include flag; when the range admits none it answers \<open>endOfMibView\<close> at the start of the range.
\<close>

theorem get_next_correct:
  assumes "agentx_ids ids subids" "serves ids subids m rows"
  shows "if admitted ids subids rows rng = {}
     then mib_get_next ids m rng = binding ids (sr_start rng) EndOfMibView
     else subids (vb_name (mib_get_next ids m rng)) = Min (admitted ids subids rows rng) \<and>
       vb_data (mib_get_next ids m rng) = Integer 1 \<and>
       id_include ids (vb_name (mib_get_next ids m rng)) = 0"
proof (cases "admitted ids subids rows rng = {}")
  case True
  then show ?thesis using agentx_ids.get_next_empty [OF assms True] by simp
next
  case False
  then obtain x where "x \<in> admitted ids subids rows rng" by blast
  from agentx_ids.get_next_least [OF assms this] obtain k where
    k: "mib_get_next ids m rng = binding ids k (Integer 1)"
    "subids k \<in> admitted ids subids rows rng"
    "\<And>y. y \<in> admitted ids subids rows rng \<Longrightarrow> subids k \<le> y"
    by blast
  have "finite (instance_of ` rows)"
    using assms(2) by (metis List.finite_set finite_imageI serves_def)
  then have "finite (admitted ids subids rows rng)" by (simp add: admitted_def)
  then have "Min (admitted ids subids rows rng) = subids k" using k by (intro Min_eqI) auto
  then show ?thesis
    using False k(1) by (simp add: agentx_ids.name_binding [OF assms(1)])
qed

lemma get_next_correct_witness:
  "vb_data (mib_get_next rfc_ids [(RfcId 0 (STATUS @ [2, 10]), Integer 1)]
     \<lparr> sr_start = RfcId 1 (STATUS @ [2, 10]), sr_end = RfcId 0 [] \<rparr>) = Integer 1"
proof -
  let ?rng = "\<lparr> sr_start = RfcId 1 (STATUS @ [2, 10]), sr_end = RfcId 0 [] \<rparr>"
  have "admitted rfc_ids rfc_subids {(2, 10)} ?rng = {STATUS @ [2, 10]}"
    by (auto simp: admitted_def rfc_ids_def instance_of_def)
  then show ?thesis
    using get_next_correct [OF rfc.agentx_ids_axioms one_row_served, of ?rng] by simp
qed

text \<open>
  C14. A walk, GETNEXT repeated from the name just received with no end, from any start that
  precedes the table visits every served row exactly once in ascending order, then reports
  the end of the view for ever: it neither skips a row nor loops.
\<close>

theorem walk_complete:
  assumes "agentx_ids ids subids" "serves ids subids m rows" "id_is_null ids (sr_end rng)"
    and "admitted ids subids rows rng = instance_of ` rows"
  shows "map (subids \<circ> vb_name) (take (card rows) (walk ids m (card rows + n) rng)) =
      sorted_list_of_set (instance_of ` rows) \<and>
    (\<forall>vb \<in> set (take (card rows) (walk ids m (card rows + n) rng)). vb_data vb = Integer 1) \<and>
    (\<forall>vb \<in> set (drop (card rows) (walk ids m (card rows + n) rng)). vb_data vb = EndOfMibView)"
proof -
  note asc = agentx_ids.serves_ascending [OF assms(1,2)]
  obtain ends where
    w: "walk ids m (card rows + n) rng = map (\<lambda>(k, v). binding ids k v) m @ ends"
    and ends: "\<forall>vb \<in> set ends. vb_data vb = EndOfMibView"
    using agentx_ids.walk_whole [OF assms] by blast
  have "map (subids \<circ> vb_name) (map (\<lambda>(k, v). binding ids k v) m) = map (subids \<circ> fst) m"
    by (auto simp: agentx_ids.name_binding [OF assms(1)])
  moreover have "\<forall>vb \<in> set (map (\<lambda>(k, v). binding ids k v) m). vb_data vb = Integer 1"
    using assms(2) by (auto simp: agentx_ids.name_binding [OF assms(1)] serves_def)
  ultimately show ?thesis
    using ends asc unfolding w by (simp add: asc(2) [symmetric])
qed

lemma walk_complete_witness:
  "map (rfc_subids \<circ> vb_name) (take 1 (walk rfc_ids [(RfcId 0 (STATUS @ [2, 10]), Integer 1)] 3
     \<lparr> sr_start = RfcId 0 TABLE, sr_end = RfcId 0 [] \<rparr>)) = [STATUS @ [2, 10]]"
proof -
  let ?rng = "\<lparr> sr_start = RfcId 0 TABLE, sr_end = RfcId 0 [] \<rparr>"
  have "admitted rfc_ids rfc_subids {(2, 10)} ?rng = instance_of ` {(2, 10)}"
    by (auto simp: admitted_def rfc_ids_def instance_of_def TABLE_def STATUS_def)
  moreover have "id_is_null rfc_ids (sr_end ?rng)" by (simp add: rfc_ids_def)
  ultimately show ?thesis
    using walk_complete [OF rfc.agentx_ids_axioms one_row_served, of ?rng 2]
    by (simp add: instance_of_def numeral_3_eq_3)
qed

end
