(* ===== verification/Monitor.thy ===== *)
theory Monitor
  imports Mib
begin

text \<open>
  \<open>src/monitor.rs\<close>: the process actor that keeps the published table current. \<open>State\<close> and its
  methods schedule subscriptions and inventories; \<open>monitor_iteration\<close> is the body of the
  \<open>loop\<close> of \<open>run\<close>, over the operations of the trait \<open>Acquisition\<close>, which are an argument. The
  source of the trait carries the rest of the world in its state \<open>'s\<close>: every call may change
  it, reading the clock included.

  The published cell \<open>Arc<RwLock<Option<Arc<Mib>>>>\<close> is an optional table. The lock is taken
  for one assignment or one clone, which cannot panic, so it is never poisoned and each access
  is atomic.
\<close>

section \<open>Constants\<close>

definition INITIAL_DELAY :: duration where
  "INITIAL_DELAY = from_secs 1"

definition MAX_DELAY :: duration where
  "MAX_DELAY = from_secs 30"

definition EVENT_RESET :: duration where
  "EVENT_RESET = from_secs 60"

lemmas delay_defs = INITIAL_DELAY_def MAX_DELAY_def EVENT_RESET_def

section \<open>The publication\<close>

type_synonym 'm cell = "'m option"

definition publication :: "'m cell" where
  "publication = None"

definition snapshot :: "'m cell \<Rightarrow> 'm option" where
  "snapshot c = c"

definition publish :: "'m \<Rightarrow> 'm cell \<Rightarrow> 'm cell" where
  "publish mib c = Some mib"

definition unavailable :: "'m cell \<Rightarrow> 'm cell" where
  "unavailable c = None"

section \<open>The trait \<open>Acquisition\<close>\<close>

datatype Attempt = Attempt (attempt_continuity: u64)

record EventBatch =
  batch_first :: "duration option"
  batch_last :: "duration option"

definition no_events :: EventBatch where
  "no_events = \<lparr> batch_first = None, batch_last = None \<rparr>"

definition one_event :: "duration \<Rightarrow> EventBatch" where
  "one_event at = \<lparr> batch_first = Some at, batch_last = Some at \<rparr>"

record Inventory =
  inv_attempt :: Attempt
  inv_links :: "ObservedLink list"
  inv_events :: EventBatch

datatype AcquisitionError = Ordinary io_error EventBatch | Lost io_error EventBatch

datatype WaitOutcome = Deadline | LinkChanged duration | Shutdown

record 's acquisition_ops =
  acq_now :: "'s \<Rightarrow> duration \<times> 's"
  acq_subscribe :: "'s \<Rightarrow> (unit io_result \<times> 's) option"
  acq_inventory :: "Attempt \<Rightarrow> 's \<Rightarrow> ((AcquisitionError + Inventory) \<times> 's) option"
  acq_wait :: "duration \<Rightarrow> 's \<Rightarrow> (WaitOutcome io_result \<times> 's) option"

section \<open>The scheduling state\<close>

record State =
  reconcile :: duration
  continuity :: u64
  subscribed :: bool
  needs_inventory :: bool
  retry_not_before :: "duration option"
  failure_delay :: duration
  event_deadline :: "duration option"
  event_delay :: duration
  last_event :: "duration option"
  last_success :: "duration option"

definition new_state :: "duration \<Rightarrow> State" where
  "new_state period =
     \<lparr> reconcile = period, continuity = 0, subscribed = False, needs_inventory = True,
       retry_not_before = None, failure_delay = INITIAL_DELAY, event_deadline = None,
       event_delay = INITIAL_DELAY, last_event = None, last_success = None \<rparr>"

definition next_delay :: "duration \<Rightarrow> duration option" where
  "next_delay delay = do { d \<leftarrow> twice delay; Some (min d MAX_DELAY) }"

definition retry_ready :: "State \<Rightarrow> duration \<Rightarrow> bool" where
  "retry_ready s t = (case retry_not_before s of None \<Rightarrow> True | Some deadline \<Rightarrow> deadline \<le> t)"

definition acquisition_ready :: "State \<Rightarrow> duration \<Rightarrow> bool" where
  "acquisition_ready s t =
     (if \<not> retry_ready s t then False
      else needs_inventory s \<or>
        (case event_deadline s of None \<Rightarrow> False | Some deadline \<Rightarrow> deadline \<le> t) \<or>
        (case last_success s of None \<Rightarrow> False
         | Some success \<Rightarrow> saturating_add success (reconcile s) \<le> t))"

definition start_acquisition :: "State \<Rightarrow> State option" where
  "start_acquisition s =
     (let s = s\<lparr> needs_inventory := False \<rparr>
      in case event_deadline s of
           None \<Rightarrow> Some s
         | Some _ \<Rightarrow> do {
             d \<leftarrow> next_delay (event_delay s);
             Some (s\<lparr> event_deadline := None, event_delay := d \<rparr>)
           })"

definition record_event :: "duration \<Rightarrow> State \<Rightarrow> State" where
  "record_event at s =
     (let s = (if (case last_event s of None \<Rightarrow> True
                   | Some prev \<Rightarrow> EVENT_RESET \<le> saturating_sub at prev)
               then s\<lparr> event_delay := INITIAL_DELAY \<rparr> else s);
          s = s\<lparr> last_event := Some at \<rparr>
      in case event_deadline s of
           None \<Rightarrow> s\<lparr> event_deadline := Some (saturating_add at (event_delay s)) \<rparr>
         | Some _ \<Rightarrow> s)"

definition record_batch :: "EventBatch \<Rightarrow> State \<Rightarrow> unit io_result \<times> State" where
  "record_batch batch s =
     (case (batch_first batch, batch_last batch) of
        (None, None) \<Rightarrow> (Inr (), s)
      | (Some at, Some till) \<Rightarrow>
          if at \<le> till \<and> till - at < EVENT_RESET then
            (let s = record_event at s;
                 s = (if at \<noteq> till then record_event till s else s)
             in (Inr (), s))
          else (Inl (error_other ''invalid inventory notification timestamps''), s)
      | _ \<Rightarrow> (Inl (error_other ''invalid inventory notification timestamps''), s))"

definition retain_failed_events :: "EventBatch \<Rightarrow> State \<Rightarrow> State" where
  "retain_failed_events events s = snd (record_batch events s)"

definition accept_inventory :: "Inventory \<Rightarrow> duration \<Rightarrow> State \<Rightarrow> Topology io_result \<times> State" where
  "accept_inventory inventory t s =
     (if attempt_continuity (inv_attempt inventory) \<noteq> continuity s then
        (Inl (error_other ''stale inventory from an earlier continuity generation''), s)
      else case record_batch (inv_events inventory) s of
        (Inl e, s) \<Rightarrow> (Inl e, s)
      | (Inr _, s) \<Rightarrow>
          (case from_observed (inv_links inventory) of
             Inl e \<Rightarrow> (Inl e, s)
           | Inr topology \<Rightarrow>
               (Inr topology,
                s\<lparr> retry_not_before := None, failure_delay := INITIAL_DELAY,
                   last_success := Some t \<rparr>)))"

definition fail :: "duration \<Rightarrow> State \<Rightarrow> State option" where
  "fail t s =
     (let s = s\<lparr> needs_inventory := True,
                 retry_not_before := Some (saturating_add t (failure_delay s)) \<rparr>
      in do {
        d \<leftarrow> next_delay (failure_delay s);
        Some (s\<lparr> failure_delay := d \<rparr>)
      })"

definition lose_continuity :: "duration \<Rightarrow> State \<Rightarrow> 'm cell \<Rightarrow> (State \<times> 'm cell) option" where
  "lose_continuity t s c =
     (let c = unavailable c;
          s = s\<lparr> continuity := continuity s + 1, subscribed := False, needs_inventory := True \<rparr>
      in do { s \<leftarrow> fail t s; Some (s, c) })"

definition next_deadline :: "State \<Rightarrow> duration \<Rightarrow> duration" where
  "next_deadline s t =
     (case retry_not_before s of
        Some deadline \<Rightarrow> max deadline t
      | None \<Rightarrow>
          if \<not> subscribed s \<or> needs_inventory s then t
          else
            let event = (case event_deadline s of None \<Rightarrow> duration_max | Some d \<Rightarrow> d);
                periodic = (case last_success s of None \<Rightarrow> t
                  | Some success \<Rightarrow> saturating_add success (reconcile s))
            in max (min event periodic) t)"

section \<open>The loop of \<open>run\<close>\<close>

record ('m, 's) monitor =
  mon_state :: State
  mon_cell :: "'m cell"
  mon_source :: 's

datatype 'x flow = Continue 'x | Return 'x

definition monitor_start :: "duration \<Rightarrow> 'm cell \<Rightarrow> 's \<Rightarrow> ('m, 's) monitor" where
  "monitor_start period reader source =
     \<lparr> mon_state = new_state period, mon_cell = reader, mon_source = source \<rparr>"

text \<open>The subscription at the top of the loop.\<close>

definition subscription_phase ::
    "'s acquisition_ops \<Rightarrow> duration \<Rightarrow> State \<Rightarrow> 's \<Rightarrow> (State \<times> 's) option" where
  "subscription_phase A t s src =
     (if \<not> subscribed s \<and> retry_ready s t then do {
        (r, src) \<leftarrow> acq_subscribe A src;
        case r of
          Inr _ \<Rightarrow> Some (s\<lparr> subscribed := True, needs_inventory := True \<rparr>, src)
        | Inl e \<Rightarrow>
            let (t, src) = acq_now A src
            in do { s \<leftarrow> fail t s; Some (s, src) }
      } else Some (s, src))"

text \<open>One acquisition: the body of the second \<open>if\<close>.\<close>

definition acquisition_phase ::
    "'id id_ops \<Rightarrow> 's acquisition_ops \<Rightarrow> State \<Rightarrow> 'id mib cell \<Rightarrow> 's \<Rightarrow>
     ('id mib, 's) monitor option" where
  "acquisition_phase ids A s c src = do {
     s \<leftarrow> start_acquisition s;
     (outcome, src) \<leftarrow> acq_inventory A (Attempt (continuity s)) src;
     case outcome of
       Inr inventory \<Rightarrow>
         let (t, src) = acq_now A src
         in (case accept_inventory inventory t s of
               (Inr topology, s) \<Rightarrow> do {
                 mib \<leftarrow> from_topology ids topology;
                 Some \<lparr> mon_state = s, mon_cell = publish mib c, mon_source = src \<rparr>
               }
             | (Inl e, s) \<Rightarrow>
                 let (t, src) = acq_now A src
                 in do { s \<leftarrow> fail t s; Some \<lparr> mon_state = s, mon_cell = c, mon_source = src \<rparr> })
     | Inl (Ordinary e events) \<Rightarrow>
         let s = retain_failed_events events s;
             (t, src) = acq_now A src
         in do { s \<leftarrow> fail t s; Some \<lparr> mon_state = s, mon_cell = c, mon_source = src \<rparr> }
     | Inl (Lost e events) \<Rightarrow>
         let s = retain_failed_events events s;
             (t, src) = acq_now A src
         in do {
           (s, c) \<leftarrow> lose_continuity t s c;
           Some \<lparr> mon_state = s, mon_cell = c, mon_source = src \<rparr>
         }
   }"

text \<open>The wait at the end of the loop.\<close>

definition wait_phase ::
    "'s acquisition_ops \<Rightarrow> duration \<Rightarrow> State \<Rightarrow> 'm cell \<Rightarrow> 's \<Rightarrow> ('m, 's) monitor flow option" where
  "wait_phase A t s c src =
     (let timeout = saturating_sub (next_deadline s t) t
      in do {
        (r, src) \<leftarrow> acq_wait A timeout src;
        case r of
          Inr Deadline \<Rightarrow>
            Some (Continue \<lparr> mon_state = s, mon_cell = c, mon_source = src \<rparr>)
        | Inr (LinkChanged at) \<Rightarrow>
            Some (Continue \<lparr> mon_state = record_event at s, mon_cell = c, mon_source = src \<rparr>)
        | Inr Shutdown \<Rightarrow>
            Some (Return \<lparr> mon_state = s, mon_cell = c, mon_source = src \<rparr>)
        | Inl e \<Rightarrow>
            let (t, src) = acq_now A src
            in do {
              (s, c) \<leftarrow> lose_continuity t s c;
              Some (Continue \<lparr> mon_state = s, mon_cell = c, mon_source = src \<rparr>)
            }
      })"

definition monitor_iteration ::
    "'id id_ops \<Rightarrow> 's acquisition_ops \<Rightarrow> ('id mib, 's) monitor \<Rightarrow>
     ('id mib, 's) monitor flow option" where
  "monitor_iteration ids A m =
     (let (t, src) = acq_now A (mon_source m)
      in do {
        (s, src) \<leftarrow> subscription_phase A t (mon_state m) src;
        let (t, src) = acq_now A src;
        if subscribed s \<and> acquisition_ready s t
        then do {
          m' \<leftarrow> acquisition_phase ids A s (mon_cell m) src;
          Some (Continue m')
        }
        else wait_phase A t s (mon_cell m) src
      })"

text \<open>
  The loop itself does not end in production, so \<open>monitor_run\<close> is what its first \<open>n\<close>
  iterations do: they panic, or return (a test source can ask for it), or go on.
\<close>

fun monitor_run ::
    "'id id_ops \<Rightarrow> 's acquisition_ops \<Rightarrow> nat \<Rightarrow> ('id mib, 's) monitor \<Rightarrow>
     ('id mib, 's) monitor flow option" where
  "monitor_run ids A 0 m = Some (Continue m)"
| "monitor_run ids A (Suc n) m =
     (case monitor_iteration ids A m of
        None \<Rightarrow> None
      | Some (Return m') \<Rightarrow> Some (Return m')
      | Some (Continue m') \<Rightarrow> monitor_run ids A n m')"

section \<open>The delays\<close>

text \<open>The delay after \<open>n\<close> doublings: 1, 2, 4, 8, 16 and then always 30 seconds.\<close>

definition backoff :: "nat \<Rightarrow> duration" where
  "backoff n = from_secs (min 30 (2 ^ n))"

named_theorems monitor_simps \<open>what one method of the scheduling state does\<close>

lemma backoff_0 [monitor_simps]: "INITIAL_DELAY = backoff 0"
  by (simp add: INITIAL_DELAY_def backoff_def)

lemma backoff_bounds: "from_secs 1 \<le> backoff n" "backoff n \<le> from_secs 30" "0 < backoff n"
  by (auto simp: backoff_def from_secs_def nanos_per_sec_def)

lemma next_delay_backoff [monitor_simps]: "next_delay (backoff n) = Some (backoff (Suc n))"
proof -
  have "backoff n * 2 \<le> from_secs 60"
    using backoff_bounds(2) [of n] by (simp add: from_secs_def)
  then have "twice (backoff n) = Some (backoff n * 2)"
    by (simp add: twice_def duration_max_def from_secs_def nanos_per_sec_def)
  moreover have "min (backoff n * 2) MAX_DELAY = backoff (Suc n)"
    by (simp add: backoff_def MAX_DELAY_def from_secs_def nanos_per_sec_def min_def)
  ultimately show ?thesis by (simp add: next_delay_def)
qed

text \<open>
  The delays are always such delays, and a pending event deadline comes from a recorded event.
  When no attempt is due at once, the source is subscribed, no retry is pending and an
  inventory has succeeded.
\<close>

definition delays_ok :: "State \<Rightarrow> bool" where
  "delays_ok s \<longleftrightarrow> failure_delay s \<in> range backoff \<and> event_delay s \<in> range backoff \<and>
     (event_deadline s \<noteq> None \<longrightarrow> last_event s \<noteq> None)"

definition state_ok :: "State \<Rightarrow> bool" where
  "state_ok s \<longleftrightarrow> delays_ok s \<and>
     (needs_inventory s \<or> subscribed s \<and> retry_not_before s = None \<and> last_success s \<noteq> None)"

lemma state_ok_delays [intro]: "state_ok s \<Longrightarrow> delays_ok s"
  by (simp add: state_ok_def)

lemma state_ok_new [simp]: "state_ok (new_state period)"
  by (simp add: state_ok_def delays_ok_def new_state_def backoff_0)

lemma fail_at [monitor_simps]:
  "failure_delay s = backoff n \<Longrightarrow>
     fail t s = Some (s\<lparr> needs_inventory := True,
       retry_not_before := Some (saturating_add t (backoff n)), failure_delay := backoff (Suc n) \<rparr>)"
  by (simp add: fail_def next_delay_backoff)

lemma fail_ok:
  assumes "delays_ok s"
  shows "\<exists>s'. fail t s = Some s' \<and> state_ok s' \<and> subscribed s' = subscribed s \<and>
    continuity s' = continuity s \<and> retry_not_before s' \<noteq> None"
proof -
  obtain n where "failure_delay s = backoff n" using assms by (auto simp: delays_ok_def)
  then show ?thesis using assms by (simp add: fail_at state_ok_def delays_ok_def)
qed

lemma lose_continuity_ok:
  assumes "delays_ok s"
  shows "\<exists>s'. lose_continuity t s c = Some (s', None) \<and> state_ok s' \<and> \<not> subscribed s' \<and>
    continuity s' = continuity s + 1 \<and> retry_not_before s' \<noteq> None"
  using fail_ok [of "s\<lparr> continuity := continuity s + 1, subscribed := False,
      needs_inventory := True \<rparr>" t] assms
  by (auto simp: lose_continuity_def unavailable_def delays_ok_def)

lemma start_acquisition_ok:
  assumes "delays_ok s"
  shows "\<exists>s'. start_acquisition s = Some s' \<and> delays_ok s' \<and> subscribed s' = subscribed s \<and>
    continuity s' = continuity s \<and> \<not> needs_inventory s' \<and> event_deadline s' = None"
proof -
  obtain n where "event_delay s = backoff n" using assms by (auto simp: delays_ok_def)
  then show ?thesis using assms
    by (cases "event_deadline s") (simp_all add: start_acquisition_def delays_ok_def next_delay_backoff)
qed

text \<open>The methods that record events change no other part of the state.\<close>

lemma record_event_frame [simp]:
  "reconcile (record_event at s) = reconcile s"
  "continuity (record_event at s) = continuity s"
  "subscribed (record_event at s) = subscribed s"
  "needs_inventory (record_event at s) = needs_inventory s"
  "retry_not_before (record_event at s) = retry_not_before s"
  "failure_delay (record_event at s) = failure_delay s"
  "last_success (record_event at s) = last_success s"
  "last_event (record_event at s) = Some at"
  by (simp_all add: record_event_def Let_def split: option.split)

lemma record_event_delay:
  "event_delay (record_event at s) = event_delay s \<or> event_delay (record_event at s) = INITIAL_DELAY"
  by (simp add: record_event_def Let_def split: option.split)

lemma record_event_ok:
  "delays_ok s \<Longrightarrow> delays_ok (record_event at s)"
  "state_ok s \<Longrightarrow> state_ok (record_event at s)"
  using record_event_delay [of at s] by (auto simp: state_ok_def delays_ok_def backoff_0)

lemma record_batch_cases:
  obtains "snd (record_batch b s) = s" | at where "snd (record_batch b s) = record_event at s"
  | at till where "snd (record_batch b s) = record_event till (record_event at s)"
proof (cases "batch_first b")
  case None
  then show thesis using that(1) by (cases "batch_last b") (simp_all add: record_batch_def)
next
  case at: (Some at)
  show thesis
  proof (cases "batch_last b")
    case None
    then show thesis using that(1) by (simp add: record_batch_def at)
  next
    case (Some till)
    then have "snd (record_batch b s) = s \<or> snd (record_batch b s) = record_event at s \<or>
        snd (record_batch b s) = record_event till (record_event at s)"
      by (simp add: record_batch_def at Let_def)
    then show thesis using that by blast
  qed
qed

lemma record_batch_frame [simp]:
  "reconcile (snd (record_batch b s)) = reconcile s"
  "continuity (snd (record_batch b s)) = continuity s"
  "subscribed (snd (record_batch b s)) = subscribed s"
  "needs_inventory (snd (record_batch b s)) = needs_inventory s"
  "retry_not_before (snd (record_batch b s)) = retry_not_before s"
  "failure_delay (snd (record_batch b s)) = failure_delay s"
  "last_success (snd (record_batch b s)) = last_success s"
  by (rule record_batch_cases [of b s]; simp)+

lemma record_batch_ok: "delays_ok s \<Longrightarrow> delays_ok (snd (record_batch b s))"
  by (rule record_batch_cases [of b s]) (simp_all add: record_event_ok)

section \<open>Accepting an inventory\<close>

definition batch_ok :: "EventBatch \<Rightarrow> bool" where
  "batch_ok b \<longleftrightarrow> (case (batch_first b, batch_last b) of
     (None, None) \<Rightarrow> True
   | (Some at, Some till) \<Rightarrow> at \<le> till \<and> till < at + EVENT_RESET
   | _ \<Rightarrow> False)"

lemma record_batch_result:
  "record_batch b s = ((if batch_ok b then Inr ()
     else Inl (error_other ''invalid inventory notification timestamps'')), snd (record_batch b s))"
  by (cases "batch_first b"; cases "batch_last b")
    (auto simp: record_batch_def batch_ok_def Let_def)

text \<open>
  An inventory is acceptable in a state when it belongs to the current continuity generation,
  the events that came with it are in order, and its links are coherent.
\<close>

definition acceptable :: "State \<Rightarrow> Inventory \<Rightarrow> bool" where
  "acceptable s iv \<longleftrightarrow> attempt_continuity (inv_attempt iv) = continuity s \<and>
     batch_ok (inv_events iv) \<and> coherent (inv_links iv)"

lemma accept_inventory_accepts:
  assumes "acceptable s iv"
  shows "accept_inventory iv t s = (Inr (topology_of (inv_links iv)),
    (snd (record_batch (inv_events iv) s))
      \<lparr> retry_not_before := None, failure_delay := INITIAL_DELAY, last_success := Some t \<rparr>)"
proof -
  have "from_observed (inv_links iv) = Inr (topology_of (inv_links iv))"
    using assms by (simp add: acceptable_def from_observed_iff)
  then show ?thesis
    using assms by (subst accept_inventory_def, subst record_batch_result) (simp add: acceptable_def)
qed

lemma accept_inventory_refuses:
  assumes "\<not> acceptable s iv"
  obtains e where "accept_inventory iv t s = (Inl e, s)"
    | e where "accept_inventory iv t s = (Inl e, snd (record_batch (inv_events iv) s))"
proof (cases "attempt_continuity (inv_attempt iv) = continuity s \<and> batch_ok (inv_events iv)")
  case True
  then have "\<not> coherent (inv_links iv)" using assms by (simp add: acceptable_def)
  then obtain e where "from_observed (inv_links iv) = Inl e"
    by (cases "from_observed (inv_links iv)") (auto simp: from_observed_iff)
  then have "accept_inventory iv t s = (Inl e, snd (record_batch (inv_events iv) s))"
    using True by (subst accept_inventory_def, subst record_batch_result) simp
  then show thesis by (rule that(2))
next
  case False
  show thesis
  proof (cases "attempt_continuity (inv_attempt iv) = continuity s")
    case True
    with False have "accept_inventory iv t s = (Inl (error_other
        ''invalid inventory notification timestamps''), snd (record_batch (inv_events iv) s))"
      by (subst accept_inventory_def, subst record_batch_result) simp
    then show thesis by (rule that(2))
  next
    case False
    then show thesis using that(1) by (simp add: accept_inventory_def)
  qed
qed

section \<open>One iteration\<close>

text \<open>What holds between two iterations: a table is published only under a subscription.\<close>

definition monitor_ok :: "('m, 's) monitor \<Rightarrow> bool" where
  "monitor_ok m \<longleftrightarrow> state_ok (mon_state m) \<and> (mon_cell m \<noteq> None \<longrightarrow> subscribed (mon_state m))"

lemma subscription_phase_cases:
  assumes "subscription_phase A t s src = Some (s', src')" "state_ok s"
  obtains "s' = s" "src' = src" "subscribed s \<or> \<not> retry_ready s t"
    | "\<not> subscribed s" "retry_ready s t" "acq_subscribe A src = Some (Inr (), src')"
      "s' = s\<lparr> subscribed := True, needs_inventory := True \<rparr>"
    | e src1 where "\<not> subscribed s" "retry_ready s t" "acq_subscribe A src = Some (Inl e, src1)"
      "src' = snd (acq_now A src1)" "fail (fst (acq_now A src1)) s = Some s'"
proof (cases "\<not> subscribed s \<and> retry_ready s t")
  case True
  with assms(1) obtain r src1 where sub: "acq_subscribe A src = Some (r, src1)"
    by (auto simp: subscription_phase_def split: bind_splits)
  show thesis
  proof (cases r)
    case (Inl e)
    with True sub assms(1) that(3) show thesis
      by (auto simp: subscription_phase_def Let_def split: prod.splits bind_splits)
  next
    case (Inr u)
    with True sub assms(1) that(2) show thesis by (simp add: subscription_phase_def)
  qed
next
  case False
  then show thesis using assms(1) that(1) by (auto simp: subscription_phase_def split: if_splits)
qed

lemma subscription_phase_ok:
  assumes "subscription_phase A t s src = Some (s', src')" "state_ok s"
  shows "state_ok s' \<and> continuity s' = continuity s \<and> (subscribed s \<longrightarrow> subscribed s')"
  using assms(1,2)
proof (cases rule: subscription_phase_cases)
  case 2
  then show ?thesis using assms(2) by (simp add: state_ok_def delays_ok_def)
next
  case (3 e src1)
  obtain s1 where "fail (fst (acq_now A src1)) s = Some s1" "state_ok s1"
      "subscribed s1 = subscribed s" "continuity s1 = continuity s"
    using fail_ok [OF state_ok_delays [OF assms(2)]] by blast
  with 3 show ?thesis by simp
qed (use assms(2) in simp)

lemma subscription_phase_total:
  assumes "state_ok s" "acq_subscribe A src \<noteq> None"
  shows "\<exists>s' src'. subscription_phase A t s src = Some (s', src')"
proof -
  obtain r src1 where sub: "acq_subscribe A src = Some (r, src1)" using assms(2) by auto
  obtain t' src' where now: "acq_now A src1 = (t', src')" by (cases "acq_now A src1")
  obtain s1 where f: "fail t' s = Some s1"
    using fail_ok [OF state_ok_delays [OF assms(1)]] by blast
  show ?thesis by (cases r) (simp_all add: subscription_phase_def sub now f)
qed

text \<open>Which of its continuations an acquisition takes, by what the source returned.\<close>

fun is_lost :: "AcquisitionError + Inventory \<Rightarrow> bool" where
  "is_lost (Inl (Lost e events)) = True"
| "is_lost (Inl (Ordinary e events)) = False"
| "is_lost (Inr iv) = False"

lemma acquisition_phase_split:
  assumes s1: "start_acquisition s = Some s1" "delays_ok s1" "continuity s1 = continuity s"
    and r: "acq_inventory A (Attempt (continuity s)) src = Some (r, src1)"
  obtains
    (accepted) iv t where "r = Inr iv" "acceptable s1 iv"
      "acquisition_phase ids A s c src = do {
         mib \<leftarrow> from_topology ids (topology_of (inv_links iv));
         Some \<lparr> mon_state = (snd (record_batch (inv_events iv) s1))\<lparr> retry_not_before := None,
             failure_delay := INITIAL_DELAY, last_success := Some t \<rparr>,
           mon_cell = Some mib, mon_source = snd (acq_now A src1) \<rparr> }"
  | (failed) s2 t src2 where "\<not> is_lost r" "delays_ok s2" "subscribed s2 = subscribed s1"
      "continuity s2 = continuity s"
      "acq_now A src1 = (t, src2) \<or> acq_now A (snd (acq_now A src1)) = (t, src2)"
      "\<forall>iv. r = Inr iv \<longrightarrow> \<not> acceptable s1 iv"
      "acquisition_phase ids A s c src =
         do { s \<leftarrow> fail t s2; Some \<lparr> mon_state = s, mon_cell = c, mon_source = src2 \<rparr> }"
  | (lost) s2 t where "is_lost r" "delays_ok s2" "continuity s2 = continuity s"
      "acquisition_phase ids A s c src = do {
         (s, c) \<leftarrow> lose_continuity t s2 c;
         Some \<lparr> mon_state = s, mon_cell = c, mon_source = snd (acq_now A src1) \<rparr> }"
proof -
  obtain t src2 where now: "acq_now A src1 = (t, src2)" by (cases "acq_now A src1")
  obtain t2 src3 where now2: "acq_now A src2 = (t2, src3)" by (cases "acq_now A src2")
  note phase = acquisition_phase_def s1 r now now2 retain_failed_events_def
  note batch = record_batch_ok [OF s1(2)]
  show thesis
  proof (cases r rule: is_lost.cases)
    case (1 e events)
    then show thesis
      by (intro lost [of "snd (record_batch events s1)" t]) (simp_all add: phase batch)
  next
    case (2 e events)
    then show thesis
      by (intro failed [of "snd (record_batch events s1)" t src2]) (simp_all add: phase batch)
  next
    case (3 iv)
    show thesis
    proof (cases "acceptable s1 iv")
      case True
      with 3 show thesis
        by (intro accepted [of iv t]) (simp_all add: phase accept_inventory_accepts publish_def)
    next
      case False
      then show thesis
      proof (cases rule: accept_inventory_refuses [where t = t])
        case (1 e)
        with 3 False show thesis by (intro failed [of s1 t2 src3]) (simp_all add: phase)
      next
        case (2 e)
        with 3 False show thesis
          by (intro failed [of "snd (record_batch (inv_events iv) s1)" t2 src3])
            (simp_all add: phase batch)
      qed
    qed
  qed
qed

lemma acquisition_phase_started:
  assumes "acquisition_phase ids A s c src = Some m" "delays_ok s" "subscribed s"
  obtains s1 r src1 where "start_acquisition s = Some s1" "delays_ok s1" "continuity s1 = continuity s"
    "subscribed s1" "acq_inventory A (Attempt (continuity s)) src = Some (r, src1)"
proof -
  obtain s1 where s1: "start_acquisition s = Some s1" "delays_ok s1" "subscribed s1"
      "continuity s1 = continuity s"
    using start_acquisition_ok [OF assms(2)] assms(3) by auto
  moreover obtain r src1 where "acq_inventory A (Attempt (continuity s)) src = Some (r, src1)"
    using assms(1) s1 by (auto simp: acquisition_phase_def split: bind_splits)
  ultimately show thesis using that by blast
qed

text \<open>The three ways an acquisition ends: a new table, the old table kept, the table withdrawn.\<close>

lemma acquisition_phase_cases:
  assumes "acquisition_phase ids A s c src = Some m" "delays_ok s" "subscribed s"
  obtains
    (published) iv src1 where
      "acq_inventory A (Attempt (continuity s)) src = Some (Inr iv, src1)"
      "attempt_continuity (inv_attempt iv) = continuity s" "coherent (inv_links iv)"
      "from_topology ids (topology_of (inv_links iv)) = mon_cell m" "mon_cell m \<noteq> None"
      "state_ok (mon_state m)" "subscribed (mon_state m)" "continuity (mon_state m) = continuity s"
  | (kept) "mon_cell m = c" "state_ok (mon_state m)" "subscribed (mon_state m)"
      "continuity (mon_state m) = continuity s" "retry_not_before (mon_state m) \<noteq> None"
  | (withdrawn) "mon_cell m = None" "state_ok (mon_state m)" "\<not> subscribed (mon_state m)"
      "continuity (mon_state m) = continuity s + 1" "retry_not_before (mon_state m) \<noteq> None"
proof -
  obtain s1 r src1 where s1: "start_acquisition s = Some s1" "delays_ok s1" "continuity s1 = continuity s"
      and sub: "subscribed s1" and r: "acq_inventory A (Attempt (continuity s)) src = Some (r, src1)"
    by (rule acquisition_phase_started [OF assms])
  from s1 r show thesis
  proof (cases rule: acquisition_phase_split [where ids = ids and c = c])
    case (accepted iv t)
    have "delays_ok (snd (record_batch (inv_events iv) s1))" by (rule record_batch_ok [OF s1(2)])
    with accepted assms(1) show thesis
      using s1 sub r
      by (intro published [of iv src1])
        (auto simp: acceptable_def state_ok_def delays_ok_def backoff_0 split: bind_splits)
  next
    case (failed s2 t src2)
    obtain s3 where "fail t s2 = Some s3" "state_ok s3" "subscribed s3" "continuity s3 = continuity s"
        "retry_not_before s3 \<noteq> None"
      using fail_ok [OF failed(2), of t] failed(3,4) sub by auto
    with failed(7) assms(1) show thesis by (intro kept) auto
  next
    case (lost s2 t)
    obtain s3 where "lose_continuity t s2 c = Some (s3, None)" "state_ok s3" "\<not> subscribed s3"
        "continuity s3 = continuity s + 1" "retry_not_before s3 \<noteq> None"
      using lose_continuity_ok [OF lost(2), of t c] lost(3) by auto
    with lost(4) assms(1) show thesis by (intro withdrawn) auto
  qed
qed

lemma acquisition_phase_total:
  assumes "agentx_ids ids subids" "delays_ok s" "\<And>a src. acq_inventory A a src \<noteq> None"
  shows "\<exists>m. acquisition_phase ids A s c src = Some m"
proof -
  obtain s1 where s1: "start_acquisition s = Some s1" "delays_ok s1" "continuity s1 = continuity s"
    using start_acquisition_ok [OF assms(2)] by auto
  obtain r src1 where r: "acq_inventory A (Attempt (continuity s)) src = Some (r, src1)"
    using assms(3) by (metis option.exhaust surj_pair)
  from s1 r show ?thesis
  proof (cases rule: acquisition_phase_split [where ids = ids and c = c])
    case (accepted iv t)
    obtain mib where "from_topology ids (topology_of (inv_links iv)) = Some mib"
      using agentx_ids.from_rows_serves [OF assms(1)] unfolding from_topology_def by blast
    with accepted(3) show ?thesis by simp
  next
    case (failed s2 t src2)
    then show ?thesis using fail_ok [OF failed(2), of t] by auto
  next
    case (lost s2 t)
    then show ?thesis using lose_continuity_ok [OF lost(2), of t c] by auto
  qed
qed

fun flow_end :: "'x flow \<Rightarrow> 'x" where
  "flow_end (Continue m) = m"
| "flow_end (Return m) = m"

lemma wait_phase_cases:
  assumes "wait_phase A t s c src = Some flow" "state_ok s"
  obtains (kept) "mon_cell (flow_end flow) = c" "state_ok (mon_state (flow_end flow))"
      "subscribed (mon_state (flow_end flow)) = subscribed s"
      "continuity (mon_state (flow_end flow)) = continuity s"
  | (withdrawn) "mon_cell (flow_end flow) = None" "state_ok (mon_state (flow_end flow))"
      "\<not> subscribed (mon_state (flow_end flow))"
      "continuity (mon_state (flow_end flow)) = continuity s + 1"
proof -
  let ?timeout = "saturating_sub (next_deadline s t) t"
  obtain r src1 where r: "acq_wait A ?timeout src = Some (r, src1)"
    using assms(1) by (auto simp: wait_phase_def Let_def split: bind_splits)
  show thesis
  proof (cases r)
    case (Inl e)
    obtain t2 src2 where now: "acq_now A src1 = (t2, src2)" by (cases "acq_now A src1")
    obtain s2 where "lose_continuity t2 s c = Some (s2, None)" "state_ok s2" "\<not> subscribed s2"
        "continuity s2 = continuity s + 1"
      using lose_continuity_ok [OF state_ok_delays [OF assms(2)], of t2 c] by auto
    with assms(1) show thesis by (intro withdrawn) (auto simp: wait_phase_def r Inl now)
  next
    case (Inr what)
    show thesis
      by (rule kept; insert assms; cases what)
        (auto simp: wait_phase_def r Inr record_event_ok)
  qed
qed

lemma wait_phase_total:
  assumes "state_ok s" "\<And>d src. acq_wait A d src \<noteq> None"
  shows "\<exists>flow. wait_phase A t s c src = Some flow"
proof -
  let ?timeout = "saturating_sub (next_deadline s t) t"
  obtain r src1 where r: "acq_wait A ?timeout src = Some (r, src1)"
    using assms(2) by (metis option.exhaust surj_pair)
  show ?thesis
  proof (cases r)
    case (Inl e)
    obtain t2 src2 where now: "acq_now A src1 = (t2, src2)" by (cases "acq_now A src1")
    obtain s2 where "lose_continuity t2 s c = Some (s2, None)"
      using lose_continuity_ok [OF state_ok_delays [OF assms(1)], of t2 c] by auto
    then show ?thesis by (simp add: wait_phase_def r Inl now)
  next
    case (Inr what)
    then show ?thesis by (cases what) (simp_all add: wait_phase_def r)
  qed
qed

text \<open>
  An iteration is a subscription phase followed by an acquisition or by a wait; the three
  lemmas above then tell how it may end.
\<close>

lemma monitor_iteration_split:
  assumes "monitor_iteration ids A m = Some flow"
  obtains s src t src1 where
    "subscription_phase A (fst (acq_now A (mon_source m))) (mon_state m)
       (snd (acq_now A (mon_source m))) = Some (s, src)"
    "acq_now A src = (t, src1)"
    "if subscribed s \<and> acquisition_ready s t
     then \<exists>m'. acquisition_phase ids A s (mon_cell m) src1 = Some m' \<and> flow = Continue m'
     else wait_phase A t s (mon_cell m) src1 = Some flow"
proof -
  obtain t0 src0 where n0: "acq_now A (mon_source m) = (t0, src0)" by (cases "acq_now A (mon_source m)")
  obtain s src where sub: "subscription_phase A t0 (mon_state m) src0 = Some (s, src)"
    using assms by (auto simp: monitor_iteration_def n0 split: bind_splits)
  obtain t src1 where n1: "acq_now A src = (t, src1)" by (cases "acq_now A src")
  show thesis
  proof (rule that [of s src t src1])
    show "if subscribed s \<and> acquisition_ready s t
     then \<exists>m'. acquisition_phase ids A s (mon_cell m) src1 = Some m' \<and> flow = Continue m'
     else wait_phase A t s (mon_cell m) src1 = Some flow"
      using assms by (auto simp: monitor_iteration_def n0 sub n1 split: bind_splits if_splits)
  qed (simp_all add: n0 sub n1)
qed

lemma monitor_iteration_cases:
  assumes "monitor_iteration ids A m = Some flow" "monitor_ok m"
  obtains
    (published) src src1 iv where
      "acq_inventory A (Attempt (continuity (mon_state m))) src = Some (Inr iv, src1)"
      "attempt_continuity (inv_attempt iv) = continuity (mon_state m)" "coherent (inv_links iv)"
      "from_topology ids (topology_of (inv_links iv)) = mon_cell (flow_end flow)"
      "mon_cell (flow_end flow) \<noteq> None" "subscribed (mon_state (flow_end flow))"
      "continuity (mon_state (flow_end flow)) = continuity (mon_state m)" "monitor_ok (flow_end flow)"
  | (kept) "mon_cell (flow_end flow) = mon_cell m"
      "subscribed (mon_state m) \<longrightarrow> subscribed (mon_state (flow_end flow))"
      "continuity (mon_state (flow_end flow)) = continuity (mon_state m)" "monitor_ok (flow_end flow)"
  | (withdrawn) "mon_cell (flow_end flow) = None" "\<not> subscribed (mon_state (flow_end flow))"
      "continuity (mon_state (flow_end flow)) = continuity (mon_state m) + 1"
      "monitor_ok (flow_end flow)"
proof -
  have m: "state_ok (mon_state m)" "mon_cell m \<noteq> None \<longrightarrow> subscribed (mon_state m)"
    using assms(2) by (auto simp: monitor_ok_def)
  from assms(1) obtain s src t src1 where it:
    "subscription_phase A (fst (acq_now A (mon_source m))) (mon_state m)
       (snd (acq_now A (mon_source m))) = Some (s, src)"
    "if subscribed s \<and> acquisition_ready s t
     then \<exists>m'. acquisition_phase ids A s (mon_cell m) src1 = Some m' \<and> flow = Continue m'
     else wait_phase A t s (mon_cell m) src1 = Some flow"
    by (rule monitor_iteration_split) blast
  have s: "state_ok s" "continuity s = continuity (mon_state m)"
      "subscribed (mon_state m) \<longrightarrow> subscribed s"
    using subscription_phase_ok [OF it(1) m(1)] by auto
  show thesis
  proof (cases "subscribed s \<and> acquisition_ready s t")
    case True
    with it(2) obtain m' where m': "acquisition_phase ids A s (mon_cell m) src1 = Some m'"
        "flow = Continue m'" by auto
    from m'(1) state_ok_delays [OF s(1)] conjunct1 [OF True] show thesis
    proof (cases rule: acquisition_phase_cases)
      case (published iv src2)
      with m' s show thesis by (intro that(1) [of src1 iv src2]) (auto simp: monitor_ok_def)
    next
      case kept
      with m' s show thesis by (intro that(2)) (auto simp: monitor_ok_def)
    next
      case withdrawn
      with m' s show thesis by (intro that(3)) (auto simp: monitor_ok_def)
    qed
  next
    case False
    with it(2) have "wait_phase A t s (mon_cell m) src1 = Some flow" by auto
    from this s(1) show thesis
    proof (cases rule: wait_phase_cases)
      case kept
      with m s show thesis by (intro that(2)) (auto simp: monitor_ok_def)
    next
      case withdrawn
      with s show thesis by (intro that(3)) (auto simp: monitor_ok_def)
    qed
  qed
qed

section \<open>Runs\<close>

lemma monitor_run_preserves:
  assumes "monitor_run ids A n m = Some flow" "P m"
    and "\<And>m flow. P m \<Longrightarrow> monitor_iteration ids A m = Some flow \<Longrightarrow> P (flow_end flow)"
  shows "P (flow_end flow)"
  using assms(1,2)
proof (induction n arbitrary: m)
  case (Suc n)
  then obtain flow' where it: "monitor_iteration ids A m = Some flow'" by (auto split: option.splits)
  with Suc.prems assms(3) have P: "P (flow_end flow')" by blast
  show ?case
    using Suc.prems(1) it P Suc.IH by (cases flow') auto
qed auto

lemma monitor_ok_start [simp]: "monitor_ok (monitor_start period publication src)"
  by (simp add: monitor_ok_def monitor_start_def publication_def)

lemma monitor_ok_iteration:
  "monitor_ok m \<Longrightarrow> monitor_iteration ids A m = Some flow \<Longrightarrow> monitor_ok (flow_end flow)"
  by (rule monitor_iteration_cases)

text \<open>A source none of whose calls panics or hangs.\<close>

definition total_source :: "'s acquisition_ops \<Rightarrow> bool" where
  "total_source A \<longleftrightarrow> (\<forall>src. acq_subscribe A src \<noteq> None) \<and>
     (\<forall>attempt src. acq_inventory A attempt src \<noteq> None) \<and> (\<forall>d src. acq_wait A d src \<noteq> None)"

lemma monitor_iteration_total:
  assumes "agentx_ids ids subids" "total_source A" "monitor_ok m"
  shows "\<exists>flow. monitor_iteration ids A m = Some flow"
proof -
  have A: "acq_subscribe A src \<noteq> None" "acq_inventory A a src \<noteq> None" "acq_wait A d src \<noteq> None"
    for a d src using assms(2) unfolding total_source_def by blast+
  have ok: "state_ok (mon_state m)" using assms(3) by (simp add: monitor_ok_def)
  obtain t0 src0 where n0: "acq_now A (mon_source m) = (t0, src0)" by (cases "acq_now A (mon_source m)")
  obtain s src where sub: "subscription_phase A t0 (mon_state m) src0 = Some (s, src)"
    using subscription_phase_total [OF ok A(1)] by blast
  obtain t src1 where n1: "acq_now A src = (t, src1)" by (cases "acq_now A src")
  have s: "state_ok s" using subscription_phase_ok [OF sub ok] by blast
  obtain m' where "acquisition_phase ids A s (mon_cell m) src1 = Some m'"
    using acquisition_phase_total [OF assms(1) state_ok_delays [OF s] A(2)] by blast
  moreover obtain flow where "wait_phase A t s (mon_cell m) src1 = Some flow"
    using wait_phase_total [OF s A(3)] by blast
  ultimately show ?thesis by (simp add: monitor_iteration_def n0 sub n1)
qed

text \<open>
  An iteration in which an acquisition is due and succeeds. The clock is read before the
  subscription and after it.
\<close>

lemma monitor_iteration_publishes:
  assumes "agentx_ids ids subids" "monitor_ok m" "retry_ready (mon_state m) t0"
    and clock: "acq_now A (mon_source m) = (t0, src0)" "acq_now A src1 = (t1, src2)" "t0 \<le> t1"
    and sub: "if subscribed (mon_state m) then src1 = src0 \<and> acquisition_ready (mon_state m) t1
      else acq_subscribe A src0 = Some (Inr (), src1)"
    and iv: "acq_inventory A (Attempt (continuity (mon_state m))) src2 = Some (Inr iv, src3)"
      "acceptable (mon_state m) iv"
  obtains m' mib where "monitor_iteration ids A m = Some (Continue m')" "mon_cell m' = Some mib"
    "serves ids subids mib (table_rows (topology_of (inv_links iv)))"
    "subscribed (mon_state m')" "retry_not_before (mon_state m') = None"
    "failure_delay (mon_state m') = INITIAL_DELAY"
    "last_success (mon_state m') = Some (fst (acq_now A src3))"
proof -
  let ?s = "if subscribed (mon_state m) then mon_state m
    else (mon_state m)\<lparr> subscribed := True, needs_inventory := True \<rparr>"
  have ok: "delays_ok ?s" "state_ok (mon_state m)"
    using assms(2) by (auto simp: monitor_ok_def state_ok_def delays_ok_def)
  have phase1: "subscription_phase A t0 (mon_state m) src0 = Some (?s, src1)"
    using sub assms(3) by (auto simp: subscription_phase_def split: if_splits)
  have ready: "subscribed ?s \<and> acquisition_ready ?s t1"
    using sub assms(3) clock(3)
    by (auto simp: acquisition_ready_def retry_ready_def split: if_splits option.splits)
  obtain s1 where s1: "start_acquisition ?s = Some s1" "delays_ok s1" "subscribed s1"
      "continuity s1 = continuity (mon_state m)"
    using start_acquisition_ok [OF ok(1)] ready by auto
  then have acc: "acceptable s1 iv" using iv(2) by (simp add: acceptable_def)
  obtain t src4 where now: "acq_now A src3 = (t, src4)" by (cases "acq_now A src3")
  obtain mib where mib: "from_topology ids (topology_of (inv_links iv)) = Some mib"
      "serves ids subids mib (table_rows (topology_of (inv_links iv)))"
    using agentx_ids.from_rows_serves [OF assms(1), of "topology_rows (topology_of (inv_links iv))"]
    by (auto simp: from_topology_def set_topology_rows)
  show thesis
  proof (rule that)
    show "monitor_iteration ids A m = Some (Continue
       \<lparr> mon_state = (snd (record_batch (inv_events iv) s1))\<lparr> retry_not_before := None,
           failure_delay := INITIAL_DELAY, last_success := Some t \<rparr>,
         mon_cell = Some mib, mon_source = src4 \<rparr>)"
      using ready
      by (simp add: monitor_iteration_def clock phase1 acquisition_phase_def s1 iv(1) now mib(1)
          accept_inventory_accepts [OF acc] publish_def del: if_split cong: if_cong)
  qed (use s1 mib now in simp_all)
qed

section \<open>A scripted source\<close>

text \<open>
  A source that follows a script, after the test double \<open>Controlled\<close> of the unit tests: the
  outcomes of its subscriptions (success when the list is exhausted), its inventories (a
  failure then) and the times of the link changes to come (shutdown then).
\<close>

datatype script_step = Complete "ObservedLink list" | OrdinaryFailure | ContinuityLoss

record script =
  sc_now :: duration
  sc_subscriptions :: "bool list"
  sc_inventories :: "script_step list"
  sc_changes :: "duration list"

definition script_subscribe :: "script \<Rightarrow> (unit io_result \<times> script) option" where
  "script_subscribe src = Some (case sc_subscriptions src of
     [] \<Rightarrow> (Inr (), src)
   | ok # rest \<Rightarrow>
       (if ok then Inr () else Inl (error_other ''scripted subscription failure''),
        src\<lparr> sc_subscriptions := rest \<rparr>))"

definition script_inventory ::
    "Attempt \<Rightarrow> script \<Rightarrow> ((AcquisitionError + Inventory) \<times> script) option" where
  "script_inventory attempt src = Some (case sc_inventories src of
     [] \<Rightarrow> (Inl (Ordinary (error_other ''script exhausted'') no_events), src)
   | step # rest \<Rightarrow>
       (case step of
          Complete links \<Rightarrow>
            Inr \<lparr> inv_attempt = attempt, inv_links = links, inv_events = no_events \<rparr>
        | OrdinaryFailure \<Rightarrow> Inl (Ordinary (error_other ''scripted inventory failure'') no_events)
        | ContinuityLoss \<Rightarrow> Inl (Lost (error_other ''scripted continuity loss'') no_events),
        src\<lparr> sc_inventories := rest \<rparr>))"

definition script_wait :: "duration \<Rightarrow> script \<Rightarrow> (WaitOutcome io_result \<times> script) option" where
  "script_wait timeout src = Some (case sc_changes src of
     [] \<Rightarrow> (Inr Shutdown, src)
   | at # rest \<Rightarrow>
       (if sc_now src + timeout < at then (Inr Deadline, src\<lparr> sc_now := sc_now src + timeout \<rparr>)
        else (Inr (LinkChanged at), src\<lparr> sc_now := max at (sc_now src), sc_changes := rest \<rparr>)))"

definition script_ops :: "script acquisition_ops" where
  "script_ops = \<lparr> acq_now = \<lambda>src. (sc_now src, src), acq_subscribe = script_subscribe,
     acq_inventory = script_inventory, acq_wait = script_wait \<rparr>"

lemma script_total: "total_source script_ops"
  by (simp add: total_source_def script_ops_def script_subscribe_def script_inventory_def script_wait_def)

section \<open>The monitor never panics\<close>

lemma monitor_run_total:
  assumes "agentx_ids ids subids" "total_source A"
  shows "\<exists>flow. monitor_run ids A n (monitor_start period publication src) = Some flow \<and>
    monitor_ok (flow_end flow)"
proof -
  have "\<exists>flow. monitor_run ids A n m = Some flow \<and> monitor_ok (flow_end flow)" if "monitor_ok m" for m
    using that
  proof (induction n arbitrary: m)
    case (Suc n)
    obtain flow where it: "monitor_iteration ids A m = Some flow"
      using monitor_iteration_total [OF assms Suc.prems] by blast
    have "monitor_ok (flow_end flow)" by (rule monitor_ok_iteration [OF Suc.prems it])
    with it Suc.IH show ?case by (cases flow) auto
  qed simp
  then show ?thesis by simp
qed

text \<open>
  C19. The monitor never panics: over a source whose calls return, any number of iterations
  from the start ends in a state that satisfies the scheduling invariant (delays of the
  back-off sequence, a retry only with an inventory due, no idle state without a subscription
  and a successful inventory), with a table published only under a subscription.
\<close>

theorem monitor_never_panics:
  assumes "agentx_ids ids subids" "total_source A"
  shows "\<exists>flow. monitor_run ids A n (monitor_start period publication src) = Some flow \<and>
    monitor_ok (flow_end flow)"
  by (rule monitor_run_total [OF assms])

lemma monitor_never_panics_witness:
  "\<exists>flow. monitor_run rfc_ids script_ops 5 (monitor_start (from_secs 300) publication
      \<lparr> sc_now = 0, sc_subscriptions = [False], sc_inventories = [ContinuityLoss, Complete []],
        sc_changes = [from_secs 7] \<rparr>) = Some flow \<and> monitor_ok (flow_end flow)"
  by (rule monitor_never_panics [OF rfc.agentx_ids_axioms script_total])

section \<open>What may happen to the published table\<close>

text \<open>
  C17. One iteration changes the published table in two ways only: it withdraws it, and then the
  continuity generation advances and the subscription is gone, or it replaces it by the table
  of a coherent inventory that the source returned for an attempt of the current generation.
\<close>

theorem publication_changes:
  assumes "monitor_ok m" "monitor_iteration ids A m = Some flow"
    and "snapshot (mon_cell (flow_end flow)) \<noteq> snapshot (mon_cell m)"
  shows "(snapshot (mon_cell (flow_end flow)) = None \<and>
      continuity (mon_state (flow_end flow)) = continuity (mon_state m) + 1 \<and>
      \<not> subscribed (mon_state (flow_end flow))) \<or>
    (\<exists>src src' iv.
      acq_inventory A (Attempt (continuity (mon_state m))) src = Some (Inr iv, src') \<and>
      attempt_continuity (inv_attempt iv) = continuity (mon_state m) \<and> coherent (inv_links iv) \<and>
      from_topology ids (topology_of (inv_links iv)) = snapshot (mon_cell (flow_end flow)) \<and>
      continuity (mon_state (flow_end flow)) = continuity (mon_state m) \<and>
      subscribed (mon_state (flow_end flow)))"
  using assms(2,1)
proof (cases rule: monitor_iteration_cases)
  case (published src src1 iv)
  then show ?thesis unfolding snapshot_def by blast
next
  case kept
  with assms(3) show ?thesis by (simp add: snapshot_def)
next
  case withdrawn
  then show ?thesis by (simp add: snapshot_def)
qed

text \<open>The scenario of the witnesses: a host with one link, and a source that lists it once.\<close>

definition boot :: "(rfc_id mib, script) monitor" where
  "boot = monitor_start (from_secs 300) publication
     \<lparr> sc_now = 0, sc_subscriptions = [], sc_inventories = [Complete [plain 1 ''lo'']],
       sc_changes = [] \<rparr>"

lemma boot_ok [simp]: "monitor_ok boot"
  by (simp add: boot_def)

lemma one_link_coherent: "coherent [plain 1 ''lo'']"
proof -
  have "from_observed [plain 1 ''lo''] = Inr \<lparr> interfaces = [1], relationships = [] \<rparr>"
    by code_simp
  then show ?thesis by (simp add: from_observed_iff)
qed

lemma boot_publishes:
  obtains m where "monitor_iteration rfc_ids script_ops boot = Some (Continue m)"
    "mon_cell m \<noteq> None" "mon_cell boot = None" "continuity (mon_state boot) = 0"
proof -
  let ?iv = "\<lparr> inv_attempt = Attempt 0, inv_links = [plain 1 ''lo''], inv_events = no_events \<rparr>"
  have acc: "acceptable (mon_state boot) ?iv"
    by (simp add: one_link_coherent acceptable_def batch_ok_def no_events_def boot_def monitor_start_def new_state_def)
  show thesis
    by (rule monitor_iteration_publishes [OF rfc.agentx_ids_axioms boot_ok, of 0 script_ops
          "mon_source boot" "mon_source boot" 0 "mon_source boot" ?iv
          "(mon_source boot)\<lparr> sc_inventories := [] \<rparr>"])
      (use acc that in \<open>auto simp: boot_def monitor_start_def new_state_def retry_ready_def
         script_ops_def script_subscribe_def script_inventory_def publication_def\<close>)
qed

lemma publication_changes_witness:
  "\<exists>m src src' iv. monitor_iteration rfc_ids script_ops boot = Some (Continue m) \<and>
     snapshot (mon_cell m) \<noteq> snapshot (mon_cell boot) \<and>
     acq_inventory script_ops (Attempt 0) src = Some (Inr iv, src') \<and>
     from_topology rfc_ids (topology_of (inv_links iv)) = snapshot (mon_cell m)"
proof -
  obtain m where m: "monitor_iteration rfc_ids script_ops boot = Some (Continue m)"
      "mon_cell m \<noteq> None" "mon_cell boot = None" "continuity (mon_state boot) = 0"
    by (rule boot_publishes)
  then have change: "snapshot (mon_cell (flow_end (Continue m))) \<noteq> snapshot (mon_cell boot)"
    by (simp add: snapshot_def)
  from publication_changes [OF boot_ok m(1) change]
  obtain src src' iv where "acq_inventory script_ops (Attempt 0) src = Some (Inr iv, src')"
      "from_topology rfc_ids (topology_of (inv_links iv)) = snapshot (mon_cell m)"
    using m by (auto simp: snapshot_def)
  with m(1) change show ?thesis by (metis flow_end.simps(1))
qed

section \<open>The service a reader sees\<close>

text \<open>
  What the monitor promises its readers, without scheduling: the service is attached to the
  notifications of one continuity generation or detached, and it serves at most one table.
  It serves tables of coherent inventories only while attached, and whenever continuity is
  lost it drops the table and begins a new generation.
\<close>

type_synonym 'm service = "u64 \<times> bool \<times> 'm option"

inductive service_step :: "'id id_ops \<Rightarrow> 'id mib service \<Rightarrow> 'id mib service \<Rightarrow> bool"
  for ids where
  attach: "service_step ids (g, False, None) (g, True, None)"
| serve: "coherent links \<Longrightarrow> from_topology ids (topology_of links) = Some mib \<Longrightarrow>
    service_step ids (g, True, c) (g, True, Some mib)"
| detach: "service_step ids (g, attached, c) (g + 1, False, None)"

inductive_cases service_step_detached: "service_step ids (g, False, c) v"

definition service :: "('m, 's) monitor \<Rightarrow> 'm service" where
  "service m = (continuity (mon_state m), subscribed (mon_state m), mon_cell m)"

lemma iteration_serves:
  assumes "monitor_ok m" "monitor_iteration ids A m = Some flow"
  shows "\<exists>n \<le> 2. (service_step ids ^^ n) (service m) (service (flow_end flow))"
proof -
  let ?g = "continuity (mon_state m)"
  have detached: "mon_cell m = None" if "\<not> subscribed (mon_state m)"
    using assms(1) that by (auto simp: monitor_ok_def)
  have to_attached: "\<exists>n \<le> 1. (service_step ids ^^ n) (service m) (?g, True, mon_cell m)"
  proof (cases "subscribed (mon_state m)")
    case True
    then show ?thesis by (intro exI [of _ 0]) (simp add: service_def)
  next
    case False
    then show ?thesis
      using detached by (intro exI [of _ 1]) (simp add: service_def service_step.attach eq_OO)
  qed
  from assms(2,1) show ?thesis
  proof (cases rule: monitor_iteration_cases)
    case (published src src1 iv)
    then obtain mib where "mon_cell (flow_end flow) = Some mib" by auto
    with published have "service_step ids (?g, True, mon_cell m) (service (flow_end flow))"
      by (auto simp: service_def intro: service_step.serve)
    moreover obtain n where "n \<le> 1" "(service_step ids ^^ n) (service m) (?g, True, mon_cell m)"
      using to_attached by blast
    ultimately show ?thesis by (intro exI [of _ "Suc n"]) (auto intro: relpowp_Suc_I)
  next
    case kept
    show ?thesis
    proof (cases "subscribed (mon_state (flow_end flow)) = subscribed (mon_state m)")
      case True
      with kept show ?thesis by (intro exI [of _ 0]) (simp add: service_def)
    next
      case False
      with kept have "service (flow_end flow) = (?g, True, mon_cell m)" by (auto simp: service_def)
      moreover obtain n where "n \<le> 1" "(service_step ids ^^ n) (service m) (?g, True, mon_cell m)"
        using to_attached by blast
      ultimately show ?thesis by (intro exI [of _ n]) simp
    qed
  next
    case withdrawn
    then have "service_step ids (service m) (service (flow_end flow))"
      by (simp add: service_def service_step.detach)
    then show ?thesis by (intro exI [of _ 1]) (simp add: eq_OO)
  qed
qed

text \<open>
  C18. The loop refines the service: whatever an iteration does to the generation, the
  subscription and the published table is a sequence of at most two service steps (an
  iteration may subscribe and publish).
\<close>

theorem monitor_refines_service:
  assumes "monitor_ok m" "monitor_iteration ids A m = Some flow"
  shows "\<exists>n \<le> 2. (service_step ids ^^ n) (service m) (service (flow_end flow))"
  by (rule iteration_serves [OF assms])

lemma monitor_refines_service_witness:
  "\<exists>m. monitor_iteration rfc_ids script_ops boot = Some (Continue m) \<and>
     (\<exists>n \<le> 2. (service_step rfc_ids ^^ n) (service boot) (service m))"
proof -
  obtain m where m: "monitor_iteration rfc_ids script_ops boot = Some (Continue m)"
    by (rule boot_publishes)
  from monitor_refines_service [OF boot_ok m] m show ?thesis by simp
qed

lemma monitor_run_published:
  assumes "agentx_ids ids subids"
    and "monitor_run ids A n (monitor_start period publication src) = Some flow"
    and "snapshot (mon_cell (flow_end flow)) = Some mib"
  shows "\<exists>iv src1 src2.
    acq_inventory A (Attempt (continuity (mon_state (flow_end flow)))) src1 = Some (Inr iv, src2) \<and>
    coherent (inv_links iv) \<and> serves ids subids mib (table_rows (topology_of (inv_links iv))) \<and>
    subscribed (mon_state (flow_end flow))"
proof -
  let ?from = "\<lambda>s iv. \<exists>src1 src2. acq_inventory A (Attempt (continuity s)) src1 = Some (Inr iv, src2)"
  let ?P = "\<lambda>m. monitor_ok m \<and> (\<forall>mib. mon_cell m = Some mib \<longrightarrow>
    (\<exists>iv. ?from (mon_state m) iv \<and> coherent (inv_links iv) \<and>
       from_topology ids (topology_of (inv_links iv)) = Some mib))"
  from assms(2) have "?P (flow_end flow)"
  proof (rule monitor_run_preserves [where P = ?P])
    show "?P (monitor_start period publication src)"
      by (auto simp: monitor_start_def publication_def monitor_ok_def)
  next
    fix m flow assume m: "?P m" and it: "monitor_iteration ids A m = Some flow"
    from it conjunct1 [OF m] show "?P (flow_end flow)"
    proof (cases rule: monitor_iteration_cases)
      case (published src src1 iv)
      then show ?thesis by (intro conjI allI impI exI [of _ iv]) auto
    qed (use m in simp_all)
  qed
  then obtain iv src1 src2 where iv: "coherent (inv_links iv)"
      "from_topology ids (topology_of (inv_links iv)) = Some mib"
      "acq_inventory A (Attempt (continuity (mon_state (flow_end flow)))) src1 = Some (Inr iv, src2)"
      and "monitor_ok (flow_end flow)"
    using assms(3) unfolding snapshot_def by blast
  then have "subscribed (mon_state (flow_end flow))"
    using assms(3) by (auto simp: monitor_ok_def snapshot_def)
  moreover have "\<exists>m. from_topology ids t = Some m \<and> serves ids subids m (table_rows t)" for t
    using agentx_ids.from_rows_serves [OF assms(1), of "topology_rows t"]
    by (metis from_topology_def set_topology_rows)
  ultimately show ?thesis using iv by (metis option.inject)
qed

text \<open>
  C16. At every moment of a run from the start, a reader finds no table, or the table of a
  coherent inventory that the source returned for an attempt of the current continuity
  generation: it serves exactly the rows of that inventory's stack, and the monitor holds a
  subscription.
\<close>

theorem published_table_coherent:
  assumes "agentx_ids ids subids"
    and "monitor_run ids A n (monitor_start period publication src) = Some flow"
    and "snapshot (mon_cell (flow_end flow)) = Some mib"
  shows "\<exists>iv src1 src2.
    acq_inventory A (Attempt (continuity (mon_state (flow_end flow)))) src1 = Some (Inr iv, src2) \<and>
    coherent (inv_links iv) \<and> serves ids subids mib (table_rows (topology_of (inv_links iv))) \<and>
    subscribed (mon_state (flow_end flow))"
  by (rule monitor_run_published [OF assms])

lemma published_table_coherent_witness:
  "\<exists>m mib links. monitor_run rfc_ids script_ops 1 boot = Some (Continue m) \<and>
     snapshot (mon_cell m) = Some mib \<and> coherent links \<and>
     serves rfc_ids rfc_subids mib (table_rows (topology_of links))"
proof -
  obtain m where m: "monitor_iteration rfc_ids script_ops boot = Some (Continue m)"
      "mon_cell m \<noteq> None"
    by (rule boot_publishes)
  then obtain mib where mib: "snapshot (mon_cell m) = Some mib" by (auto simp: snapshot_def)
  have run: "monitor_run rfc_ids script_ops 1 boot = Some (Continue m)" using m by simp
  with published_table_coherent [OF rfc.agentx_ids_axioms run [unfolded boot_def], of mib] mib
  show ?thesis by auto
qed

section \<open>When the monitor acts\<close>

text \<open>What is due at a time: an inventory under a subscription, else a subscription.\<close>

definition due :: "State \<Rightarrow> duration \<Rightarrow> bool" where
  "due s t \<longleftrightarrow> (if subscribed s then acquisition_ready s t else retry_ready s t)"

lemma due_exact:
  assumes "state_ok s"
  shows "due s (t + d) \<longleftrightarrow> saturating_sub (next_deadline s t) t \<le> d"
proof (cases "retry_not_before s")
  case (Some deadline)
  then have "needs_inventory s" using assms by (auto simp: state_ok_def)
  then show ?thesis
    by (auto simp: due_def acquisition_ready_def retry_ready_def next_deadline_def Some
        saturating_sub_def)
next
  case None
  show ?thesis
  proof (cases "subscribed s \<and> \<not> needs_inventory s")
    case True
    with assms obtain success where success: "last_success s = Some success"
      by (auto simp: state_ok_def)
    have "min duration_max (saturating_add success (reconcile s)) = saturating_add success (reconcile s)"
      by (simp add: min_absorb2)
    then show ?thesis
      using True None
      by (cases "event_deadline s")
        (auto simp: due_def acquisition_ready_def retry_ready_def next_deadline_def success
          saturating_sub_def Let_def min_le_iff_disj)
  next
    case False
    then show ?thesis
      using None by (auto simp: due_def acquisition_ready_def retry_ready_def next_deadline_def
          saturating_sub_def)
  qed
qed

text \<open>
  C21. The timeout of a wait is exact: after a further delay something is due if and only if the
  timeout has elapsed. The monitor neither oversleeps a retry, an event deadline or a
  reconciliation, nor wakes up before there is anything to do.
\<close>

theorem wait_timeout_exact:
  assumes "state_ok s"
  shows "due s (t + d) \<longleftrightarrow> saturating_sub (next_deadline s t) t \<le> d"
  by (rule due_exact [OF assms])

lemma wait_timeout_exact_witness:
  "\<not> due (the (fail 5 (new_state (from_secs 300)))) (5 + 999999999) \<and>
   due (the (fail 5 (new_state (from_secs 300)))) (5 + 1000000000)"
proof -
  let ?s = "the (fail 5 (new_state (from_secs 300)))"
  have "fail 5 (new_state (from_secs 300)) = Some ?s" "state_ok ?s"
    using fail_ok [OF state_ok_delays [OF state_ok_new], of 5 "from_secs 300"] by auto
  moreover have "saturating_sub (next_deadline ?s 5) 5 = 1000000000"
    by (subst fail_at [of _ 0])
      (simp_all add: new_state_def backoff_0 next_deadline_def backoff_def duration_defs)
  ultimately show ?thesis
    using wait_timeout_exact [of ?s 5 999999999] wait_timeout_exact [of ?s 5 1000000000] by simp
qed

text \<open>
  While a retry is pending the monitor only waits: an iteration whose clock readings are
  before the retry deadline neither subscribes nor asks for an inventory.
\<close>

theorem backoff_only_waits:
  assumes "retry_not_before (mon_state m) = Some deadline"
    and "acq_now A (mon_source m) = (t0, src0)" "acq_now A src0 = (t1, src1)"
    and "t0 < deadline" "t1 < deadline"
  shows "monitor_iteration ids A m = wait_phase A t1 (mon_state m) (mon_cell m) src1"
  using assms
  by (simp add: monitor_iteration_def subscription_phase_def retry_ready_def acquisition_ready_def)

lemma backoff_only_waits_witness:
  "let m = boot\<lparr> mon_state := (mon_state boot)\<lparr> retry_not_before := Some (from_secs 1) \<rparr> \<rparr>
   in monitor_iteration rfc_ids script_ops m =
        wait_phase script_ops 0 (mon_state m) (mon_cell m) (mon_source m)"
proof -
  let ?m = "boot\<lparr> mon_state := (mon_state boot)\<lparr> retry_not_before := Some (from_secs 1) \<rparr> \<rparr>"
  have "monitor_iteration rfc_ids script_ops ?m =
      wait_phase script_ops 0 (mon_state ?m) (mon_cell ?m) (mon_source ?m)"
    by (rule backoff_only_waits [of _ "from_secs 1" _ 0 "mon_source boot"])
      (simp_all add: script_ops_def boot_def monitor_start_def from_secs_def nanos_per_sec_def)
  then show ?thesis by (simp add: Let_def)
qed

section \<open>Back-off and coalescing\<close>

text \<open>Consecutive failures, at the times of the list.\<close>

fun fails :: "duration list \<Rightarrow> State \<Rightarrow> State option" where
  "fails [] s = Some s"
| "fails (t # ts) s = do { s \<leftarrow> fail t s; fails ts s }"

lemma fails_append: "fails (ts @ us) s = do { s \<leftarrow> fails ts s; fails us s }"
  by (induction ts arbitrary: s) (auto split: bind_splits)

lemma fails_delay:
  assumes "failure_delay s = backoff n"
  shows "\<exists>s'. fails ts s = Some s' \<and> failure_delay s' = backoff (n + length ts)"
  using assms
proof (induction ts arbitrary: s n)
  case (Cons t ts)
  have "\<exists>s'. fails ts (s\<lparr> needs_inventory := True, retry_not_before := Some (saturating_add t (backoff n)),
      failure_delay := backoff (Suc n) \<rparr>) = Some s' \<and> failure_delay s' = backoff (Suc n + length ts)"
    by (rule Cons.IH) simp
  then show ?case by (simp add: fail_at [OF Cons.prems])
qed simp

text \<open>
  C22. Retries back off exponentially: the retry after the last of \<open>n + 1\<close> consecutive failures
  is not before \<open>min (2 ^ n) 30\<close> seconds after it, and no failure panics.
\<close>

theorem failure_backoff:
  assumes "failure_delay s = INITIAL_DELAY"
  shows "\<exists>s'. fails (ts @ [t]) s = Some s' \<and> needs_inventory s' \<and>
    retry_not_before s' = Some (saturating_add t (from_secs (min 30 (2 ^ length ts))))"
proof -
  obtain s' where s': "fails ts s = Some s'" "failure_delay s' = backoff (length ts)"
    using fails_delay [of s 0 ts] assms by (auto simp: backoff_0)
  show ?thesis
    by (simp add: fails_append s'(1) fail_at [OF s'(2)]) (simp add: backoff_def)
qed

lemma failure_backoff_witness:
  "\<exists>s'. fails ([0, 2, 5, 10, 20] @ [40]) (new_state (from_secs 300)) = Some s' \<and>
     retry_not_before s' = Some (saturating_add 40 (from_secs 30))"
proof -
  have "failure_delay (new_state (from_secs 300)) = INITIAL_DELAY" by (simp add: new_state_def)
  from failure_backoff [OF this, of "[0, 2, 5, 10, 20]" 40] show ?thesis
    by (simp del: fails.simps append.simps) blast
qed

text \<open>
  A storm of link changes: bursts of events, each followed by the acquisition it asked for.
  No two events in a row are a minute apart.
\<close>

fun storm :: "(duration \<times> duration list) list \<Rightarrow> State \<Rightarrow> State option" where
  "storm [] s = Some s"
| "storm ((at, ats) # bursts) s =
     do { s \<leftarrow> start_acquisition (fold record_event (at # ats) s); storm bursts s }"

definition storm_events :: "(duration \<times> duration list) list \<Rightarrow> duration list" where
  "storm_events bursts = concat (map (\<lambda>(at, ats). at # ats) bursts)"

fun dense :: "duration list \<Rightarrow> bool" where
  "dense (a # b # ts) \<longleftrightarrow> b - a < EVENT_RESET \<and> dense (b # ts)"
| "dense _ \<longleftrightarrow> True"

text \<open>A pending deadline is not postponed, and a close event does not touch the delay.\<close>

lemma record_event_pending [simp]:
  "event_deadline s = Some d \<Longrightarrow> event_deadline (record_event at s) = Some d"
  by (simp add: record_event_def Let_def)

lemma record_event_near:
  "last_event s = Some prev \<Longrightarrow> at - prev < EVENT_RESET \<Longrightarrow> event_delay (record_event at s) = event_delay s"
  by (simp add: record_event_def Let_def saturating_sub_def split: option.split)

lemma record_event_first:
  "event_deadline s = None \<Longrightarrow>
     event_deadline (record_event at s) = Some (saturating_add at (event_delay (record_event at s)))"
  by (simp add: record_event_def Let_def)

lemma fold_record_pending:
  "event_deadline s = Some d \<Longrightarrow> event_deadline (fold record_event ats s) = Some d"
  by (induction ats arbitrary: s) auto

lemma fold_record_dense:
  "last_event s = Some prev \<Longrightarrow> dense (prev # ats) \<Longrightarrow>
     event_delay (fold record_event ats s) = event_delay s \<and>
     last_event (fold record_event ats s) = Some (last (prev # ats))"
proof (induction ats arbitrary: s prev)
  case (Cons at ats)
  then have "event_delay (fold record_event ats (record_event at s)) = event_delay (record_event at s) \<and>
      last_event (fold record_event ats (record_event at s)) = Some (last (at # ats))"
    by (intro Cons.IH) auto
  then show ?case using Cons.prems by (auto simp: record_event_near)
qed simp

lemma storm_delay:
  assumes "event_deadline s = None" "event_delay s = backoff n" "last_event s = Some prev"
    and "dense (prev # storm_events bursts @ [at])"
  shows "\<exists>s'. storm bursts s = Some s' \<and> event_deadline s' = None \<and>
    event_delay s' = backoff (n + length bursts) \<and>
    (\<exists>prev'. last_event s' = Some prev' \<and> at - prev' < EVENT_RESET)"
  using assms
proof (induction bursts arbitrary: s n prev)
  case Nil
  then show ?case by (simp add: storm_events_def)
next
  case (Cons burst bursts)
  obtain a as where burst: "burst = (a, as)" by (cases burst)
  let ?s = "fold record_event (a # as) s"
  have split: "dense xs" "dense (last xs # ys)" if "dense (xs @ ys)" "xs \<noteq> []" for xs ys
    using that by (induction xs rule: dense.induct; cases ys; simp)+
  have d: "dense ((prev # a # as) @ storm_events bursts @ [at])"
    using Cons.prems(4) by (simp add: storm_events_def burst)
  then have in_burst: "dense (prev # a # as)" and rest: "dense (last (prev # a # as) # storm_events bursts @ [at])"
    using split [OF d] by auto
  have pending: "event_deadline ?s \<noteq> None"
    using record_event_first [OF Cons.prems(1), of a] by (simp add: fold_record_pending)
  have s: "event_delay ?s = backoff n" "last_event ?s = Some (last (prev # a # as))"
    using fold_record_dense [OF Cons.prems(3) in_burst] Cons.prems(2) by simp_all
  then obtain s1 where s1: "start_acquisition ?s = Some s1" "event_deadline s1 = None"
      "event_delay s1 = backoff (Suc n)" "last_event s1 = Some (last (prev # a # as))"
    using pending by (auto simp: start_acquisition_def next_delay_backoff)
  have "\<exists>s'. storm bursts s1 = Some s' \<and> event_deadline s' = None \<and>
      event_delay s' = backoff (Suc n + length bursts) \<and>
      (\<exists>prev'. last_event s' = Some prev' \<and> at - prev' < EVENT_RESET)"
    by (rule Cons.IH [OF s1(2-4) rest])
  then show ?case using s1(1) by (simp add: burst)
qed

text \<open>
  C23. A storm of link changes is coalesced and slowed down: with no two consecutive events a
  minute apart, the deadline that the first event after \<open>n\<close> acquisitions sets lies
  \<open>min (2 ^ n) 30\<close> seconds after it, and the events that follow before the acquisition starts
  do not postpone it.
\<close>

theorem storm_coalesced:
  assumes "event_deadline s = None" "event_delay s = INITIAL_DELAY" "last_event s = Some prev"
    and "dense (prev # storm_events bursts @ [at])"
  shows "\<exists>s'. storm bursts s = Some s' \<and>
    event_deadline (fold record_event (at # ats) s') =
      Some (saturating_add at (from_secs (min 30 (2 ^ length bursts))))"
proof -
  obtain s' prev' where s': "storm bursts s = Some s'" "event_deadline s' = None"
      "event_delay s' = backoff (length bursts)" "last_event s' = Some prev'" "at - prev' < EVENT_RESET"
    using storm_delay [of s 0 prev bursts at] assms by (auto simp: backoff_0)
  have "event_deadline (record_event at s') = Some (saturating_add at (backoff (length bursts)))"
    using record_event_first [OF s'(2)] record_event_near [OF s'(4,5)] s'(3) by simp
  then show ?thesis using s'(1) by (simp add: fold_record_pending backoff_def)
qed

lemma storm_coalesced_witness:
  "\<exists>s'. storm [(from_secs 1, [from_secs 2]), (from_secs 4, [])]
       ((new_state (from_secs 300))\<lparr> last_event := Some 0 \<rparr>) = Some s' \<and>
     event_deadline (fold record_event [from_secs 9, from_secs 10] s') =
       Some (saturating_add (from_secs 9) (from_secs 4))"
proof -
  let ?bursts = "[(from_secs 1, [from_secs 2]), (from_secs 4, [])]"
  have "dense (0 # storm_events ?bursts @ [from_secs 9])"
    by (simp add: storm_events_def EVENT_RESET_def from_secs_def nanos_per_sec_def)
  from storm_coalesced [OF _ _ _ this, of "(new_state (from_secs 300))\<lparr> last_event := Some 0 \<rparr>"
      "[from_secs 10]"]
  show ?thesis by (simp add: new_state_def del: storm.simps fold_simps)
qed

text \<open>
  An event that comes a minute or more after the previous one resets the delay to a second.
\<close>

lemma quiet_minute_resets:
  assumes "\<forall>prev. last_event s = Some prev \<longrightarrow> prev + EVENT_RESET \<le> at" "event_deadline s = None"
  shows "event_deadline (record_event at s) = Some (saturating_add at (from_secs 1))"
  using assms by (cases "last_event s")
    (auto simp: record_event_def saturating_sub_def INITIAL_DELAY_def)

lemma quiet_minute_resets_witness:
  "event_deadline (record_event (from_secs 61) ((new_state 0)\<lparr> last_event := Some (from_secs 1),
     event_delay := from_secs 30 \<rparr>)) = Some (saturating_add (from_secs 61) (from_secs 1))"
  by (rule quiet_minute_resets)
    (simp_all add: new_state_def EVENT_RESET_def from_secs_def nanos_per_sec_def)

section \<open>Recovery\<close>

text \<open>
  C20. The monitor recovers as soon as the source does: once the retry deadline has passed, an
  iteration in which the subscription (when it is missing) and the inventory succeed publishes
  the table of that inventory, clears the retry and resets the back-off.
\<close>

theorem monitor_recovers:
  assumes "agentx_ids ids subids" "monitor_ok m" "retry_ready (mon_state m) t0"
    and "acq_now A (mon_source m) = (t0, src0)" "acq_now A src1 = (t1, src2)" "t0 \<le> t1"
    and "if subscribed (mon_state m) then src1 = src0 \<and> acquisition_ready (mon_state m) t1
      else acq_subscribe A src0 = Some (Inr (), src1)"
    and "acq_inventory A (Attempt (continuity (mon_state m))) src2 = Some (Inr iv, src3)"
    and "inv_attempt iv = Attempt (continuity (mon_state m))" "batch_ok (inv_events iv)"
      "coherent (inv_links iv)"
  shows "\<exists>m' mib. monitor_iteration ids A m = Some (Continue m') \<and>
    snapshot (mon_cell m') = Some mib \<and>
    serves ids subids mib (table_rows (topology_of (inv_links iv))) \<and>
    subscribed (mon_state m') \<and> retry_not_before (mon_state m') = None \<and>
    failure_delay (mon_state m') = INITIAL_DELAY"
proof -
  have "acceptable (mon_state m) iv" using assms(9-11) by (simp add: acceptable_def)
  from monitor_iteration_publishes [OF assms(1-8) this] show ?thesis
    unfolding snapshot_def by blast
qed

lemma monitor_recovers_witness:
  "\<exists>m' mib. monitor_iteration rfc_ids script_ops boot = Some (Continue m') \<and>
     snapshot (mon_cell m') = Some mib \<and>
     serves rfc_ids rfc_subids mib (table_rows (topology_of [plain 1 ''lo'']))"
proof -
  let ?iv = "\<lparr> inv_attempt = Attempt 0, inv_links = [plain 1 ''lo''], inv_events = no_events \<rparr>"
  have *: "retry_ready (mon_state boot) 0" "acq_now script_ops (mon_source boot) = (0, mon_source boot)"
    "if subscribed (mon_state boot) then mon_source boot = mon_source boot \<and>
       acquisition_ready (mon_state boot) 0
     else acq_subscribe script_ops (mon_source boot) = Some (Inr (), mon_source boot)"
    "acq_inventory script_ops (Attempt (continuity (mon_state boot))) (mon_source boot) =
       Some (Inr ?iv, (mon_source boot)\<lparr> sc_inventories := [] \<rparr>)"
    "inv_attempt ?iv = Attempt (continuity (mon_state boot))" "batch_ok (inv_events ?iv)"
    by (simp_all add: boot_def monitor_start_def new_state_def retry_ready_def script_ops_def
        script_subscribe_def script_inventory_def batch_ok_def no_events_def)
  show ?thesis
    using monitor_recovers [OF rfc.agentx_ids_axioms boot_ok *(1,2,2) order_refl *(3-6)]
      one_link_coherent by auto
qed

section \<open>The contract of a source\<close>

text \<open>
  What the monitor relies on in a source: it is \<^emph>\<open>live\<close>, attached to link notifications, from a
  successful subscription until a call reports that continuity was lost, and at no other
  time; an inventory carries the attempt it was asked for; nothing asks a production monitor
  to stop.
\<close>

locale acquisition =
  fixes A :: "'s acquisition_ops" and live :: "'s \<Rightarrow> bool"
  assumes now_live: "live (snd (acq_now A src)) = live src"
    and subscribe_live: "acq_subscribe A src = Some (r, src') \<Longrightarrow> live src' \<longleftrightarrow> live src \<or> r = Inr ()"
    and inventory_live: "live src \<Longrightarrow> acq_inventory A a src = Some (r', src') \<Longrightarrow>
      live src' \<longleftrightarrow> \<not> is_lost r'"
    and inventory_attempt: "acq_inventory A a src = Some (Inr iv, src') \<Longrightarrow> inv_attempt iv = a"
    and wait_live: "acq_wait A d src = Some (w, src') \<Longrightarrow> live src' \<longleftrightarrow> live src \<and> (\<exists>x. w = Inr x)"
    and wait_runs_on: "acq_wait A d src = Some (w, src') \<Longrightarrow> w \<noteq> Inr Shutdown"

text \<open>How an acquisition leaves the source.\<close>

lemma acquisition_phase_source:
  assumes "acquisition_phase ids A s c src = Some m" "delays_ok s" "subscribed s"
  obtains r src1 where "acq_inventory A (Attempt (continuity s)) src = Some (r, src1)"
    "subscribed (mon_state m) \<longleftrightarrow> \<not> is_lost r"
    "mon_source m = snd (acq_now A src1) \<or> mon_source m = snd (acq_now A (snd (acq_now A src1)))"
proof -
  obtain s1 r src1 where s1: "start_acquisition s = Some s1" "delays_ok s1" "continuity s1 = continuity s"
      and sub: "subscribed s1" and r: "acq_inventory A (Attempt (continuity s)) src = Some (r, src1)"
    by (rule acquisition_phase_started [OF assms])
  from s1 r show thesis
  proof (cases rule: acquisition_phase_split [where ids = ids and c = c])
    case (accepted iv t)
    with assms(1) show thesis using sub by (intro that [OF r]) (auto split: bind_splits)
  next
    case (failed s2 t src2)
    obtain s3 where "fail t s2 = Some s3" "subscribed s3" using fail_ok [OF failed(2), of t] failed(3) sub by auto
    with failed assms(1) show thesis by (intro that [OF r]) auto
  next
    case (lost s2 t)
    obtain s3 where "lose_continuity t s2 c = Some (s3, None)" "\<not> subscribed s3"
      using lose_continuity_ok [OF lost(2), of t c] by auto
    with lost assms(1) show thesis by (intro that [OF r]) auto
  qed
qed

text \<open>
  What an attempt leads to, by its result: a loss withdraws the table, an acceptable inventory
  replaces it, and after anything else the table is kept and a retry is scheduled, between one
  second and thirty after the moment \<open>t\<close> at which the failure was noticed.
\<close>

definition retried :: "'s acquisition_ops \<Rightarrow> 's \<Rightarrow> ('m, 's) monitor \<Rightarrow> bool" where
  "retried A src m \<longleftrightarrow> subscribed (mon_state m) \<and> needs_inventory (mon_state m) \<and>
     (\<exists>t delay. (acq_now A src = (t, mon_source m) \<or> acq_now A (snd (acq_now A src)) = (t, mon_source m)) \<and>
        retry_not_before (mon_state m) = Some (saturating_add t delay) \<and>
        from_secs 1 \<le> delay \<and> delay \<le> from_secs 30)"

lemma acquisition_phase_attempt:
  assumes "acquisition_phase ids A s c src = Some m" "delays_ok s" "subscribed s"
  obtains r src1 where "acq_inventory A (Attempt (continuity s)) src = Some (r, src1)"
    "is_lost r \<Longrightarrow> mon_cell m = None \<and> \<not> subscribed (mon_state m) \<and> continuity (mon_state m) = continuity s + 1"
    "\<And>iv. r = Inr iv \<Longrightarrow> acceptable s iv \<Longrightarrow>
       \<exists>mib. from_topology ids (topology_of (inv_links iv)) = Some mib \<and> mon_cell m = Some mib"
    "\<not> is_lost r \<Longrightarrow> (\<And>iv. r = Inr iv \<Longrightarrow> \<not> acceptable s iv) \<Longrightarrow> mon_cell m = c \<and> retried A src1 m"
proof -
  obtain s1 r src1 where s1: "start_acquisition s = Some s1" "delays_ok s1" "continuity s1 = continuity s"
      and sub: "subscribed s1" and r: "acq_inventory A (Attempt (continuity s)) src = Some (r, src1)"
    by (rule acquisition_phase_started [OF assms])
  have same: "acceptable s1 iv = acceptable s iv" for iv using s1(3) by (simp add: acceptable_def)
  from s1 r show thesis
  proof (cases rule: acquisition_phase_split [where ids = ids and c = c])
    case (accepted iv t)
    with assms(1) show thesis by (intro that [OF r]) (auto simp: same split: bind_splits)
  next
    case (failed s2 t src2)
    obtain n where n: "failure_delay s2 = backoff n" using failed(2) by (auto simp: delays_ok_def)
    then have "mon_cell m = c" "retried A src1 m"
      using failed assms(1) sub backoff_bounds [of n] by (auto simp: retried_def fail_at)
    with failed show thesis by (intro that [OF r]) (auto simp: same)
  next
    case (lost s2 t)
    obtain s3 where "lose_continuity t s2 c = Some (s3, None)" "\<not> subscribed s3" "continuity s3 = continuity s + 1"
      using lose_continuity_ok [OF lost(2), of t c] lost(3) by auto
    with lost assms(1) show thesis by (intro that [OF r]) auto
  qed
qed

text \<open>The flag \<open>subscribed\<close> of the monitor tells whether the source is live.\<close>

definition attached :: "('s \<Rightarrow> bool) \<Rightarrow> State \<Rightarrow> 's \<Rightarrow> bool" where
  "attached live s src \<longleftrightarrow> (subscribed s \<longleftrightarrow> live src)"

context acquisition
begin

lemma subscription_attached:
  assumes "subscription_phase A t s src = Some (s', src')" "state_ok s" "attached live s src"
  shows "attached live s' src'"
  using assms(1,2)
proof (cases rule: subscription_phase_cases)
  case 1
  then show ?thesis using assms(3) by simp
next
  case 2
  then show ?thesis using subscribe_live by (simp add: attached_def)
next
  case (3 e src1)
  have "subscribed s' = subscribed s"
    using fail_ok [OF state_ok_delays [OF assms(2)], of "fst (acq_now A src1)"] 3(5) by auto
  then show ?thesis
    using assms(3) subscribe_live [OF 3(3)] by (simp add: attached_def now_live 3(4))
qed

lemma acquisition_attached:
  assumes "acquisition_phase ids A s c src = Some m" "delays_ok s" "subscribed s" "attached live s src"
  shows "attached live (mon_state m) (mon_source m)"
proof -
  obtain r src1 where r: "acq_inventory A (Attempt (continuity s)) src = Some (r, src1)"
    "subscribed (mon_state m) \<longleftrightarrow> \<not> is_lost r"
    "mon_source m = snd (acq_now A src1) \<or> mon_source m = snd (acq_now A (snd (acq_now A src1)))"
    by (rule acquisition_phase_source [OF assms(1-3)])
  then have "live (mon_source m) = live src1" by (auto simp: now_live)
  moreover have "live src1 \<longleftrightarrow> \<not> is_lost r"
    using inventory_live [OF _ r(1)] assms(3,4) by (simp add: attached_def)
  ultimately show ?thesis using r(2) by (simp add: attached_def)
qed

lemma wait_attached:
  assumes "wait_phase A t s c src = Some flow" "state_ok s" "attached live s src"
  shows "\<exists>m. flow = Continue m \<and> attached live (mon_state m) (mon_source m)"
proof -
  let ?timeout = "saturating_sub (next_deadline s t) t"
  obtain r src1 where r: "acq_wait A ?timeout src = Some (r, src1)"
    using assms(1) by (auto simp: wait_phase_def Let_def split: bind_splits)
  note live = wait_live [OF r]
  show ?thesis
  proof (cases r)
    case (Inl e)
    obtain t2 src2 where now: "acq_now A src1 = (t2, src2)" by (cases "acq_now A src1")
    obtain s2 where s2: "lose_continuity t2 s c = Some (s2, None)" "\<not> subscribed s2"
      using lose_continuity_ok [OF state_ok_delays [OF assms(2)], of t2 c] by auto
    have "\<not> live src2" using now_live [of src1] live by (simp add: Inl now)
    then show ?thesis using assms(1) s2 by (auto simp: wait_phase_def r Inl now attached_def)
  next
    case (Inr what)
    then show ?thesis
      using assms(1,3) live wait_runs_on [OF r]
      by (cases what) (auto simp: wait_phase_def r attached_def)
  qed
qed

lemma iteration_attached:
  assumes "monitor_iteration ids A m = Some flow" "monitor_ok m" "attached live (mon_state m) (mon_source m)"
  shows "\<exists>m'. flow = Continue m' \<and> monitor_ok m' \<and> attached live (mon_state m') (mon_source m')"
proof -
  have ok: "state_ok (mon_state m)" using assms(2) by (simp add: monitor_ok_def)
  from assms(1) obtain s src t src1 where it:
    "subscription_phase A (fst (acq_now A (mon_source m))) (mon_state m)
       (snd (acq_now A (mon_source m))) = Some (s, src)"
    "acq_now A src = (t, src1)"
    "if subscribed s \<and> acquisition_ready s t
     then \<exists>m'. acquisition_phase ids A s (mon_cell m) src1 = Some m' \<and> flow = Continue m'
     else wait_phase A t s (mon_cell m) src1 = Some flow"
    by (rule monitor_iteration_split)
  have "attached live s src"
    by (rule subscription_attached [OF it(1) ok])
      (use assms(3) in \<open>simp add: attached_def now_live\<close>)
  then have s: "attached live s src1" "state_ok s"
    using now_live [of src] it(2) subscription_phase_ok [OF it(1) ok] by (simp_all add: attached_def)
  have "\<exists>m'. flow = Continue m' \<and> attached live (mon_state m') (mon_source m')"
  proof (cases "subscribed s \<and> acquisition_ready s t")
    case True
    with it(3) s show ?thesis by (auto intro: acquisition_attached)
  next
    case False
    with it(3) s show ?thesis by (auto intro: wait_attached)
  qed
  then show ?thesis using monitor_ok_iteration [OF assms(2,1)] by auto
qed

lemma run_attached:
  assumes "\<not> live src" "monitor_run ids A n (monitor_start period publication src) = Some flow"
  shows "\<exists>m. flow = Continue m \<and> monitor_ok m \<and> (subscribed (mon_state m) \<longleftrightarrow> live (mon_source m))"
proof -
  have "\<exists>m'. flow = Continue m' \<and> monitor_ok m' \<and> attached live (mon_state m') (mon_source m')"
    if "monitor_run ids A n m = Some flow" "monitor_ok m" "attached live (mon_state m) (mon_source m)" for m
    using that
  proof (induction n arbitrary: m)
    case (Suc n)
    then obtain flow' where it: "monitor_iteration ids A m = Some flow'" by (auto split: option.splits)
    with iteration_attached [OF it Suc.prems(2,3)] Suc show ?case by auto
  qed auto
  from this [OF assms(2) monitor_ok_start] show ?thesis
    using assms(1) by (auto simp: attached_def monitor_start_def new_state_def)
qed

end

section \<open>Invariants of the source along a run\<close>

text \<open>
  A predicate on the source that every call keeps holds throughout a run: the monitor changes
  the source in no other way.
\<close>

locale source_invariant =
  fixes A :: "'s acquisition_ops" and I :: "'s \<Rightarrow> bool"
  assumes now_keeps: "I src \<Longrightarrow> I (snd (acq_now A src))"
    and subscribe_keeps: "I src \<Longrightarrow> acq_subscribe A src = Some (u, src') \<Longrightarrow> I src'"
    and inventory_keeps: "I src \<Longrightarrow> acq_inventory A a src = Some (r, src') \<Longrightarrow> I src'"
    and wait_keeps: "I src \<Longrightarrow> acq_wait A d src = Some (w, src') \<Longrightarrow> I src'"
begin

lemma now_keeps': "I src \<Longrightarrow> acq_now A src = (t, src') \<Longrightarrow> I src'"
  using now_keeps [of src] by simp

lemma subscription_keeps:
  assumes "subscription_phase A t s src = Some (s', src')" "state_ok s" "I src"
  shows "I src'"
  using assms(1,2) by (cases rule: subscription_phase_cases)
    (use assms(3) in \<open>auto intro: now_keeps subscribe_keeps\<close>)

lemma wait_phase_keeps:
  assumes "wait_phase A t s c src = Some flow" "I src"
  shows "I (mon_source (flow_end flow))"
proof -
  let ?timeout = "saturating_sub (next_deadline s t) t"
  obtain r src1 where r: "acq_wait A ?timeout src = Some (r, src1)"
    using assms(1) by (auto simp: wait_phase_def Let_def split: bind_splits)
  have I: "I src1" by (rule wait_keeps [OF assms(2) r])
  show ?thesis
  proof (cases r)
    case (Inl e)
    obtain t2 src2 where now: "acq_now A src1 = (t2, src2)" by (cases "acq_now A src1")
    show ?thesis
      using assms(1) now_keeps' [OF I now] by (auto simp: wait_phase_def r Inl now split: bind_splits)
  next
    case (Inr what)
    then show ?thesis using assms(1) I by (cases what) (auto simp: wait_phase_def r)
  qed
qed

lemma iteration_keeps:
  assumes "monitor_iteration ids A m = Some flow" "monitor_ok m" "I (mon_source m)"
  shows "I (mon_source (flow_end flow))"
proof -
  have ok: "state_ok (mon_state m)" using assms(2) by (simp add: monitor_ok_def)
  from assms(1) obtain s src t src1 where it:
    "subscription_phase A (fst (acq_now A (mon_source m))) (mon_state m)
       (snd (acq_now A (mon_source m))) = Some (s, src)"
    "acq_now A src = (t, src1)"
    "if subscribed s \<and> acquisition_ready s t
     then \<exists>m'. acquisition_phase ids A s (mon_cell m) src1 = Some m' \<and> flow = Continue m'
     else wait_phase A t s (mon_cell m) src1 = Some flow"
    by (rule monitor_iteration_split)
  have I: "I src1"
    using subscription_keeps [OF it(1) ok] now_keeps [OF assms(3)] now_keeps' [OF _ it(2)] by blast
  show ?thesis
  proof (cases "subscribed s \<and> acquisition_ready s t")
    case True
    with it(3) obtain m' where m': "acquisition_phase ids A s (mon_cell m) src1 = Some m'"
        "flow = Continue m'" by auto
    have "delays_ok s" using subscription_phase_ok [OF it(1) ok] by auto
    then obtain r src2 where "acq_inventory A (Attempt (continuity s)) src1 = Some (r, src2)"
        "mon_source m' = snd (acq_now A src2) \<or> mon_source m' = snd (acq_now A (snd (acq_now A src2)))"
      using acquisition_phase_source [OF m'(1)] True by blast
    then show ?thesis using m'(2) inventory_keeps [OF I] now_keeps by auto
  next
    case False
    then show ?thesis using it(3) wait_phase_keeps I by auto
  qed
qed

lemma run_keeps:
  assumes "monitor_run ids A n (monitor_start period publication src) = Some flow" "I src"
  shows "I (mon_source (flow_end flow))"
proof -
  have "monitor_ok (flow_end flow) \<and> I (mon_source (flow_end flow))"
    using assms(1)
    by (rule monitor_run_preserves)
      (use assms(2) monitor_ok_iteration iteration_keeps in
        \<open>auto simp: monitor_start_def monitor_ok_start [unfolded monitor_start_def]\<close>)
  then show ?thesis ..
qed

end

end
