(* ===== verification/Netlink_Codec.thy ===== *)
theory Netlink_Codec
  imports Link
begin

text \<open>
  The decoding half of \<open>src/netlink.rs\<close>: \<open>decode_datagram\<close> cuts a datagram into netlink
  messages, \<open>decode_link\<close> reads one link out of the attributes of a message, and
  \<open>consume_dump\<close> follows the answer to a dump request. The contents of one message are
  decoded by the crates \<open>netlink-packet-core\<close> and \<open>netlink-packet-route\<close>: their deserializer
  is an argument, and their public types have the constructors the program names.

  The specification: \<open>framed\<close> says how messages lie in a datagram, \<open>link_of\<close> what a link
  message describes, and \<open>dump_part\<close> which datagrams continue or complete a dump.
\<close>

section \<open>Messages of the netlink crates\<close>

datatype InfoKind =
    InfoBond | InfoBridge | InfoVlan | InfoMacVlan | InfoIpVlan | InfoMacVtap | InfoVxlanKind
  | InfoVeth | InfoOtherKind string

datatype InfoVxlan = VxlanLink u32 | VxlanOther

datatype InfoData = VxlanData "InfoVxlan list" | OtherData

datatype LinkInfo = KindInfo InfoKind | DataInfo InfoData | OtherInfo

datatype LinkAttribute =
    IfName string | Controller u32 | LowerLink u32 | LinkNetNsId i32
  | LinkInfos "LinkInfo list" | OtherAttribute

record LinkMessage =
  lm_index :: u32
  lm_attributes :: "LinkAttribute list"

datatype RouteNetlinkMessage =
  NewLink LinkMessage | DelLink LinkMessage | GetLink LinkMessage | OtherRoute

text \<open>
  Of an \<open>Error\<close> payload the program takes the \<open>std::io::Error\<close> it converts into, so that is
  what stands for it.
\<close>

datatype NetlinkPayload =
    Done i32 | ErrorPayload io_error | Noop | Overrun | InnerMessage RouteNetlinkMessage
  | OtherPayload

record NetlinkMessage =
  nl_flags :: u16
  nl_sequence :: u32
  nl_payload :: NetlinkPayload

definition NLM_F_REQUEST :: u16 where
  "NLM_F_REQUEST = 1"

definition NLM_F_DUMP_INTR :: u16 where
  "NLM_F_DUMP_INTR = 16"

definition NLM_F_DUMP :: u16 where
  "NLM_F_DUMP = 768"

text \<open>
  The crates, and the machine: \<open>NetlinkMessage::deserialize\<close> with the text of its errors,
  \<open>finalize\<close> and \<open>serialize\<close>, \<open>LinkMessage::default()\<close>, and the byte order of \<open>from_ne_bytes\<close>.
\<close>

record netlink_ops =
  nl_deserialize :: "u8 list \<Rightarrow> string + NetlinkMessage"
  nl_serialize :: "NetlinkMessage \<Rightarrow> u8 list"
  nl_default_link :: LinkMessage
  nl_order :: byte_order

section \<open>Errors\<close>

definition netlink_invalid :: "message \<Rightarrow> io_error" where
  "netlink_invalid text = IoError InvalidData text"

section \<open>Datagrams\<close>

definition NETLINK_HEADER_LENGTH :: nat where
  "NETLINK_HEADER_LENGTH = 16"

definition usize_max :: nat where
  "usize_max = 2 ^ 64 - 1"

definition checked_add :: "nat \<Rightarrow> nat \<Rightarrow> nat option" where
  "checked_add a b = (if a + b \<le> usize_max then Some (a + b) else None)"

text \<open>The length field of a header, and \<open>value & !3\<close>.\<close>

definition message_length :: "netlink_ops \<Rightarrow> u8 list \<Rightarrow> nat" where
  "message_length nl bytes =
     unat (u32_from_ne_bytes (nl_order nl) (bytes ! 0) (bytes ! 1) (bytes ! 2) (bytes ! 3))"

definition clear_low_bits :: "nat \<Rightarrow> nat" where
  "clear_low_bits n = n div 4 * 4"

text \<open>One round of the loop: the message at the offset, and the offset of the next one.\<close>

definition decode_message ::
    "netlink_ops \<Rightarrow> u8 list \<Rightarrow> nat \<Rightarrow> (NetlinkMessage \<times> nat) io_result" where
  "decode_message nl bytes offset =
     (let remaining = drop offset bytes
      in if length remaining < NETLINK_HEADER_LENGTH
         then Inl (netlink_invalid (Literal ''trailing bytes after netlink message''))
         else
           let len = message_length nl remaining
           in if len < NETLINK_HEADER_LENGTH \<or> length remaining < len
              then Inl (netlink_invalid (Literal ''invalid netlink message length''))
              else
                and_then (map_err (\<lambda>e. netlink_invalid
                    (Formatted ''cannot decode netlink message: {error}'' [ArgError e]))
                  (nl_deserialize nl (take len remaining))) (\<lambda>message.
                and_then (ok_or (map_option clear_low_bits (checked_add len 3))
                  (netlink_invalid (Literal ''netlink message length overflow''))) (\<lambda>aligned.
                if length remaining < aligned then
                  if len = length remaining then Inr (message, length bytes)
                  else Inl (netlink_invalid (Literal ''truncated netlink message padding''))
                else Inr (message, offset + aligned))))"

text \<open>Every round advances, so the loop ends.\<close>

lemma decode_message_advances:
  assumes "decode_message nl bytes offset = Inr (message, offset')" "offset < length bytes"
  shows "offset < offset'" "offset' \<le> length bytes"
proof -
  let ?remaining = "drop offset bytes"
  let ?len = "message_length nl ?remaining"
  have "NETLINK_HEADER_LENGTH \<le> ?len" and cases:
    "offset' = length bytes \<or> offset' = offset + clear_low_bits (?len + 3) \<and>
       clear_low_bits (?len + 3) \<le> length ?remaining"
    using assms(1) by (auto simp: decode_message_def Let_def result_simps checked_add_def split: if_splits)
  then have "0 < clear_low_bits (?len + 3)"
    by (simp add: clear_low_bits_def NETLINK_HEADER_LENGTH_def div_greater_zero_iff)
  then show "offset < offset'" "offset' \<le> length bytes" using cases assms(2) by auto
qed

function decode_from ::
    "netlink_ops \<Rightarrow> u8 list \<Rightarrow> nat \<Rightarrow> NetlinkMessage list \<Rightarrow> NetlinkMessage list io_result" where
  "decode_from nl bytes offset messages =
     (if offset < length bytes then
        (case decode_message nl bytes offset of
           Inl e \<Rightarrow> Inl e
         | Inr (message, offset') \<Rightarrow> decode_from nl bytes offset' (messages @ [message]))
      else Inr messages)"
  by pat_completeness auto

termination
  by (relation "measure (\<lambda>(nl, bytes, offset, messages). length bytes - offset)")
    (auto dest: decode_message_advances)

declare decode_from.simps [simp del]

definition decode_datagram :: "netlink_ops \<Rightarrow> u8 list \<Rightarrow> NetlinkMessage list io_result" where
  "decode_datagram nl bytes = decode_from nl bytes 0 []"

section \<open>Links\<close>

definition set_once :: "'a option \<Rightarrow> 'a \<Rightarrow> string \<Rightarrow> 'a option io_result" where
  "set_once slot v field =
     (case slot of
        Some _ \<Rightarrow> Inl (netlink_invalid (Formatted ''duplicate {field}'' [ArgText field]))
      | None \<Rightarrow> Inr (Some v))"

record link_slots =
  slot_name :: "string option"
  slot_controller :: "u32 option"
  slot_lower :: "u32 option"
  slot_netnsid :: "i32 option"
  slot_kind :: "InfoKind option"
  slot_data :: "InfoData option"

definition empty_slots :: link_slots where
  "empty_slots = \<lparr> slot_name = None, slot_controller = None, slot_lower = None,
     slot_netnsid = None, slot_kind = None, slot_data = None \<rparr>"

fun read_info :: "link_slots \<Rightarrow> LinkInfo \<Rightarrow> link_slots io_result" where
  "read_info s (KindInfo v) = and_then (set_once (slot_kind s) v ''link kind'')
     (\<lambda>x. Inr (s\<lparr> slot_kind := x \<rparr>))"
| "read_info s (DataInfo v) = and_then (set_once (slot_data s) v ''link data'')
     (\<lambda>x. Inr (s\<lparr> slot_data := x \<rparr>))"
| "read_info s OtherInfo = Inr s"

fun read_attribute :: "link_slots \<Rightarrow> LinkAttribute \<Rightarrow> link_slots io_result" where
  "read_attribute s (IfName v) = and_then (set_once (slot_name s) v ''interface name'')
     (\<lambda>x. Inr (s\<lparr> slot_name := x \<rparr>))"
| "read_attribute s (Controller v) = and_then (set_once (slot_controller s) v ''controller'')
     (\<lambda>x. Inr (s\<lparr> slot_controller := x \<rparr>))"
| "read_attribute s (LowerLink v) = and_then (set_once (slot_lower s) v ''lower interface'')
     (\<lambda>x. Inr (s\<lparr> slot_lower := x \<rparr>))"
| "read_attribute s (LinkNetNsId v) =
     and_then (set_once (slot_netnsid s) v ''lower network namespace'')
       (\<lambda>x. Inr (s\<lparr> slot_netnsid := x \<rparr>))"
| "read_attribute s (LinkInfos infos) = try_fold read_info s infos"
| "read_attribute s OtherAttribute = Inr s"

fun kind_of_info :: "InfoKind option \<Rightarrow> LinkKind" where
  "kind_of_info (Some InfoBond) = Bond"
| "kind_of_info (Some InfoBridge) = Bridge"
| "kind_of_info (Some InfoVlan) = Vlan"
| "kind_of_info (Some InfoMacVlan) = MacVlan"
| "kind_of_info (Some InfoIpVlan) = IpVlan"
| "kind_of_info (Some InfoMacVtap) = MacVtap"
| "kind_of_info (Some InfoVxlanKind) = Vxlan"
| "kind_of_info (Some InfoVeth) = Veth"
| "kind_of_info _ = Other"

fun read_vxlan :: "u32 option \<Rightarrow> InfoVxlan \<Rightarrow> u32 option io_result" where
  "read_vxlan slot (VxlanLink v) = set_once slot v ''VXLAN underlay''"
| "read_vxlan slot VxlanOther = Inr slot"

fun vxlan_underlay :: "InfoData option \<Rightarrow> u32 option io_result" where
  "vxlan_underlay (Some (VxlanData attributes)) = try_fold read_vxlan None attributes"
| "vxlan_underlay _ = Inr None"

definition decode_link :: "LinkMessage \<Rightarrow> ObservedLink io_result" where
  "decode_link message =
     and_then (try_fold read_attribute empty_slots (lm_attributes message)) (\<lambda>s.
     let kind = kind_of_info (slot_kind s)
     in and_then (vxlan_underlay (slot_data s)) (\<lambda>vxlan_lower.
     and_then (ok_or (slot_name s) (netlink_invalid (Literal ''interface has no name''))) (\<lambda>name.
     Inr \<lparr> link_index = lm_index message, link_name = name, link_kind = kind,
        link_controller = slot_controller s, link_lower = slot_lower s,
        link_lower_netnsid = slot_netnsid s, link_vxlan_lower = vxlan_lower \<rparr>)))"

section \<open>The answer to a dump request\<close>

text \<open>
  The loop over the messages of a datagram. It leaves with \<open>Ok(true)\<close> at the completion, and
  goes through to \<open>Ok(false)\<close> otherwise; the links are pushed on the way.
\<close>

fun consume_messages ::
    "u32 \<Rightarrow> nat \<Rightarrow> nat \<Rightarrow> NetlinkMessage list \<Rightarrow> ObservedLink list \<Rightarrow>
     bool io_result \<times> ObservedLink list" where
  "consume_messages sequence message_count position [] links = (Inr False, links)"
| "consume_messages sequence message_count position (message # messages) links =
     (if nl_sequence message \<noteq> sequence then
        (Inl (netlink_invalid (Literal
           ''interface inventory response sequence did not match its request'')), links)
      else if nl_flags message AND NLM_F_DUMP_INTR \<noteq> 0 then
        (Inl (error_other ''interface inventory dump was interrupted''), links)
      else case nl_payload message of
        InnerMessage (NewLink link) \<Rightarrow>
          (case decode_link link of
             Inl e \<Rightarrow> (Inl e, links)
           | Inr l \<Rightarrow> consume_messages sequence message_count (position + 1) messages (links @ [l]))
      | Done code \<Rightarrow>
          if code = 0 \<and> position + 1 = message_count then (Inr True, links)
          else if code = 0 then
            (Inl (netlink_invalid (Literal ''interface inventory continued after completion'')), links)
          else (Inl (error_other ''interface inventory completion reported an error''), links)
      | ErrorPayload error \<Rightarrow> (Inl error, links)
      | Overrun \<Rightarrow> (Inl (error_other ''interface inventory socket reported overrun''), links)
      | _ \<Rightarrow> (Inl (netlink_invalid (Literal ''unexpected interface inventory message'')), links))"

definition consume_dump ::
    "netlink_ops \<Rightarrow> u8 list \<Rightarrow> u32 \<Rightarrow> ObservedLink list \<Rightarrow> bool io_result \<times> ObservedLink list" where
  "consume_dump nl bytes sequence links =
     (case decode_datagram nl bytes of
        Inl e \<Rightarrow> (Inl e, links)
      | Inr messages \<Rightarrow> consume_messages sequence (length messages) 0 messages links)"

definition dump_request :: "netlink_ops \<Rightarrow> u32 \<Rightarrow> u8 list" where
  "dump_request nl sequence = nl_serialize nl
     \<lparr> nl_flags = NLM_F_REQUEST OR NLM_F_DUMP, nl_sequence = sequence,
       nl_payload = InnerMessage (GetLink (nl_default_link nl)) \<rparr>"

section \<open>How messages lie in a datagram\<close>

text \<open>
  A frame is a message with its header: at least a header long, of the length its first four
  bytes tell. Frames are padded to a multiple of four bytes; the padding of the last one may
  be missing altogether.
\<close>

definition frame :: "netlink_ops \<Rightarrow> u8 list \<Rightarrow> bool" where
  "frame nl f \<longleftrightarrow> NETLINK_HEADER_LENGTH \<le> length f \<and> message_length nl f = length f"

inductive framed :: "netlink_ops \<Rightarrow> u8 list \<Rightarrow> u8 list list \<Rightarrow> bool" for nl where
  nothing: "framed nl [] []"
| unpadded: "frame nl f \<Longrightarrow> framed nl f [f]"
| padded: "frame nl f \<Longrightarrow> length pad < 4 \<Longrightarrow> 4 dvd length (f @ pad) \<Longrightarrow> framed nl rest fs \<Longrightarrow>
    framed nl (f @ pad @ rest) (f # fs)"

lemma framed_nothing [simp]: "framed nl [] frames \<longleftrightarrow> frames = []"
proof
  show "framed nl [] frames \<Longrightarrow> frames = []"
    by (erule framed.cases) (auto simp: frame_def NETLINK_HEADER_LENGTH_def)
qed (simp add: framed.nothing)

lemma clear_low_bits_padding:
  "\<lbrakk> p < 4; 4 dvd n + p \<rbrakk> \<Longrightarrow> clear_low_bits (n + 3) = n + p"
  unfolding clear_low_bits_def by presburger

lemma clear_low_bits_bounds: "n \<le> clear_low_bits (n + 3)" "clear_low_bits (n + 3) < n + 4"
    "4 dvd clear_low_bits (n + 3)"
  unfolding clear_low_bits_def by presburger+

lemma message_length_take:
  "4 \<le> n \<Longrightarrow> message_length nl (take n bytes) = message_length nl bytes"
  by (simp add: message_length_def)

lemma message_length_append:
  "4 \<le> length f \<Longrightarrow> message_length nl (f @ rest) = message_length nl f"
  by (auto simp: message_length_def nth_append)

lemma message_length_u32: "message_length nl bytes + 3 \<le> usize_max"
proof -
  have "message_length nl bytes < 2 ^ 32" unfolding message_length_def
    by (rule order_less_le_trans [OF unsigned_less]) simp
  then show ?thesis by (simp add: usize_max_def)
qed

text \<open>One round of the loop on a frame that leads the remaining bytes.\<close>

lemma decode_message_padded:
  assumes "frame nl f" "length pad < 4" "4 dvd length (f @ pad)" "drop offset bytes = f @ pad @ rest"
  shows "decode_message nl bytes offset =
    and_then (map_err (\<lambda>e. netlink_invalid
        (Formatted ''cannot decode netlink message: {error}'' [ArgError e])) (nl_deserialize nl f))
      (\<lambda>message. Inr (message, offset + length (f @ pad)))"
proof -
  have f: "NETLINK_HEADER_LENGTH \<le> length f" "message_length nl (f @ pad @ rest) = length f"
    using assms(1) message_length_append [of f nl "pad @ rest"]
    by (auto simp: frame_def NETLINK_HEADER_LENGTH_def)
  have "checked_add (length f) 3 = Some (length f + 3)"
      "clear_low_bits (length f + 3) = length f + length pad"
    using assms(2,3) message_length_u32 [of nl "f @ pad @ rest"] f(2)
    by (simp_all add: checked_add_def clear_low_bits_padding)
  with f show ?thesis
    by (cases "nl_deserialize nl f") (simp_all add: decode_message_def Let_def assms(4))
qed

lemma decode_message_unpadded:
  assumes "frame nl f" "\<not> 4 dvd length f" "drop offset bytes = f"
  shows "decode_message nl bytes offset =
    and_then (map_err (\<lambda>e. netlink_invalid
        (Formatted ''cannot decode netlink message: {error}'' [ArgError e])) (nl_deserialize nl f))
      (\<lambda>message. Inr (message, length bytes))"
proof -
  have f: "NETLINK_HEADER_LENGTH \<le> length f" "message_length nl f = length f"
    using assms(1) by (auto simp: frame_def)
  have "length f < clear_low_bits (length f + 3)"
    using assms(2) clear_low_bits_bounds [of "length f"] by (metis le_neq_implies_less)
  then show ?thesis
    using f message_length_u32 [of nl f]
    by (cases "nl_deserialize nl f") (simp_all add: decode_message_def assms(3) checked_add_def)
qed

lemma decode_message_frame:
  assumes "decode_message nl bytes offset = Inr (message, offset')"
  obtains f where "frame nl f" "nl_deserialize nl f = Inr message" "\<not> 4 dvd length f"
      "drop offset bytes = f" "offset' = length bytes"
  | f pad rest where "frame nl f" "nl_deserialize nl f = Inr message" "length pad < 4"
      "4 dvd length (f @ pad)" "drop offset bytes = f @ pad @ rest"
      "offset' = offset + length (f @ pad)"
proof -
  let ?r = "drop offset bytes"
  let ?n = "message_length nl ?r"
  let ?a = "clear_low_bits (?n + 3)"
  have n: "NETLINK_HEADER_LENGTH \<le> ?n" "?n \<le> length ?r" "nl_deserialize nl (take ?n ?r) = Inr message"
    and a: "(if length ?r < ?a then ?n = length ?r \<and> offset' = length bytes
       else offset' = offset + ?a)"
    using assms by (auto simp: decode_message_def Let_def result_simps checked_add_def split: if_splits)
  have f: "frame nl (take ?n ?r)"
    using n message_length_take [of ?n nl ?r] by (simp add: frame_def NETLINK_HEADER_LENGTH_def)
  note bounds = clear_low_bits_bounds [of ?n]
  show thesis
  proof (cases "length ?r < ?a")
    case True
    with a have full: "?n = length ?r" "offset' = length bytes" by auto
    have "\<not> 4 dvd length ?r"
    proof
      assume "4 dvd length ?r"
      then have "clear_low_bits (length ?r + 3) = length ?r"
        using clear_low_bits_padding [of 0 "length ?r"] by simp
      then show False using True full(1) by simp
    qed
    then show thesis using that(1) [OF f n(3)] full by simp
  next
    case False
    let ?pad = "take (?a - ?n) (drop ?n ?r)"
    have len: "length (take ?n ?r) = ?n" "length ?pad = ?a - ?n"
      using n(2) False bounds by auto
    have split: "?r = take ?n ?r @ ?pad @ drop ?a ?r"
      using bounds(1) by (metis append_take_drop_id drop_drop le_add_diff_inverse2)
    show thesis
    proof (rule that(2) [OF f n(3)])
      show "length ?pad < 4" using len bounds by linarith
      show "4 dvd length (take ?n ?r @ ?pad)" "offset' = offset + length (take ?n ?r @ ?pad)"
        using len bounds a False by (simp_all only: length_append) simp_all
    qed (rule split)
  qed
qed

lemma framed_Cons:
  assumes "framed nl bytes frames" "bytes \<noteq> []"
  obtains f where "frames = [f]" "frame nl f" "bytes = f" "\<not> 4 dvd length f"
  | f pad rest fs where "frames = f # fs" "frame nl f" "length pad < 4" "4 dvd length (f @ pad)"
      "bytes = f @ pad @ rest" "framed nl rest fs"
  using assms(1)
proof cases
  case unpadded
  then show thesis
    using that(1) [of bytes] that(2) [of bytes "[]" "[]" "[]"] framed.nothing by (cases "4 dvd length bytes") simp_all
next
  case (padded f pad rest fs)
  then show thesis using that(2) by blast
qed (use assms(2) in simp)

definition decoded_as :: "netlink_ops \<Rightarrow> u8 list \<Rightarrow> NetlinkMessage \<Rightarrow> bool" where
  "decoded_as nl f message \<longleftrightarrow> nl_deserialize nl f = Inr message"

lemma decode_from_framed:
  assumes "offset \<le> length bytes" "decode_from nl bytes offset messages = Inr out"
  shows "\<exists>frames ms. framed nl (drop offset bytes) frames \<and> list_all2 (decoded_as nl) frames ms \<and>
     out = messages @ ms"
  using assms
proof (induction nl bytes offset messages rule: decode_from.induct)
  case (1 nl bytes offset messages)
  show ?case
  proof (cases "offset < length bytes")
    case False
    then show ?thesis using "1.prems" by (subst (asm) decode_from.simps) auto
  next
    case inside: True
    with "1.prems"(2) obtain message offset' where
        step: "decode_message nl bytes offset = Inr (message, offset')"
        and rest: "decode_from nl bytes offset' (messages @ [message]) = Inr out"
      by (subst (asm) decode_from.simps) (auto split: sum.splits)
    have "offset' \<le> length bytes" using decode_message_advances [OF step inside] by simp
    from "1.IH" [OF inside step refl this rest] obtain frames ms where
      ih: "framed nl (drop offset' bytes) frames" "list_all2 (decoded_as nl) frames ms"
        "out = (messages @ [message]) @ ms"
      by auto
    from step show ?thesis
    proof (cases rule: decode_message_frame)
      case (1 f)
      then have "frames = []" "ms = []" using ih by auto
      then show ?thesis using 1 ih
        by (intro exI [of _ "[f]"] exI [of _ "[message]"])
          (auto simp: decoded_as_def intro: framed.unpadded)
    next
      case (2 f pad rest)
      have "drop offset' bytes = drop (length (f @ pad)) (drop offset bytes)"
        by (simp add: 2(6) add.commute)
      then have "drop offset' bytes = rest" unfolding 2(5) by simp
      then have "framed nl (drop offset bytes) (f # frames)"
        unfolding 2(5) using 2 ih(1) by (intro framed.padded) simp_all
      moreover have "decoded_as nl f message" using 2 by (simp add: decoded_as_def)
      ultimately show ?thesis using ih(2,3)
        by (intro exI [of _ "f # frames"] exI [of _ "message # ms"]) simp
    qed
  qed
qed

lemma framed_decode_from:
  assumes "framed nl (drop offset bytes) frames" "list_all2 (decoded_as nl) frames ms"
    and "offset \<le> length bytes"
  shows "decode_from nl bytes offset messages = Inr (messages @ ms)"
  using assms
proof (induction frames arbitrary: offset ms messages rule: list.induct)
  case Nil
  then have "offset = length bytes" by (auto elim: framed.cases)
  then show ?case using Nil by (subst decode_from.simps) simp
next
  case (Cons g gs)
  from Cons.prems(1) have "drop offset bytes \<noteq> []" by (auto elim: framed.cases)
  then have inside: "offset < length bytes" by simp
  from Cons.prems(1) \<open>drop offset bytes \<noteq> []\<close> show ?case
  proof (cases rule: framed_Cons)
    case (1 f)
    then obtain m where m: "ms = [m]" "nl_deserialize nl f = Inr m"
      using Cons.prems(2) by (auto simp: decoded_as_def list_all2_Cons1)
    have "decode_message nl bytes offset = Inr (m, length bytes)"
      using decode_message_unpadded [of nl f offset bytes] 1 m by simp
    then show ?thesis
      using inside m(1) by (simp add: decode_from.simps [of _ _ offset]
          decode_from.simps [of _ _ "length bytes"])
  next
    case (2 f pad rest fs)
    from Cons.prems(2) obtain m ms' where m: "ms = m # ms'" "decoded_as nl g m"
        "list_all2 (decoded_as nl) gs ms'"
      by (auto simp: list_all2_Cons1)
    then have "nl_deserialize nl f = Inr m" using 2(1) by (simp add: decoded_as_def)
    let ?o = "offset + length (f @ pad)"
    have step: "decode_message nl bytes offset = Inr (m, ?o)"
      using decode_message_padded [of nl f pad offset bytes rest] 2 \<open>nl_deserialize nl f = Inr m\<close> by simp
    have "drop ?o bytes = drop (length (f @ pad)) (drop offset bytes)" by (simp add: add.commute)
    then have "framed nl (drop ?o bytes) gs" unfolding 2(5) using 2 by simp
    from Cons.IH [OF this m(3)] have "decode_from nl bytes ?o (messages @ [m]) = Inr (messages @ ms)"
      using decode_message_advances(2) [OF step inside] m(1) by simp
    then show ?thesis using inside step by (subst decode_from.simps) simp
  qed
qed

lemma decode_from_frames:
  assumes "offset \<le> length bytes"
  shows "decode_from nl bytes offset messages = Inr out \<longleftrightarrow>
    (\<exists>frames ms. framed nl (drop offset bytes) frames \<and> list_all2 (decoded_as nl) frames ms \<and>
       out = messages @ ms)"
  using decode_from_framed [OF assms] framed_decode_from [OF _ _ assms] by blast

text \<open>
  C28. \<open>decode_datagram\<close> accepts exactly the datagrams that are sequences of frames, padded to
  four bytes (the last one may lack its padding), each of which the deserializer accepts, and
  returns their messages in order.
\<close>

theorem decode_datagram_correct:
  "decode_datagram nl bytes = Inr messages \<longleftrightarrow>
     (\<exists>frames. framed nl bytes frames \<and> list_all2 (decoded_as nl) frames messages)"
  using decode_from_frames [of 0 bytes nl "[]" messages] by (simp add: decode_datagram_def)

section \<open>What a link message describes\<close>

text \<open>A slot that is set by each value in turn and may be set once.\<close>

fun fill :: "'a option \<Rightarrow> 'a list \<Rightarrow> 'a option option" where
  "fill slot [] = Some slot"
| "fill None (v # vs) = fill (Some v) vs"
| "fill (Some x) (v # vs) = None"

fun first :: "'a list \<Rightarrow> 'a option" where
  "first [] = None"
| "first (x # xs) = Some x"

lemma fill_append: "fill slot (xs @ ys) = do { s \<leftarrow> fill slot xs; fill s ys }"
  by (induction slot xs rule: fill.induct) auto

lemma fill_None: "fill None vs = Some x \<longleftrightarrow> length vs \<le> 1 \<and> x = first vs"
  by (cases vs rule: remdups_adj.cases) auto

lemma set_once_iff: "set_once slot v field = Inr x \<longleftrightarrow> slot = None \<and> x = Some v"
  by (auto simp: set_once_def split: option.splits)

definition names_of :: "LinkAttribute list \<Rightarrow> string list" where
  "names_of attrs = [v. IfName v \<leftarrow> attrs]"

definition controllers_of :: "LinkAttribute list \<Rightarrow> u32 list" where
  "controllers_of attrs = [v. Controller v \<leftarrow> attrs]"

definition lowers_of :: "LinkAttribute list \<Rightarrow> u32 list" where
  "lowers_of attrs = [v. LowerLink v \<leftarrow> attrs]"

definition netnsids_of :: "LinkAttribute list \<Rightarrow> i32 list" where
  "netnsids_of attrs = [v. LinkNetNsId v \<leftarrow> attrs]"

definition infos_of :: "LinkAttribute list \<Rightarrow> LinkInfo list" where
  "infos_of attrs = concat [infos. LinkInfos infos \<leftarrow> attrs]"

definition kinds_of :: "LinkInfo list \<Rightarrow> InfoKind list" where
  "kinds_of infos = [v. KindInfo v \<leftarrow> infos]"

definition data_of :: "LinkInfo list \<Rightarrow> InfoData list" where
  "data_of infos = [v. DataInfo v \<leftarrow> infos]"

definition underlays_of :: "InfoData option \<Rightarrow> u32 list" where
  "underlays_of data = (case data of
     Some (VxlanData attributes) \<Rightarrow> [v. VxlanLink v \<leftarrow> attributes] | _ \<Rightarrow> [])"

lemmas attribute_defs = names_of_def controllers_of_def lowers_of_def netnsids_of_def infos_of_def
lemmas info_defs = kinds_of_def data_of_def

text \<open>
  A message is a link when it has one name and at most one of every other attribute; the
  attributes and infos the program does not know do not matter, nor does the order.
\<close>

definition describes_link :: "LinkMessage \<Rightarrow> bool" where
  "describes_link m \<longleftrightarrow>
     (let attrs = lm_attributes m; infos = infos_of attrs
      in length (names_of attrs) = 1 \<and> length (controllers_of attrs) \<le> 1 \<and>
         length (lowers_of attrs) \<le> 1 \<and> length (netnsids_of attrs) \<le> 1 \<and>
         length (kinds_of infos) \<le> 1 \<and> length (data_of infos) \<le> 1 \<and>
         length (underlays_of (first (data_of infos))) \<le> 1)"

definition link_of :: "LinkMessage \<Rightarrow> ObservedLink" where
  "link_of m =
     (let attrs = lm_attributes m; infos = infos_of attrs
      in \<lparr> link_index = lm_index m, link_name = hd (names_of attrs),
           link_kind = kind_of_info (first (kinds_of infos)),
           link_controller = first (controllers_of attrs), link_lower = first (lowers_of attrs),
           link_lower_netnsid = first (netnsids_of attrs),
           link_vxlan_lower = first (underlays_of (first (data_of infos))) \<rparr>)"

lemma read_infos_iff:
  "try_fold read_info s infos = Inr s' \<longleftrightarrow>
     (\<exists>k d. fill (slot_kind s) (kinds_of infos) = Some k \<and>
       fill (slot_data s) (data_of infos) = Some d \<and> s' = s\<lparr> slot_kind := k, slot_data := d \<rparr>)"
proof (induction infos arbitrary: s)
  case Nil
  then show ?case by (auto simp: info_defs)
next
  case (Cons info infos)
  show ?case
  proof (cases info)
    case (KindInfo v)
    then show ?thesis
      by (cases "slot_kind s") (auto simp: and_then_Inr_iff set_once_def Cons.IH info_defs)
  next
    case (DataInfo v)
    then show ?thesis
      by (cases "slot_data s") (auto simp: and_then_Inr_iff set_once_def Cons.IH info_defs)
  next
    case OtherInfo
    then show ?thesis by (simp add: Cons.IH info_defs)
  qed
qed

lemma read_attributes_iff:
  "try_fold read_attribute s attrs = Inr s' \<longleftrightarrow>
     (\<exists>n c l ns k d. fill (slot_name s) (names_of attrs) = Some n \<and>
       fill (slot_controller s) (controllers_of attrs) = Some c \<and>
       fill (slot_lower s) (lowers_of attrs) = Some l \<and>
       fill (slot_netnsid s) (netnsids_of attrs) = Some ns \<and>
       fill (slot_kind s) (kinds_of (infos_of attrs)) = Some k \<and>
       fill (slot_data s) (data_of (infos_of attrs)) = Some d \<and>
       s' = \<lparr> slot_name = n, slot_controller = c, slot_lower = l, slot_netnsid = ns,
              slot_kind = k, slot_data = d \<rparr>)"
proof (induction attrs arbitrary: s)
  case Nil
  then show ?case by (simp add: attribute_defs info_defs) (metis link_slots.surjective unit.exhaust)
next
  case (Cons attr attrs)
  show ?case
  proof (cases attr)
    case (IfName v)
    then show ?thesis
      by (cases "slot_name s") (simp_all add: set_once_def Cons.IH attribute_defs info_defs)
  next
    case (Controller v)
    then show ?thesis
      by (cases "slot_controller s") (simp_all add: set_once_def Cons.IH attribute_defs info_defs)
  next
    case (LowerLink v)
    then show ?thesis
      by (cases "slot_lower s") (simp_all add: set_once_def Cons.IH attribute_defs info_defs)
  next
    case (LinkNetNsId v)
    then show ?thesis
      by (cases "slot_netnsid s") (simp_all add: set_once_def Cons.IH attribute_defs info_defs)
  next
    case (LinkInfos infos)
    have infos: "kinds_of (infos_of (attr # attrs)) = kinds_of infos @ kinds_of (infos_of attrs)"
        "data_of (infos_of (attr # attrs)) = data_of infos @ data_of (infos_of attrs)"
      by (simp_all add: LinkInfos infos_of_def info_defs)
    have same: "names_of (attr # attrs) = names_of attrs" "controllers_of (attr # attrs) = controllers_of attrs"
        "lowers_of (attr # attrs) = lowers_of attrs" "netnsids_of (attr # attrs) = netnsids_of attrs"
      by (simp_all add: LinkInfos attribute_defs)
    show ?thesis
      unfolding infos same fill_append
      by (simp add: LinkInfos and_then_Inr_iff read_infos_iff Cons.IH bind_eq_Some_conv) fastforce
  next
    case OtherAttribute
    then show ?thesis by (simp add: Cons.IH attribute_defs info_defs)
  qed
qed

lemma read_vxlans_iff:
  "try_fold read_vxlan slot attrs = Inr x \<longleftrightarrow> fill slot [v. VxlanLink v \<leftarrow> attrs] = Some x"
proof (induction attrs arbitrary: slot)
  case (Cons attr attrs)
  show ?case
    by (cases attr; cases slot) (auto simp: set_once_def Cons.IH)
qed auto

lemma vxlan_underlay_iff:
  "vxlan_underlay data = Inr x \<longleftrightarrow> length (underlays_of data) \<le> 1 \<and> x = first (underlays_of data)"
  by (cases data rule: vxlan_underlay.cases)
    (auto simp: underlays_of_def read_vxlans_iff fill_None)

text \<open>
  C27. \<open>decode_link\<close> accepts exactly the messages with one name and no duplicate of any attribute
  the program reads, and returns the link they describe.
\<close>

theorem decode_link_correct:
  "decode_link m = Inr l \<longleftrightarrow> describes_link m \<and> l = link_of m"
proof -
  have "length xs = 1 \<longleftrightarrow> length xs \<le> 1 \<and> first xs \<noteq> None" for xs :: "string list"
    by (cases xs) auto
  moreover have "first xs = Some x \<Longrightarrow> hd xs = x" for xs and x :: string
    by (cases xs) auto
  ultimately show ?thesis
    by (auto simp: decode_link_def and_then_Inr_iff ok_or_Inr_iff read_attributes_iff fill_None
        empty_slots_def vxlan_underlay_iff describes_link_def link_of_def Let_def)
qed

section \<open>Which datagrams continue or complete a dump\<close>

definition answers :: "u32 \<Rightarrow> NetlinkMessage \<Rightarrow> bool" where
  "answers sequence m \<longleftrightarrow> nl_sequence m = sequence \<and> nl_flags m AND NLM_F_DUMP_INTR = 0"

definition lists_link :: "NetlinkMessage \<Rightarrow> ObservedLink \<Rightarrow> bool" where
  "lists_link m l \<longleftrightarrow> (\<exists>link. nl_payload m = InnerMessage (NewLink link) \<and> decode_link link = Inr l)"

text \<open>
  A part of a dump: answers to the request that list links, and in the part that completes
  the dump a last answer that reports success.
\<close>

definition dump_part :: "u32 \<Rightarrow> NetlinkMessage list \<Rightarrow> ObservedLink list \<Rightarrow> bool \<Rightarrow> bool" where
  "dump_part sequence messages found complete \<longleftrightarrow>
     (\<exists>ms end. messages = ms @ end \<and> (\<forall>m \<in> set messages. answers sequence m) \<and>
        list_all2 lists_link ms found \<and>
        (if complete then \<exists>m. end = [m] \<and> nl_payload m = Done 0 else end = []))"

lemma dump_part_Nil: "dump_part sequence [] found complete \<longleftrightarrow> found = [] \<and> \<not> complete"
  by (auto simp: dump_part_def)

lemma dump_part_link:
  assumes "nl_payload m = InnerMessage (NewLink link)"
  shows "dump_part sequence (m # ms) found complete \<longleftrightarrow> answers sequence m \<and>
    (\<exists>l rest. decode_link link = Inr l \<and> found = l # rest \<and> dump_part sequence ms rest complete)"
proof
  assume "dump_part sequence (m # ms) found complete"
  then obtain ms' "end" where p: "m # ms = ms' @ end" "\<forall>m \<in> set (m # ms). answers sequence m"
      "list_all2 lists_link ms' found"
      "if complete then \<exists>m. end = [m] \<and> nl_payload m = Done 0 else end = []"
    unfolding dump_part_def by blast
  from p(1,4) assms obtain ms'' where ms': "ms' = m # ms''" "ms = ms'' @ end"
    by (cases ms') (auto split: if_splits)
  then obtain l rest where l: "lists_link m l" "found = l # rest" "list_all2 lists_link ms'' rest"
    using p(3) by (auto simp: list_all2_Cons1)
  moreover have "dump_part sequence ms rest complete"
    unfolding dump_part_def using p ms' l(3)
    by (intro exI [of _ ms''] exI [of _ "end"]) (auto simp del: if_split split: if_splits)
  ultimately show "answers sequence m \<and>
    (\<exists>l rest. decode_link link = Inr l \<and> found = l # rest \<and> dump_part sequence ms rest complete)"
    using p(2) assms by (auto simp: lists_link_def)
next
  assume "answers sequence m \<and>
    (\<exists>l rest. decode_link link = Inr l \<and> found = l # rest \<and> dump_part sequence ms rest complete)"
  then obtain l rest ms' "end" where a: "answers sequence m" "decode_link link = Inr l" "found = l # rest"
    and p: "ms = ms' @ end" "\<forall>m \<in> set ms. answers sequence m" "list_all2 lists_link ms' rest"
      "if complete then \<exists>m. end = [m] \<and> nl_payload m = Done 0 else end = []"
    unfolding dump_part_def by blast
  with assms show "dump_part sequence (m # ms) found complete"
    unfolding dump_part_def
    by (intro exI [of _ "m # ms'"] exI [of _ "end"]) (auto simp: lists_link_def)
qed

lemma dump_part_other:
  assumes "\<And>link. nl_payload m \<noteq> InnerMessage (NewLink link)"
  shows "dump_part sequence (m # ms) found complete \<longleftrightarrow>
    answers sequence m \<and> ms = [] \<and> nl_payload m = Done 0 \<and> complete \<and> found = []"
proof
  assume "dump_part sequence (m # ms) found complete"
  then obtain ms' "end" where p: "m # ms = ms' @ end" "\<forall>m \<in> set (m # ms). answers sequence m"
      "list_all2 lists_link ms' found"
      "if complete then \<exists>m. end = [m] \<and> nl_payload m = Done 0 else end = []"
    unfolding dump_part_def by blast
  have "ms' = []"
  proof (cases ms')
    case (Cons m' ms'')
    then show ?thesis using p(1,3) assms by (auto simp: list_all2_Cons1 lists_link_def)
  qed simp
  with p show "answers sequence m \<and> ms = [] \<and> nl_payload m = Done 0 \<and> complete \<and> found = []"
    by (auto split: if_splits)
next
  assume "answers sequence m \<and> ms = [] \<and> nl_payload m = Done 0 \<and> complete \<and> found = []"
  then show "dump_part sequence (m # ms) found complete"
    unfolding dump_part_def by (intro exI [of _ "[]"] exI [of _ "[m]"]) auto
qed

lemma consume_messages_iff:
  assumes "position + length messages = message_count"
  shows "consume_messages sequence message_count position messages links = (Inr complete, links') \<longleftrightarrow>
    (\<exists>found. dump_part sequence messages found complete \<and> links' = links @ found)"
  using assms
proof (induction messages arbitrary: position links)
  case Nil
  then show ?case by (auto simp: dump_part_Nil)
next
  case (Cons m ms)
  show ?case
  proof (cases "answers sequence m")
    case False
    have "\<not> dump_part sequence (m # ms) found complete" for found
      using False by (auto simp: dump_part_def)
    then show ?thesis using False by (auto simp: answers_def)
  next
    case True
    then have head: "consume_messages sequence message_count position (m # ms) links =
      (case nl_payload m of
        InnerMessage (NewLink link) \<Rightarrow>
          (case decode_link link of
             Inl e \<Rightarrow> (Inl e, links)
           | Inr l \<Rightarrow> consume_messages sequence message_count (position + 1) ms (links @ [l]))
      | Done code \<Rightarrow>
          if code = 0 \<and> position + 1 = message_count then (Inr True, links)
          else if code = 0 then
            (Inl (netlink_invalid (Literal ''interface inventory continued after completion'')), links)
          else (Inl (error_other ''interface inventory completion reported an error''), links)
      | ErrorPayload error \<Rightarrow> (Inl error, links)
      | Overrun \<Rightarrow> (Inl (error_other ''interface inventory socket reported overrun''), links)
      | _ \<Rightarrow> (Inl (netlink_invalid (Literal ''unexpected interface inventory message'')), links))"
      by (simp add: answers_def)
    show ?thesis
    proof (cases "\<exists>link. nl_payload m = InnerMessage (NewLink link)")
      case link: True
      then obtain link where "nl_payload m = InnerMessage (NewLink link)" by blast
      with True Cons show ?thesis
        unfolding head by (cases "decode_link link") (auto simp: dump_part_link)
    next
      case False
      then show ?thesis
        using Cons.prems True
        unfolding head dump_part_other [of m, OF False [simplified, rule_format]]
        by (auto split: NetlinkPayload.split RouteNetlinkMessage.split)
    qed
  qed
qed

lemma consume_dump_iff:
  "consume_dump nl bytes sequence links = (Inr complete, links') \<longleftrightarrow>
     (\<exists>messages found. decode_datagram nl bytes = Inr messages \<and>
        dump_part sequence messages found complete \<and> links' = links @ found)"
  using consume_messages_iff
  by (cases "decode_datagram nl bytes") (auto simp: consume_dump_def)

text \<open>
  C26. \<open>consume_dump\<close> succeeds exactly on a datagram that decodes to a part of the dump that was
  requested, appends exactly the links it lists, and reports completion exactly when the part
  ends with a successful completion. In particular an answer to another request, an
  interrupted dump, an overrun or a message after the completion is an error.
\<close>

theorem consume_dump_correct:
  "consume_dump nl bytes sequence links = (Inr complete, links') \<longleftrightarrow>
     (\<exists>messages found. decode_datagram nl bytes = Inr messages \<and>
        dump_part sequence messages found complete \<and> links' = links @ found)"
  by (rule consume_dump_iff)

end
