(* ===== verification/Netlink.thy ===== *)
theory Netlink
  imports Monitor Netlink_Codec
begin

text \<open>
  The acquiring half of \<open>src/netlink.rs\<close>: \<open>NetlinkSource\<close>, which implements the trait
  \<open>Acquisition\<close> over the trait \<open>DatagramIo\<close>, and \<open>SocketIo\<close>, which implements the latter over
  netlink sockets and \<open>poll\<close>. The operations of \<open>DatagramIo\<close> are an argument of the source, and
  the system calls are an argument of \<open>SocketIo\<close>; the rest of the world is a state \<open>'w\<close> that
  every call may change. The production build is modelled, without the \<open>shutdown\<close> flag that
  exists under \<open>cfg(test)\<close>.

  A call of the trait is \<open>None\<close> where it never returns. \<open>Drop\<close> is visible: a socket that goes out
  of scope is given to \<open>io_drop\<close>. An \<open>Instant\<close> is the time of a monotonic clock in nanoseconds.
\<close>

section \<open>The trait \<open>DatagramIo\<close>\<close>

definition LINK_MULTICAST_GROUP :: u32 where
  "LINK_MULTICAST_GROUP = 1"

definition INVENTORY_TIMEOUT :: duration where
  "INVENTORY_TIMEOUT = from_secs 3"

definition MAX_DATAGRAM :: nat where
  "MAX_DATAGRAM = 1024 * 1024"

definition MAX_INVENTORY_BYTES :: nat where
  "MAX_INVENTORY_BYTES = 16 * 1024 * 1024"

record Datagram =
  dg_bytes :: "u8 list"
  dg_from_kernel :: bool
  dg_truncated :: bool

record Ready =
  rd_notification :: bool
  rd_dump :: bool
  rd_notification_failed :: bool
  rd_dump_failed :: bool

record ('k, 'w) io_ops =
  io_open :: "u32 \<Rightarrow> 'w \<Rightarrow> 'k io_result \<times> 'w"
  io_send :: "'k \<Rightarrow> u8 list \<Rightarrow> 'w \<Rightarrow> (unit io_result \<times> 'w) option"
  io_wait :: "'k \<Rightarrow> 'k option \<Rightarrow> duration \<Rightarrow> 'w \<Rightarrow> (Ready io_result \<times> 'w) option"
  io_receive :: "'k \<Rightarrow> 'w \<Rightarrow> (Datagram io_result \<times> 'w) option"
  io_drop :: "'k \<Rightarrow> 'w \<Rightarrow> 'w"
  io_clock :: "'w \<Rightarrow> duration \<times> 'w"  \<comment> \<open>\<open>Instant::now()\<close>\<close>
  io_sleep :: "duration \<Rightarrow> 'w \<Rightarrow> 'w"  \<comment> \<open>\<open>std::thread::sleep\<close>\<close>

section \<open>\<open>NetlinkSource\<close>\<close>

record ('k, 'w) NetlinkSource =
  ns_notification :: "'k option"
  ns_origin :: duration
  ns_sequence :: u32
  ns_world :: 'w

definition with_io :: "('k, 'w) io_ops \<Rightarrow> 'w \<Rightarrow> ('k, 'w) NetlinkSource" where
  "with_io io w =
     (let (origin, w) = io_clock io w
      in \<lparr> ns_notification = None, ns_origin = origin, ns_sequence = 0, ns_world = w \<rparr>)"

definition source_now ::
    "('k, 'w) io_ops \<Rightarrow> ('k, 'w) NetlinkSource \<Rightarrow> duration \<times> ('k, 'w) NetlinkSource" where
  "source_now io src =
     (let (t, w) = io_clock io (ns_world src)
      in (saturating_sub t (ns_origin src), src\<lparr> ns_world := w \<rparr>))"

text \<open>\<open>self.notification = new\<close> drops the socket that was there.\<close>

definition set_notification ::
    "('k, 'w) io_ops \<Rightarrow> 'k option \<Rightarrow> ('k, 'w) NetlinkSource \<Rightarrow> ('k, 'w) NetlinkSource" where
  "set_notification io new src =
     src\<lparr> ns_notification := new,
          ns_world := (case ns_notification src of
            None \<Rightarrow> ns_world src | Some old \<Rightarrow> io_drop io old (ns_world src)) \<rparr>"

definition next_sequence :: "('k, 'w) NetlinkSource \<Rightarrow> u32 \<times> ('k, 'w) NetlinkSource" where
  "next_sequence src =
     (let src = src\<lparr> ns_sequence := ns_sequence src + 1 \<rparr>;
          src = (if ns_sequence src = 0 then src\<lparr> ns_sequence := 1 \<rparr> else src)
      in (ns_sequence src, src))"

text \<open>The loop over the messages of a notification.\<close>

definition read_notification :: "bool \<Rightarrow> NetlinkMessage \<Rightarrow> bool io_result" where
  "read_notification changed message =
     (if nl_sequence message \<noteq> 0 then
        Inl (netlink_invalid (Literal ''link notification carried a response sequence''))
      else case nl_payload message of
        InnerMessage (NewLink _) \<Rightarrow> Inr True
      | InnerMessage (DelLink _) \<Rightarrow> Inr True
      | Overrun \<Rightarrow> Inl (error_other ''link notification socket reported overrun'')
      | Noop \<Rightarrow> Inr changed
      | _ \<Rightarrow> Inl (netlink_invalid (Literal ''unexpected link notification message'')))"

definition check_notification :: "netlink_ops \<Rightarrow> Datagram \<Rightarrow> bool io_result" where
  "check_notification nl datagram =
     (if dg_truncated datagram then
        Inl (netlink_invalid (Literal ''link notification datagram was truncated''))
      else if \<not> dg_from_kernel datagram then
        Inl (netlink_invalid (Literal ''link notification came from a non-kernel sender''))
      else if dg_bytes datagram = [] then
        Inl (IoError UnexpectedEof (Literal ''link notification socket terminated''))
      else and_then (decode_datagram nl (dg_bytes datagram)) (try_fold read_notification False))"

definition receive_notification ::
    "netlink_ops \<Rightarrow> ('k, 'w) io_ops \<Rightarrow> ('k, 'w) NetlinkSource \<Rightarrow>
     (duration option io_result \<times> ('k, 'w) NetlinkSource) option" where
  "receive_notification nl io src =
     (case ns_notification src of
        None \<Rightarrow> Some (Inl (error_other ''link notifications are not subscribed''), src)
      | Some notification \<Rightarrow> do {
          (r, w) \<leftarrow> io_receive io notification (ns_world src);
          let src = src\<lparr> ns_world := w \<rparr>;
          case and_then r (check_notification nl) of
            Inl e \<Rightarrow> Some (Inl e, src)
          | Inr changed \<Rightarrow>
              if changed then
                (let (at, src) = source_now io src in Some (Inr (Some at), src))
              else Some (Inr None, src)
        })"

subsection \<open>\<open>subscribe\<close>\<close>

definition source_subscribe ::
    "('k, 'w) io_ops \<Rightarrow> ('k, 'w) NetlinkSource \<Rightarrow>
     (unit io_result \<times> ('k, 'w) NetlinkSource) option" where
  "source_subscribe io src =
     (case io_open io LINK_MULTICAST_GROUP (ns_world src) of
        (Inl e, w) \<Rightarrow> Some (Inl e, src\<lparr> ns_world := w \<rparr>)
      | (Inr socket, w) \<Rightarrow>
          Some (Inr (), set_notification io (Some socket) (src\<lparr> ns_world := w \<rparr>)))"

subsection \<open>\<open>inventory\<close>\<close>

record ('k, 'w) progress =
  pg_source :: "('k, 'w) NetlinkSource"
  pg_events :: EventBatch
  pg_links :: "ObservedLink list"
  pg_total :: nat

type_synonym ('k, 'w) acquired = "(AcquisitionError + Inventory) \<times> ('k, 'w) NetlinkSource"

text \<open>\<open>events.first.get_or_insert(at); events.last = Some(at)\<close>.\<close>

definition note_event :: "duration \<Rightarrow> EventBatch \<Rightarrow> EventBatch" where
  "note_event at events =
     \<lparr> batch_first = (case batch_first events of None \<Rightarrow> Some at | Some x \<Rightarrow> Some x),
       batch_last = Some at \<rparr>"

text \<open>The reading of the notification socket within an inventory.\<close>

definition inventory_notification ::
    "netlink_ops \<Rightarrow> ('k, 'w) io_ops \<Rightarrow> ('k, 'w) progress \<Rightarrow>
     (('k, 'w) progress, ('k, 'w) acquired) control option" where
  "inventory_notification nl io p = do {
     (r, src) \<leftarrow> receive_notification nl io (pg_source p);
     case r of
       Inl e \<Rightarrow> Some (Leave (Inl (Lost e (pg_events p)), set_notification io None src))
     | Inr None \<Rightarrow> Some (Again (p\<lparr> pg_source := src \<rparr>))
     | Inr (Some at) \<Rightarrow>
         Some (Again (p\<lparr> pg_source := src, pg_events := note_event at (pg_events p) \<rparr>))
   }"

text \<open>The reading of the dump socket.\<close>

definition inventory_dump ::
    "netlink_ops \<Rightarrow> ('k, 'w) io_ops \<Rightarrow> Attempt \<Rightarrow> u32 \<Rightarrow> 'k \<Rightarrow> ('k, 'w) progress \<Rightarrow>
     (('k, 'w) progress, ('k, 'w) acquired) control option" where
  "inventory_dump nl io attempt sequence dump p = do {
     (r, w) \<leftarrow> io_receive io dump (ns_world (pg_source p));
     let src = (pg_source p)\<lparr> ns_world := w \<rparr>;
     let failed = (\<lambda>e. Some (Leave (Inl (Ordinary e (pg_events p)), src)));
     case r of
       Inl e \<Rightarrow> failed e
     | Inr datagram \<Rightarrow>
         if dg_truncated datagram then
           failed (netlink_invalid (Literal ''interface inventory datagram was truncated''))
         else if \<not> dg_from_kernel datagram \<or> dg_bytes datagram = [] then
           failed (netlink_invalid (Literal ''invalid interface inventory sender or termination''))
         else
           let total = min (pg_total p + length (dg_bytes datagram)) usize_max
           in if MAX_INVENTORY_BYTES < total then
                failed (netlink_invalid (Literal ''interface inventory exceeded its byte limit''))
              else
                (case consume_dump nl (dg_bytes datagram) sequence (pg_links p) of
                   (Inr True, links) \<Rightarrow>
                     Some (Leave (Inr \<lparr> inv_attempt = attempt, inv_links = links,
                       inv_events = pg_events p \<rparr>, src))
                 | (Inr False, links) \<Rightarrow>
                     Some (Again (p\<lparr> pg_source := src, pg_links := links, pg_total := total \<rparr>))
                 | (Inl e, links) \<Rightarrow> failed e)
   }"

text \<open>What a round does once it knows which sockets are ready.\<close>

definition inventory_ready ::
    "netlink_ops \<Rightarrow> ('k, 'w) io_ops \<Rightarrow> Attempt \<Rightarrow> u32 \<Rightarrow> 'k \<Rightarrow> Ready \<Rightarrow> ('k, 'w) progress \<Rightarrow>
     (('k, 'w) progress, ('k, 'w) acquired) control option" where
  "inventory_ready nl io attempt sequence dump ready p = do {
     c \<leftarrow> (if rd_notification ready then inventory_notification nl io p else Some (Again p));
     case c of
       Leave r \<Rightarrow> Some (Leave r)
     | Again p \<Rightarrow>
         if rd_dump ready then inventory_dump nl io attempt sequence dump p
         else Some (Again p)
   }"

text \<open>One round of the loop.\<close>

definition inventory_round ::
    "netlink_ops \<Rightarrow> ('k, 'w) io_ops \<Rightarrow> Attempt \<Rightarrow> u32 \<Rightarrow> 'k \<Rightarrow> duration \<Rightarrow> ('k, 'w) progress \<Rightarrow>
     (('k, 'w) progress, ('k, 'w) acquired) control option" where
  "inventory_round nl io attempt sequence dump deadline p =
     (let (t, w) = io_clock io (ns_world (pg_source p));
          src = (pg_source p)\<lparr> ns_world := w \<rparr>;
          remaining = saturating_sub deadline t
      in if remaining = 0 then
           Some (Leave (Inl (Ordinary (IoError TimedOut
             (Literal ''interface inventory exceeded its deadline'')) (pg_events p)), src))
         else (case ns_notification src of
           None \<Rightarrow>
             Some (Leave (Inl (Lost (error_other ''notification socket absent'') (pg_events p)), src))
         | Some notification \<Rightarrow> do {
             (r, w) \<leftarrow> io_wait io notification (Some dump) remaining (ns_world src);
             let src = src\<lparr> ns_world := w \<rparr>;
             case r of
               Inl e \<Rightarrow> Some (Leave (Inl (Lost e (pg_events p)), set_notification io None src))
             | Inr ready \<Rightarrow>
                 if rd_notification_failed ready then
                   Some (Leave (Inl (Lost (error_other ''link notification socket failed'')
                     (pg_events p)), set_notification io None src))
                 else if rd_dump_failed ready then
                   Some (Leave (Inl (Ordinary (error_other ''interface inventory socket failed'')
                     (pg_events p)), src))
                 else inventory_ready nl io attempt sequence dump ready (p\<lparr> pg_source := src \<rparr>)
           }))"

text \<open>
  The loop, from the opening of the dump socket on, which is dropped when the function
  returns.
\<close>

definition source_inventory ::
    "netlink_ops \<Rightarrow> ('k, 'w) io_ops \<Rightarrow> Attempt \<Rightarrow> ('k, 'w) NetlinkSource \<Rightarrow>
     ('k, 'w) acquired option" where
  "source_inventory nl io attempt src =
     (case io_open io 0 (ns_world src) of
        (Inl e, w) \<Rightarrow> Some (Inl (Ordinary e no_events), src\<lparr> ns_world := w \<rparr>)
      | (Inr dump, w) \<Rightarrow> do {
          let (sequence, src) = next_sequence (src\<lparr> ns_world := w \<rparr>);
          (sent, w) \<leftarrow> io_send io dump (dump_request nl sequence) (ns_world src);
          let src = src\<lparr> ns_world := w \<rparr>;
          (r, src) \<leftarrow> (case sent of
              Inl e \<Rightarrow> Some (Inl (Ordinary e no_events), src)
            | Inr _ \<Rightarrow>
                let (t, w) = io_clock io (ns_world src)
                in loop (inventory_round nl io attempt sequence dump (t + INVENTORY_TIMEOUT))
                     \<lparr> pg_source = src\<lparr> ns_world := w \<rparr>, pg_events = no_events, pg_links = [],
                       pg_total = 0 \<rparr>);
          Some (r, src\<lparr> ns_world := io_drop io dump (ns_world src) \<rparr>)
        })"

subsection \<open>\<open>wait\<close>\<close>

definition source_wait ::
    "netlink_ops \<Rightarrow> ('k, 'w) io_ops \<Rightarrow> duration \<Rightarrow> ('k, 'w) NetlinkSource \<Rightarrow>
     (WaitOutcome io_result \<times> ('k, 'w) NetlinkSource) option" where
  "source_wait nl io timeout src =
     (case ns_notification src of
        None \<Rightarrow> Some (Inr Deadline, src\<lparr> ns_world := io_sleep io timeout (ns_world src) \<rparr>)
      | Some notification \<Rightarrow> do {
          (r, w) \<leftarrow> io_wait io notification None timeout (ns_world src);
          let src = src\<lparr> ns_world := w \<rparr>;
          case r of
            Inl e \<Rightarrow> Some (Inl e, set_notification io None src)
          | Inr ready \<Rightarrow>
              if rd_notification_failed ready then
                Some (Inl (error_other ''link notification socket failed''),
                  set_notification io None src)
              else if \<not> rd_notification ready then Some (Inr Deadline, src)
              else do {
                (at, src) \<leftarrow> receive_notification nl io src;
                case at of
                  Inr (Some at) \<Rightarrow> Some (Inr (LinkChanged at), src)
                | Inr None \<Rightarrow> Some (Inr Deadline, src)
                | Inl e \<Rightarrow> Some (Inl e, set_notification io None src)
              }
        })"

definition netlink_source ::
    "netlink_ops \<Rightarrow> ('k, 'w) io_ops \<Rightarrow> ('k, 'w) NetlinkSource acquisition_ops" where
  "netlink_source nl io =
     \<lparr> acq_now = source_now io, acq_subscribe = source_subscribe io,
       acq_inventory = source_inventory nl io, acq_wait = source_wait nl io \<rparr>"

section \<open>The source keeps its side of the contract\<close>

lemma source_now_frame [simp]:
  "ns_notification (snd (source_now io src)) = ns_notification src"
  "ns_origin (snd (source_now io src)) = ns_origin src"
  "ns_sequence (snd (source_now io src)) = ns_sequence src"
  by (simp_all add: source_now_def split: prod.split)

lemma source_now_keeps:
  "source_now io src = (t, src') \<Longrightarrow> ns_notification src' = ns_notification src"
  using source_now_frame(1) [of io src] by simp

lemma set_notification_frame [simp]:
  "ns_notification (set_notification io new src) = new"
  "ns_origin (set_notification io new src) = ns_origin src"
  "ns_sequence (set_notification io new src) = ns_sequence src"
  by (simp_all add: set_notification_def)

lemma receive_notification_keeps:
  assumes "receive_notification nl io src = Some (r, src')"
  shows "ns_notification src' = ns_notification src"
proof (cases "ns_notification src")
  case None
  then show ?thesis using assms by (simp add: receive_notification_def)
next
  case (Some k)
  then obtain x w where rx: "io_receive io k (ns_world src) = Some (x, w)"
    using assms by (auto simp: receive_notification_def split: bind_splits)
  show ?thesis
    using assms
    by (auto simp: receive_notification_def Some rx Let_def dest: source_now_keeps
        split: sum.splits if_splits prod.splits)
qed

text \<open>
  The calls on the sockets while an inventory is read, from one world to another: looks at the
  clock, waits on both sockets, reads of the notification socket \<open>k\<close>, and reads of the dump
  socket, whose datagrams are listed.
\<close>

inductive dump_calls :: "('k, 'w) io_ops \<Rightarrow> 'k \<Rightarrow> 'k \<Rightarrow> 'w \<Rightarrow> Datagram list \<Rightarrow> 'w \<Rightarrow> bool"
  for io k dump where
  none: "dump_calls io k dump w [] w"
| clock: "io_clock io w = (t, w1) \<Longrightarrow> dump_calls io k dump w1 ds w2 \<Longrightarrow> dump_calls io k dump w ds w2"
| waited: "io_wait io k (Some dump) timeout w = Some (r, w1) \<Longrightarrow> dump_calls io k dump w1 ds w2 \<Longrightarrow>
    dump_calls io k dump w ds w2"
| notified: "io_receive io k w = Some (r, w1) \<Longrightarrow> dump_calls io k dump w1 ds w2 \<Longrightarrow>
    dump_calls io k dump w ds w2"
| received: "io_receive io dump w = Some (Inr d, w1) \<Longrightarrow> dump_calls io k dump w1 ds w2 \<Longrightarrow>
    dump_calls io k dump w (d # ds) w2"

lemma dump_calls_append:
  "dump_calls io k dump w ds w1 \<Longrightarrow> dump_calls io k dump w1 es w2 \<Longrightarrow> dump_calls io k dump w (ds @ es) w2"
  by (induction rule: dump_calls.induct) (auto intro: dump_calls.intros)

lemma receive_notification_calls:
  assumes "receive_notification nl io src = Some (r, src')" "ns_notification src = Some k"
  shows "dump_calls io k dump (ns_world src) [] (ns_world src')"
proof -
  obtain x w where rx: "io_receive io k (ns_world src) = Some (x, w)"
    using assms by (auto simp: receive_notification_def split: bind_splits)
  obtain t w1 where clock: "io_clock io w = (t, w1)" by (cases "io_clock io w")
  have "ns_world src' \<in> {w, w1}"
    using assms
    by (auto simp: receive_notification_def rx source_now_def clock Let_def split: sum.splits if_splits)
  moreover have "dump_calls io k dump w [] w1" by (rule dump_calls.clock [OF clock dump_calls.none])
  ultimately have "dump_calls io k dump w [] (ns_world src')" using dump_calls.none by auto
  then show ?thesis by (rule dump_calls.notified [OF rx])
qed

text \<open>Every round of an inventory keeps the subscription, unless it reports its loss.\<close>

lemma inventory_notification_keeps:
  assumes "inventory_notification nl io p = Some c"
  shows "case c of
      Again p' \<Rightarrow> ns_notification (pg_source p') = ns_notification (pg_source p) \<and>
        pg_links p' = pg_links p \<and> pg_total p' = pg_total p \<and>
        (\<forall>k. ns_notification (pg_source p) = Some k \<longrightarrow>
          dump_calls io k dump (ns_world (pg_source p)) [] (ns_world (pg_source p')))
    | Leave (r, src) \<Rightarrow> is_lost r \<and> ns_notification src = None"
proof -
  obtain r src where rn: "receive_notification nl io (pg_source p) = Some (r, src)"
    using assms by (auto simp: inventory_notification_def split: bind_splits)
  show ?thesis
    using assms receive_notification_keeps [OF rn] receive_notification_calls [OF rn]
    by (cases r) (auto simp: inventory_notification_def rn split: option.splits)
qed

text \<open>What reading a datagram of the dump does.\<close>

definition dump_datagram ::
    "netlink_ops \<Rightarrow> u32 \<Rightarrow> Datagram \<Rightarrow> ObservedLink list \<Rightarrow> bool \<Rightarrow> bool" where
  "dump_datagram nl sequence d found complete \<longleftrightarrow>
     \<not> dg_truncated d \<and> dg_from_kernel d \<and> dg_bytes d \<noteq> [] \<and>
     (\<exists>messages. decode_datagram nl (dg_bytes d) = Inr messages \<and>
        dump_part sequence messages found complete)"

lemma within_byte_limit:
  assumes "\<not> MAX_INVENTORY_BYTES < min n usize_max"
  shows "min n usize_max = n" "n \<le> MAX_INVENTORY_BYTES"
proof -
  have "MAX_INVENTORY_BYTES < usize_max" by (simp add: MAX_INVENTORY_BYTES_def usize_max_def)
  then show "min n usize_max = n" "n \<le> MAX_INVENTORY_BYTES"
    using assms by (auto simp: min_def split: if_splits)
qed

lemma inventory_dump_read:
  assumes "io_receive io dump (ns_world (pg_source p)) = Some (Inr d, w')"
    and "\<not> dg_truncated d" "dg_from_kernel d" "dg_bytes d \<noteq> []"
    and "\<not> MAX_INVENTORY_BYTES < min (pg_total p + length (dg_bytes d)) usize_max"
  shows "inventory_dump nl io attempt sequence dump p =
    (let src = (pg_source p)\<lparr> ns_world := w' \<rparr>
     in case consume_dump nl (dg_bytes d) sequence (pg_links p) of
          (Inr True, links) \<Rightarrow>
            Some (Leave (Inr \<lparr> inv_attempt = attempt, inv_links = links, inv_events = pg_events p \<rparr>, src))
        | (Inr False, links) \<Rightarrow>
            Some (Again (p\<lparr> pg_source := src, pg_links := links,
              pg_total := pg_total p + length (dg_bytes d) \<rparr>))
        | (Inl e, links) \<Rightarrow> Some (Leave (Inl (Ordinary e (pg_events p)), src)))"
  using assms(1-4) assms(5)
  by (simp add: inventory_dump_def Let_def within_byte_limit [OF assms(5)] del: min_less_iff_conj)

lemma inventory_dump_cases:
  assumes "inventory_dump nl io attempt sequence dump p = Some c"
  obtains
    (more) d w w' found where "io_receive io dump w = Some (Inr d, w')"
      "dump_datagram nl sequence d found False"
      "pg_total p + length (dg_bytes d) \<le> MAX_INVENTORY_BYTES"
      "c = Again (p\<lparr> pg_source := (pg_source p)\<lparr> ns_world := w' \<rparr>, pg_links := pg_links p @ found,
         pg_total := pg_total p + length (dg_bytes d) \<rparr>)" "w = ns_world (pg_source p)"
  | (complete) d w w' found where "io_receive io dump w = Some (Inr d, w')"
      "dump_datagram nl sequence d found True"
      "pg_total p + length (dg_bytes d) \<le> MAX_INVENTORY_BYTES"
      "c = Leave (Inr \<lparr> inv_attempt = attempt, inv_links = pg_links p @ found,
         inv_events = pg_events p \<rparr>, (pg_source p)\<lparr> ns_world := w' \<rparr>)" "w = ns_world (pg_source p)"
  | (failed) r w' e where "io_receive io dump (ns_world (pg_source p)) = Some (r, w')"
      "c = Leave (Inl (Ordinary e (pg_events p)), (pg_source p)\<lparr> ns_world := w' \<rparr>)"
proof -
  obtain r w' where rx: "io_receive io dump (ns_world (pg_source p)) = Some (r, w')"
    using assms by (auto simp: inventory_dump_def split: bind_splits)
  show thesis
  proof (cases r)
    case (Inl e)
    then show thesis using assms rx failed [of r w' e] by (simp add: inventory_dump_def)
  next
    case (Inr d)
    show thesis
    proof (cases "dg_truncated d \<or> \<not> dg_from_kernel d \<or> dg_bytes d = [] \<or>
        MAX_INVENTORY_BYTES < min (pg_total p + length (dg_bytes d)) usize_max")
      case True
      then show thesis
        using assms rx Inr failed by (auto simp: inventory_dump_def Let_def split: if_splits)
    next
      case False
      then have ok: "\<not> dg_truncated d" "dg_from_kernel d" "dg_bytes d \<noteq> []"
          "\<not> MAX_INVENTORY_BYTES < min (pg_total p + length (dg_bytes d)) usize_max" by auto
      obtain res links where cd: "consume_dump nl (dg_bytes d) sequence (pg_links p) = (res, links)"
        by (cases "consume_dump nl (dg_bytes d) sequence (pg_links p)")
      note eq = inventory_dump_read [OF rx [unfolded Inr] ok, of nl attempt sequence, unfolded assms cd Let_def]
      show thesis
      proof (cases res)
        case (Inl e)
        then show thesis using eq rx failed [of r w' e] by simp
      next
        case res: (Inr fin)
        obtain found where found: "dump_datagram nl sequence d found fin" "links = pg_links p @ found"
          using cd ok unfolding res consume_dump_iff dump_datagram_def by auto
        show thesis
          using eq found rx more complete within_byte_limit(2) [OF ok(4)] by (cases fin) (simp_all add: res Inr)
      qed
    qed
  qed
qed

text \<open>
  One round: it leaves with a loss and no subscription, leaves with another error, leaves with
  a complete dump, or goes on, and then with what the dump listed so far.
\<close>

lemma inventory_ready_cases:
  assumes "inventory_ready nl io attempt sequence dump ready p = Some c"
    and "ns_notification (pg_source p) = Some k"
  obtains
    (lost) e events src where "c = Leave (Inl (Lost e events), src)" "ns_notification src = None"
  | (ordinary) e events src where "c = Leave (Inl (Ordinary e events), src)"
      "ns_notification src = ns_notification (pg_source p)"
  | (complete) d found events src where
      "dump_calls io k dump (ns_world (pg_source p)) [d] (ns_world src)"
      "dump_datagram nl sequence d found True"
      "pg_total p + length (dg_bytes d) \<le> MAX_INVENTORY_BYTES"
      "c = Leave (Inr \<lparr> inv_attempt = attempt, inv_links = pg_links p @ found,
         inv_events = events \<rparr>, src)" "ns_notification src = ns_notification (pg_source p)"
  | (more) d found p' where
      "dump_calls io k dump (ns_world (pg_source p)) [d] (ns_world (pg_source p'))"
      "dump_datagram nl sequence d found False"
      "pg_total p + length (dg_bytes d) \<le> MAX_INVENTORY_BYTES"
      "c = Again p'" "ns_notification (pg_source p') = ns_notification (pg_source p)"
      "pg_links p' = pg_links p @ found" "pg_total p' = pg_total p + length (dg_bytes d)"
  | (idle) p' where "c = Again p'" "ns_notification (pg_source p') = ns_notification (pg_source p)"
      "pg_links p' = pg_links p" "pg_total p' = pg_total p"
      "dump_calls io k dump (ns_world (pg_source p)) [] (ns_world (pg_source p'))"
proof -
  obtain c1 where c1: "(if rd_notification ready then inventory_notification nl io p
        else Some (Again p)) = Some c1"
    and c: "(case c1 of Leave r \<Rightarrow> Some (Leave r)
        | Again p \<Rightarrow> if rd_dump ready then inventory_dump nl io attempt sequence dump p
            else Some (Again p)) = Some c"
    using assms by (auto simp: inventory_ready_def split: bind_splits)
  have c1_ok: "case c1 of
      Again p' \<Rightarrow> ns_notification (pg_source p') = ns_notification (pg_source p) \<and>
        pg_links p' = pg_links p \<and> pg_total p' = pg_total p \<and>
        dump_calls io k dump (ns_world (pg_source p)) [] (ns_world (pg_source p'))
    | Leave (r, src) \<Rightarrow> is_lost r \<and> ns_notification src = None"
    using c1 inventory_notification_keeps [of nl io p c1 dump] assms(2)
    by (auto split: if_splits control.splits intro: dump_calls.none)
  show thesis
  proof (cases c1)
    case (Leave x)
    obtain r src where x: "x = (r, src)" by (cases x)
    then show thesis using c c1_ok lost Leave by (cases r rule: is_lost.cases) auto
  next
    case (Again p1)
    show thesis
    proof (cases "rd_dump ready")
      case True
      note calls = dump_calls_append [of io k dump "ns_world (pg_source p)" "[]" "ns_world (pg_source p1)"]
      from True have "inventory_dump nl io attempt sequence dump p1 = Some c" using c Again by simp
      then show thesis
      proof (cases rule: inventory_dump_cases)
        case (more d w w' found)
        then show thesis
          using c1_ok Again calls dump_calls.received [OF more(1) dump_calls.none]
          by (intro that(4) [OF _ more(2) _ more(4)]) auto
      next
        case (complete d w w' found)
        have "pg_links p1 = pg_links p" using c1_ok Again by simp
        with complete show thesis
          using c1_ok Again calls dump_calls.received [OF complete(1) dump_calls.none]
          by (intro that(3) [OF _ complete(2) _ complete(4) [unfolded \<open>pg_links p1 = pg_links p\<close>]]) auto
      qed (use c1_ok Again ordinary in auto)
    next
      case False
      then show thesis using c c1_ok Again idle by auto
    qed
  qed
qed

lemma inventory_round_cases:
  assumes "inventory_round nl io attempt sequence dump deadline p = Some c"
    and k: "ns_notification (pg_source p) = Some k"
  obtains
    (lost) e events src where "c = Leave (Inl (Lost e events), src)" "ns_notification src = None"
  | (ordinary) e events src where "c = Leave (Inl (Ordinary e events), src)"
      "ns_notification src = ns_notification (pg_source p)"
  | (complete) d found events src where
      "dump_calls io k dump (ns_world (pg_source p)) [d] (ns_world src)"
      "dump_datagram nl sequence d found True"
      "pg_total p + length (dg_bytes d) \<le> MAX_INVENTORY_BYTES"
      "c = Leave (Inr \<lparr> inv_attempt = attempt, inv_links = pg_links p @ found,
         inv_events = events \<rparr>, src)" "ns_notification src = ns_notification (pg_source p)"
  | (more) d found p' where
      "dump_calls io k dump (ns_world (pg_source p)) [d] (ns_world (pg_source p'))"
      "dump_datagram nl sequence d found False"
      "pg_total p + length (dg_bytes d) \<le> MAX_INVENTORY_BYTES"
      "c = Again p'" "ns_notification (pg_source p') = ns_notification (pg_source p)"
      "pg_links p' = pg_links p @ found" "pg_total p' = pg_total p + length (dg_bytes d)"
  | (idle) p' where "c = Again p'" "ns_notification (pg_source p') = ns_notification (pg_source p)"
      "pg_links p' = pg_links p" "pg_total p' = pg_total p"
      "dump_calls io k dump (ns_world (pg_source p)) [] (ns_world (pg_source p'))"
proof -
  obtain t w where clock: "io_clock io (ns_world (pg_source p)) = (t, w)"
    by (cases "io_clock io (ns_world (pg_source p))")
  let ?src = "(pg_source p)\<lparr> ns_world := w \<rparr>"
  let ?remaining = "saturating_sub deadline t"
  show thesis
  proof (cases "?remaining = 0")
    case True
    then show thesis
      using assms(1) k by (intro ordinary [of _ _ ?src]) (auto simp: inventory_round_def clock)
  next
    case False
    then obtain r w1 where wait: "io_wait io k (Some dump) ?remaining w = Some (r, w1)"
      using assms(1) k by (auto simp: inventory_round_def clock split: bind_splits)
    let ?src1 = "(pg_source p)\<lparr> ns_world := w1 \<rparr>"
    note round = inventory_round_def clock k False wait Let_def
    consider e events where "c = Leave (Inl (Lost e events), set_notification io None ?src1)"
      | e events where "c = Leave (Inl (Ordinary e events), ?src1)"
      | ready where "inventory_ready nl io attempt sequence dump ready (p\<lparr> pg_source := ?src1 \<rparr>) = Some c"
      using assms(1) by (cases r) (auto simp: round split: if_splits)
    then show thesis
    proof cases
      case 3
      have enter: "dump_calls io k dump (ns_world (pg_source p)) ds v" if "dump_calls io k dump w1 ds v" for ds v
        using that by (intro dump_calls.clock [OF clock] dump_calls.waited [OF wait])
      have "ns_notification (pg_source (p\<lparr> pg_source := ?src1 \<rparr>)) = Some k" using k by simp
      from 3 this show thesis using that k by (cases rule: inventory_ready_cases) (auto dest!: enter)
    qed (use k lost ordinary in auto)
  qed
qed

text \<open>
  The dump an inventory is made of: datagrams of the kernel, whole, within the byte limit, each a
  part of the answer to the request, the last one and only the last one completing it.
\<close>

definition dump_so_far :: "netlink_ops \<Rightarrow> u32 \<Rightarrow> Datagram list \<Rightarrow> ObservedLink list \<Rightarrow> bool" where
  "dump_so_far nl sequence ds links \<longleftrightarrow>
     (\<exists>founds. list_all2 (\<lambda>d found. dump_datagram nl sequence d found False) ds founds \<and>
        links = concat founds)"

definition whole_dump :: "netlink_ops \<Rightarrow> u32 \<Rightarrow> Datagram list \<Rightarrow> ObservedLink list \<Rightarrow> bool" where
  "whole_dump nl sequence ds links \<longleftrightarrow>
     (\<exists>ds' d links' found. ds = ds' @ [d] \<and> links = links' @ found \<and>
        dump_so_far nl sequence ds' links' \<and> dump_datagram nl sequence d found True) \<and>
     sum_list (map (length \<circ> dg_bytes) ds) \<le> MAX_INVENTORY_BYTES"

text \<open>
  The exchange that gives it, between two worlds: a socket is opened, the request is sent on it,
  and from then on the socket delivers exactly the datagrams of the dump.
\<close>

definition dump_exchange ::
    "netlink_ops \<Rightarrow> ('k, 'w) io_ops \<Rightarrow> 'k \<Rightarrow> 'k \<Rightarrow> u32 \<Rightarrow> 'w \<Rightarrow> Datagram list \<Rightarrow> 'w \<Rightarrow> bool" where
  "dump_exchange nl io k dump sequence w ds w' \<longleftrightarrow> (\<exists>w1 w2.
     io_open io 0 w = (Inr dump, w1) \<and>
     io_send io dump (dump_request nl sequence) w1 = Some (Inr (), w2) \<and>
     dump_calls io k dump w2 ds w')"

lemma dump_so_far_Nil: "dump_so_far nl sequence [] []"
  by (simp add: dump_so_far_def)

lemma dump_so_far_snoc:
  assumes "dump_so_far nl sequence ds links" "dump_datagram nl sequence d found False"
  shows "dump_so_far nl sequence (ds @ [d]) (links @ found)"
proof -
  from assms(1) obtain founds where f: "list_all2 (\<lambda>d found. dump_datagram nl sequence d found False) ds founds"
      "links = concat founds" unfolding dump_so_far_def by blast
  show ?thesis
    unfolding dump_so_far_def
  proof (intro conjI exI [of _ "founds @ [found]"])
    show "list_all2 (\<lambda>d found. dump_datagram nl sequence d found False) (ds @ [d]) (founds @ [found])"
      using f(1) assms(2) by (simp add: list_all2_appendI)
  qed (use f(2) in simp)
qed

lemma inventory_loop_result:
  assumes "loop (inventory_round nl io attempt sequence dump deadline)
      \<lparr> pg_source = src, pg_events = no_events, pg_links = [], pg_total = 0 \<rparr> = Some (r, src')"
    and "ns_notification src = Some k"
  shows "(ns_notification src' \<noteq> None \<longleftrightarrow> \<not> is_lost r) \<and>
    (\<forall>iv. r = Inr iv \<longrightarrow> inv_attempt iv = attempt \<and>
       (\<exists>ds. dump_calls io k dump (ns_world src) ds (ns_world src') \<and> whole_dump nl sequence ds (inv_links iv)))"
proof -
  let ?P = "\<lambda>p. ns_notification (pg_source p) = Some k \<and>
    (\<exists>ds. dump_calls io k dump (ns_world src) ds (ns_world (pg_source p)) \<and>
       dump_so_far nl sequence ds (pg_links p) \<and> pg_total p = sum_list (map (length \<circ> dg_bytes) ds))"
  let ?Q = "\<lambda>(r, src'). (ns_notification src' \<noteq> None \<longleftrightarrow> \<not> is_lost r) \<and>
    (\<forall>iv. r = Inr iv \<longrightarrow> inv_attempt iv = attempt \<and>
       (\<exists>ds. dump_calls io k dump (ns_world src) ds (ns_world src') \<and> whole_dump nl sequence ds (inv_links iv)))"
  from assms(1) have "?Q (r, src')"
  proof (rule loop_invariant [where P = ?P and Q = ?Q])
    show "?P \<lparr> pg_source = src, pg_events = no_events, pg_links = [], pg_total = 0 \<rparr>"
      using assms(2) dump_so_far_Nil dump_calls.none by (auto intro!: exI [of _ "[]"])
  next
    fix p p' assume P: "?P p" and step: "inventory_round nl io attempt sequence dump deadline p = Some (Again p')"
    from P obtain ds where ds: "dump_calls io k dump (ns_world src) ds (ns_world (pg_source p))"
        "dump_so_far nl sequence ds (pg_links p)" "pg_total p = sum_list (map (length \<circ> dg_bytes) ds)"
      by blast
    from step conjunct1 [OF P] show "?P p'"
    proof (cases rule: inventory_round_cases)
      case (more d found p'')
      then show ?thesis
        using P ds dump_so_far_snoc [OF ds(2) more(2)] dump_calls_append [OF ds(1) more(1)]
        by (auto intro!: exI [of _ "ds @ [d]"])
    next
      case (idle p'')
      then show ?thesis
        using P ds dump_calls_append [OF ds(1), of "[]"] by (auto intro!: exI [of _ ds])
    qed simp_all
  next
    fix p x assume P: "?P p" and step: "inventory_round nl io attempt sequence dump deadline p = Some (Leave x)"
    from P obtain ds where ds: "dump_calls io k dump (ns_world src) ds (ns_world (pg_source p))"
        "dump_so_far nl sequence ds (pg_links p)" "pg_total p = sum_list (map (length \<circ> dg_bytes) ds)"
      by blast
    from step conjunct1 [OF P] show "?Q x"
    proof (cases rule: inventory_round_cases)
      case (complete d found events src'')
      have "whole_dump nl sequence (ds @ [d]) (pg_links p @ found)"
        unfolding whole_dump_def using complete ds by auto
      then show ?thesis using complete P dump_calls_append [OF ds(1) complete(1)] by auto
    qed (use P in auto)
  qed
  then show ?thesis by simp
qed

lemma next_sequence_frame [simp]:
  "ns_notification (snd (next_sequence src)) = ns_notification src"
  "ns_world (snd (next_sequence src)) = ns_world src"
  "ns_origin (snd (next_sequence src)) = ns_origin src"
  "ns_sequence (snd (next_sequence src)) = fst (next_sequence src)"
  by (simp_all add: next_sequence_def Let_def)

text \<open>The four ways an inventory ends, from the opening of the dump socket on.\<close>

lemma source_inventory_cases:
  assumes "source_inventory nl io attempt src = Some (r, src')"
  obtains
    (unopened) e w where "io_open io 0 (ns_world src) = (Inl e, w)"
      "r = Inl (Ordinary e no_events)" "src' = src\<lparr> ns_world := w \<rparr>"
  | (unsent) dump w e w1 src1 where "io_open io 0 (ns_world src) = (Inr dump, w)"
      "src1 = (snd (next_sequence src))\<lparr> ns_world := w1 \<rparr>"
      "io_send io dump (dump_request nl (fst (next_sequence src))) w = Some (Inl e, w1)"
      "r = Inl (Ordinary e no_events)" "src' = src1\<lparr> ns_world := io_drop io dump w1 \<rparr>"
  | (looped) dump w w1 t w2 src2 where "io_open io 0 (ns_world src) = (Inr dump, w)"
      "io_send io dump (dump_request nl (fst (next_sequence src))) w = Some (Inr (), w1)"
      "io_clock io w1 = (t, w2)"
      "loop (inventory_round nl io attempt (fst (next_sequence src)) dump (t + INVENTORY_TIMEOUT))
         \<lparr> pg_source = (snd (next_sequence src))\<lparr> ns_world := w2 \<rparr>, pg_events = no_events,
           pg_links = [], pg_total = 0 \<rparr> = Some (r, src2)"
      "src' = src2\<lparr> ns_world := io_drop io dump (ns_world src2) \<rparr>"
proof -
  obtain opened w where op: "io_open io 0 (ns_world src) = (opened, w)" by (cases "io_open io 0 (ns_world src)")
  show thesis
  proof (cases opened)
    case (Inl e)
    then show thesis using assms op unopened by (auto simp: source_inventory_def)
  next
    case (Inr dump)
    have ns: "next_sequence (src\<lparr> ns_world := w \<rparr>) =
        (fst (next_sequence src), (snd (next_sequence src))\<lparr> ns_world := w \<rparr>)"
      by (simp add: next_sequence_def Let_def)
    obtain sent w1 where send:
      "io_send io dump (dump_request nl (fst (next_sequence src))) w = Some (sent, w1)"
      using assms by (auto simp: source_inventory_def op Inr ns split: bind_splits)
    show thesis
    proof (cases sent)
      case sent: (Inl e)
      show thesis
        by (rule unsent) (use assms op Inr send sent in \<open>auto simp: source_inventory_def ns\<close>)
    next
      case sent: (Inr u)
      obtain t w2 where clock: "io_clock io w1 = (t, w2)" by (cases "io_clock io w1")
      obtain x src2 where l: "loop (inventory_round nl io attempt (fst (next_sequence src)) dump
            (t + INVENTORY_TIMEOUT))
         \<lparr> pg_source = (snd (next_sequence src))\<lparr> ns_world := w2 \<rparr>, pg_events = no_events,
           pg_links = [], pg_total = 0 \<rparr> = Some (x, src2)"
        using assms by (auto simp: source_inventory_def op Inr ns send sent clock split: bind_splits)
      show thesis
      proof (rule looped)
        show "src' = src2\<lparr> ns_world := io_drop io dump (ns_world src2) \<rparr>"
          using assms by (simp add: source_inventory_def op Inr ns send sent clock l)
        show "loop (inventory_round nl io attempt (fst (next_sequence src)) dump (t + INVENTORY_TIMEOUT))
         \<lparr> pg_source = (snd (next_sequence src))\<lparr> ns_world := w2 \<rparr>, pg_events = no_events,
           pg_links = [], pg_total = 0 \<rparr> = Some (r, src2)"
          using assms l by (simp add: source_inventory_def op Inr ns send sent clock)
      qed (use op Inr send sent clock in simp_all)
    qed
  qed
qed

lemma source_inventory_keeps:
  assumes "source_inventory nl io attempt src = Some (r, src')" "ns_notification src \<noteq> None"
  shows "ns_notification src' \<noteq> None \<longleftrightarrow> \<not> is_lost r"
  using assms(1)
proof (cases rule: source_inventory_cases)
  case (looped dump w w1 t w2 src2)
  from assms(2) obtain k where "ns_notification src = Some k" by blast
  then show ?thesis using inventory_loop_result [OF looped(4), of k] looped(5) by simp
qed (use assms(2) in simp_all)

text \<open>The contract does not depend on the datagrams: it holds over any \<open>DatagramIo\<close>.\<close>

lemma inventory_round_attempt:
  assumes "inventory_round nl io attempt sequence dump deadline p = Some (Leave (Inr iv, src'))"
  shows "inv_attempt iv = attempt"
proof (cases "ns_notification (pg_source p) = None")
  case True
  then show ?thesis
    using assms by (auto simp: inventory_round_def Let_def split: if_splits prod.splits)
next
  case False
  then obtain k where "ns_notification (pg_source p) = Some k" by blast
  with assms show ?thesis by (cases rule: inventory_round_cases) simp_all
qed

lemma inventory_loop_attempt:
  assumes "loop (inventory_round nl io attempt sequence dump deadline) p = Some x"
  shows "\<forall>iv. fst x = Inr iv \<longrightarrow> inv_attempt iv = attempt"
  using assms
proof (rule loop_invariant [where P = "\<lambda>_. True"])
  fix p x assume "inventory_round nl io attempt sequence dump deadline p = Some (Leave x)"
  then show "\<forall>iv. fst x = Inr iv \<longrightarrow> inv_attempt iv = attempt"
    by (cases x) (auto intro: inventory_round_attempt)
qed simp_all

lemma source_inventory_attempt:
  assumes "source_inventory nl io attempt src = Some (Inr iv, src')"
  shows "inv_attempt iv = attempt"
  using assms
proof (cases rule: source_inventory_cases)
  case (looped dump w w1 t w2 src2)
  show ?thesis using inventory_loop_attempt [OF looped(4)] by simp
qed simp_all

lemma source_wait_keeps:
  assumes "source_wait nl io timeout src = Some (r, src')"
  shows "(ns_notification src' \<noteq> None \<longleftrightarrow> ns_notification src \<noteq> None \<and> (\<exists>x. r = Inr x)) \<and> r \<noteq> Inr Shutdown"
proof (cases "ns_notification src")
  case None
  then show ?thesis using assms by (auto simp: source_wait_def)
next
  case (Some k)
  obtain x w where wait: "io_wait io k None timeout (ns_world src) = Some (x, w)"
    using assms by (auto simp: source_wait_def Some split: bind_splits)
  let ?src = "src\<lparr> ns_world := w \<rparr>"
  show ?thesis
  proof (cases x)
    case (Inl e)
    then show ?thesis using assms by (auto simp: source_wait_def Some wait)
  next
    case (Inr ready)
    show ?thesis
    proof (cases "rd_notification_failed ready \<or> \<not> rd_notification ready")
      case True
      then show ?thesis using assms by (auto simp: source_wait_def Some wait Inr Let_def split: if_splits)
    next
      case False
      then obtain at src1 where rn: "receive_notification nl io ?src = Some (at, src1)"
        using assms by (auto simp: source_wait_def Some wait Inr Let_def split: bind_splits)
      have "ns_notification src1 = Some k" using receive_notification_keeps [OF rn] Some by simp
      then show ?thesis
        using assms False
        by (cases at) (auto simp: source_wait_def Some wait Inr Let_def rn split: option.splits)
    qed
  qed
qed

interpretation netlink: acquisition "netlink_source nl io" "\<lambda>src. ns_notification src \<noteq> None"
proof
  fix src show "(ns_notification (snd (acq_now (netlink_source nl io) src)) \<noteq> None) = (ns_notification src \<noteq> None)"
    by (simp add: netlink_source_def)
next
  fix src r src' assume "acq_subscribe (netlink_source nl io) src = Some (r, src')"
  then show "(ns_notification src' \<noteq> None) = (ns_notification src \<noteq> None \<or> r = Inr ())"
    by (auto simp: netlink_source_def source_subscribe_def split: prod.splits sum.splits)
next
  fix src a r src' assume "ns_notification src \<noteq> None" "acq_inventory (netlink_source nl io) a src = Some (r, src')"
  then show "(ns_notification src' \<noteq> None) = (\<not> is_lost r)"
    using source_inventory_keeps [of nl io a src r src'] by (simp add: netlink_source_def)
next
  fix src a iv src' assume "acq_inventory (netlink_source nl io) a src = Some (Inr iv, src')"
  then show "inv_attempt iv = a" by (simp add: netlink_source_def source_inventory_attempt)
next
  fix src d w src' assume "acq_wait (netlink_source nl io) d src = Some (w, src')"
  then show "(ns_notification src' \<noteq> None) = (ns_notification src \<noteq> None \<and> (\<exists>x. w = Inr x))" "w \<noteq> Inr Shutdown"
    using source_wait_keeps [of nl io d src w src'] by (simp_all add: netlink_source_def)
qed

text \<open>An answer that fits one datagram and arrives before anything else is the inventory.\<close>

lemma inventory_answered:
  assumes "ns_notification src = Some k" "io_open io 0 (ns_world src) = (Inr dump, w)"
    and "io_send io dump (dump_request nl (fst (next_sequence src))) w = Some (Inr (), w1)"
    and "io_clock io w1 = (t, w2)" "io_clock io w2 = (t', w3)" "t' < t + INVENTORY_TIMEOUT"
    and "io_wait io k (Some dump) (t + INVENTORY_TIMEOUT - t') w3 = Some (Inr
      \<lparr> rd_notification = False, rd_dump = True, rd_notification_failed = False, rd_dump_failed = False \<rparr>, w4)"
    and "io_receive io dump w4 = Some (Inr d, w5)" "length (dg_bytes d) \<le> MAX_INVENTORY_BYTES"
    and "dump_datagram nl (fst (next_sequence src)) d found True"
  shows "source_inventory nl io attempt src = Some (Inr \<lparr> inv_attempt = attempt, inv_links = found,
    inv_events = no_events \<rparr>, (snd (next_sequence src))\<lparr> ns_world := io_drop io dump w5 \<rparr>)"
proof -
  let ?n = "fst (next_sequence src)"
  have ns: "next_sequence (src\<lparr> ns_world := w \<rparr>) = (?n, (snd (next_sequence src))\<lparr> ns_world := w \<rparr>)" for w
    by (simp add: next_sequence_def Let_def)
  have limit: "min (length (dg_bytes d)) usize_max \<le> MAX_INVENTORY_BYTES" using assms(9) by simp
  have cd: "consume_dump nl (dg_bytes d) ?n [] = (Inr True, found)"
    using assms(10) unfolding consume_dump_iff by (auto simp: dump_datagram_def)
  have d: "\<not> dg_truncated d" "dg_from_kernel d" "dg_bytes d \<noteq> []"
    using assms(10) by (auto simp: dump_datagram_def)
  have "inventory_round nl io attempt ?n dump (t + INVENTORY_TIMEOUT)
     \<lparr> pg_source = (snd (next_sequence src))\<lparr> ns_world := w2 \<rparr>, pg_events = no_events,
       pg_links = [], pg_total = 0 \<rparr> =
     Some (Leave (Inr \<lparr> inv_attempt = attempt, inv_links = found, inv_events = no_events \<rparr>,
       (snd (next_sequence src))\<lparr> ns_world := w5 \<rparr>))"
    using assms(1,5-8) limit d
    by (simp add: inventory_round_def inventory_ready_def saturating_sub_def inventory_dump_def Let_def cd
        not_less [symmetric] del: min_less_iff_conj)
  then show ?thesis
    by (simp add: source_inventory_def assms(2-4) ns loop_leaves)
qed

section \<open>A batch of events loses nothing\<close>

text \<open>
  While an event deadline is pending, a further event within a minute of the last one only moves
  the time of the last event.
\<close>

lemma record_event_pending_near:
  assumes "last_event s = Some prev" "event_deadline s \<noteq> None" "at - prev < EVENT_RESET"
  shows "record_event at s = s\<lparr> last_event := Some at \<rparr>"
  using assms by (auto simp: record_event_def Let_def saturating_sub_def)

lemma record_events_pending_near:
  assumes "sorted (at # ats)" "last (at # ats) - at < EVENT_RESET"
    and "last_event s = Some at" "event_deadline s \<noteq> None"
  shows "fold record_event ats s = s\<lparr> last_event := Some (last (at # ats)) \<rparr>"
  using assms
proof (induction ats arbitrary: at s)
  case Nil
  then show ?case by simp
next
  case (Cons b ats)
  have between: "at \<le> b" "b \<le> last (b # ats)" using Cons.prems(1) by auto
  have near: "b - at < EVENT_RESET" "last (b # ats) - b < EVENT_RESET"
    using between Cons.prems(2) by simp_all
  have "fold record_event (b # ats) s = fold record_event ats (s\<lparr> last_event := Some b \<rparr>)"
    using record_event_pending_near [OF Cons.prems(3,4) near(1)] by simp
  also have "\<dots> = s\<lparr> last_event := Some (last (b # ats)) \<rparr>"
    using Cons.IH [of b "s\<lparr> last_event := Some b \<rparr>"] Cons.prems near(2) by simp
  finally show ?case by simp
qed

lemma fold_note_event:
  "batch_first b \<noteq> None \<Longrightarrow> fold note_event ats b =
     \<lparr> batch_first = batch_first b, batch_last = (if ats = [] then batch_last b else Some (last ats)) \<rparr>"
  by (induction ats arbitrary: b) (auto simp: note_event_def)

lemma fold_note_event_from_none:
  "fold note_event (at # ats) no_events = \<lparr> batch_first = Some at, batch_last = Some (last (at # ats)) \<rparr>"
proof -
  have "note_event at no_events = \<lparr> batch_first = Some at, batch_last = Some at \<rparr>"
    by (simp add: note_event_def no_events_def)
  then show ?thesis by (simp add: fold_note_event)
qed

lemma event_pending_after [simp]: "event_deadline (record_event at s) \<noteq> None"
  by (simp add: record_event_def Let_def split: option.split)

text \<open>
  C25. The first and the last time of a batch say everything: an inventory that noted any number of
  events, in order and within less than a minute, leaves the scheduling state exactly as if
  every one of the events had been recorded on its own.
\<close>

theorem batch_lossless:
  assumes "sorted ats" "ats \<noteq> []" "last ats - hd ats < EVENT_RESET"
  shows "record_batch (fold note_event ats no_events) s = (Inr (), fold record_event ats s)"
proof -
  obtain at rest where ats: "ats = at # rest" using assms(2) by (cases ats) auto
  have le: "at \<le> last (at # rest)" using assms(1) ats by auto
  let ?s = "record_event at s"
  have all: "fold record_event ats s = ?s\<lparr> last_event := Some (last (at # rest)) \<rparr>"
    using record_events_pending_near [of at rest ?s] assms ats by simp
  have same: "?s\<lparr> last_event := Some at \<rparr> = ?s" by (simp add: record_event_def Let_def split: option.split)
  have till: "record_event (last (at # rest)) ?s = ?s\<lparr> last_event := Some (last (at # rest)) \<rparr>"
    by (rule record_event_pending_near) (use assms ats in simp_all)
  show ?thesis
    using le assms(3) till same unfolding all unfolding ats fold_note_event_from_none
    by (auto simp: record_batch_def Let_def simp del: last.simps)
qed

lemma batch_lossless_witness:
  "record_batch (fold note_event [from_secs 1, from_secs 2, from_secs 4] no_events) (new_state (from_secs 9)) =
     (Inr (), fold record_event [from_secs 1, from_secs 2, from_secs 4] (new_state (from_secs 9)))"
  by (rule batch_lossless) (simp_all add: from_secs_def nanos_per_sec_def EVENT_RESET_def)

section \<open>What an inventory holds\<close>

lemma detached_inventory_fails:
  assumes "loop (inventory_round nl io attempt sequence dump deadline) p = Some (r, src')"
    and "ns_notification (pg_source p) = None"
  shows "\<exists>e. r = Inl e"
proof -
  obtain t w where clock: "io_clock io (ns_world (pg_source p)) = (t, w)"
    by (cases "io_clock io (ns_world (pg_source p))")
  have "\<exists>e src. inventory_round nl io attempt sequence dump deadline p = Some (Leave (Inl e, src))"
    using assms(2) by (simp add: inventory_round_def clock Let_def)
  then show ?thesis using assms(1) by (auto simp: loop_leaves)
qed

lemma inventory_dumped:
  assumes "source_inventory nl io attempt src = Some (Inr iv, src')"
  shows "\<exists>k dump ds w. ns_notification src = Some k \<and>
    dump_exchange nl io k dump (fst (next_sequence src)) (ns_world src) ds w \<and>
    whole_dump nl (fst (next_sequence src)) ds (inv_links iv) \<and> ns_world src' = io_drop io dump w"
  using assms
proof (cases rule: source_inventory_cases)
  case (looped dump w w1 t w2 src2)
  let ?src = "(snd (next_sequence src))\<lparr> ns_world := w2 \<rparr>"
  obtain k where k: "ns_notification src = Some k" using detached_inventory_fails [OF looped(4)] by auto
  then obtain ds where ds: "dump_calls io k dump w2 ds (ns_world src2)"
      "whole_dump nl (fst (next_sequence src)) ds (inv_links iv)"
    using inventory_loop_result [OF looped(4), of k] by auto
  have "dump_exchange nl io k dump (fst (next_sequence src)) (ns_world src) ds (ns_world src2)"
    unfolding dump_exchange_def using looped(1,2) dump_calls.clock [OF looped(3) ds(1)] by blast
  then show ?thesis using k ds(2) looped(5) by auto
qed simp_all

text \<open>
  The sequence number of a request is never zero, so no answer can be taken for a notification
  (they carry zero) or the other way round, and differs from the previous one.
\<close>

lemma next_sequence_fresh:
  "fst (next_sequence src) \<noteq> 0 \<and> fst (next_sequence src) \<noteq> ns_sequence src \<and>
   ns_sequence (snd (next_sequence src)) = fst (next_sequence src)"
proof -
  have "ns_sequence src + 1 \<noteq> ns_sequence src" by simp
  moreover have "ns_sequence src \<noteq> 1" if "ns_sequence src + 1 = 0"
  proof
    assume "ns_sequence src = 1"
    then have "(2 :: u32) = 0" using that by simp
    then show False by simp
  qed
  ultimately show ?thesis by (auto simp: next_sequence_def Let_def)
qed

text \<open>The sequence numbers run through all values but zero, and the source remembers the last.\<close>

lemma next_sequence_counts:
  "unat (fst (next_sequence src)) =
     (if unat (ns_sequence src) = 2 ^ 32 - 1 then 1 else unat (ns_sequence src) + 1)"
proof -
  have last: "unat (- 1 :: u32) = 2 ^ 32 - 1" by (simp add: unsigned_minus_1_eq_mask mask_eq_exp_minus_1)
  show ?thesis
  proof (cases "ns_sequence src = - 1")
    case True
    then show ?thesis by (simp only: next_sequence_def Let_def True) (simp add: last)
  next
    case False
    then have "unat (ns_sequence src) \<noteq> 2 ^ 32 - 1" by (metis last word_unat_eq_iff)
    moreover have "ns_sequence src + 1 \<noteq> 0" using False by (simp add: add_eq_0_iff2)
    ultimately show ?thesis by (simp add: next_sequence_def Let_def unatSuc add.commute)
  qed
qed

lemma receive_notification_sequence:
  assumes "receive_notification nl io src = Some (r, src')"
  shows "ns_sequence src' = ns_sequence src"
  using assms source_now_frame(3) [of io]
  by (auto simp: receive_notification_def source_now_def Let_def split: option.splits bind_splits
      sum.splits prod.splits if_splits)

lemma inventory_round_sequence:
  assumes "inventory_round nl io attempt sequence dump deadline p = Some c"
  shows "ns_sequence (case c of Again p' \<Rightarrow> pg_source p' | Leave x \<Rightarrow> snd x) = ns_sequence (pg_source p)"
proof -
  have notification: "ns_sequence (case c of Again p' \<Rightarrow> pg_source p' | Leave x \<Rightarrow> snd x) = ns_sequence (pg_source p)"
    if "inventory_notification nl io p = Some c" for p and c :: "(('a, 'b) progress, ('a, 'b) acquired) control"
    using that receive_notification_sequence [of nl io "pg_source p"]
    by (auto simp: inventory_notification_def split: bind_splits sum.splits option.splits)
  have datagram: "ns_sequence (case c of Again p' \<Rightarrow> pg_source p' | Leave x \<Rightarrow> snd x) = ns_sequence (pg_source p)"
    if "inventory_dump nl io attempt sequence dump p = Some c" for p and c :: "(('a, 'b) progress, ('a, 'b) acquired) control"
    using that by (auto simp: inventory_dump_def Let_def split: bind_splits sum.splits if_splits prod.splits bool.splits)
  have ready: "ns_sequence (case c of Again p' \<Rightarrow> pg_source p' | Leave x \<Rightarrow> snd x) = ns_sequence (pg_source p)"
    if "inventory_ready nl io attempt sequence dump ready p = Some c" for ready p c
    using that notification [of p] datagram
    by (fastforce simp: inventory_ready_def split: bind_splits control.splits if_splits)
  show ?thesis
    using assms ready
    by (fastforce simp: inventory_round_def Let_def split: bind_splits prod.splits option.splits sum.splits if_splits)
qed

lemma source_inventory_sequence:
  assumes "source_inventory nl io attempt src = Some (Inr iv, src')"
  shows "ns_sequence src' = fst (next_sequence src)"
  using assms
proof (cases rule: source_inventory_cases)
  case (looped dump w w1 t w2 src2)
  have "ns_sequence (snd (Inr iv :: AcquisitionError + Inventory, src2)) = fst (next_sequence src)"
    using looped(4)
    by (rule loop_invariant [where P = "\<lambda>p. ns_sequence (pg_source p) = fst (next_sequence src)"])
      (use inventory_round_sequence [of nl io attempt "fst (next_sequence src)" dump "t + INVENTORY_TIMEOUT"]
       in fastforce)+
  then show ?thesis using looped(5) by simp
qed simp_all

text \<open>
  C24. A successful inventory is one complete dump: the source opened a socket for it, sent on
  it a request with a fresh sequence number, and all that the socket delivered in this call were
  untruncated datagrams of the kernel, within the byte limit, that are the parts of the answer to
  this request, up to the one that completes it. Between them the source only looked at the
  clock, waited and read its notification socket. The links of the inventory are exactly the ones
  the datagrams list, in order, and the socket is dropped. The sequence number is the one after
  that of the previous request, which the source remembers; after the last it is one again, so it
  is never the zero of a notification, and no two of 4294967295 requests in a row share one.
\<close>

theorem inventory_whole_dump:
  assumes "source_inventory nl io attempt src = Some (Inr iv, src')"
  shows "\<exists>k dump ds w sequence. ns_notification src = Some k \<and>
    dump_exchange nl io k dump sequence (ns_world src) ds w \<and>
    whole_dump nl sequence ds (inv_links iv) \<and> ns_world src' = io_drop io dump w \<and>
    unat sequence = (if unat (ns_sequence src) = 2 ^ 32 - 1 then 1 else unat (ns_sequence src) + 1) \<and>
    ns_sequence src' = sequence"
  using inventory_dumped [OF assms] next_sequence_counts [of src] source_inventory_sequence [OF assms] by blast

text \<open>
  The scenario of the witness: a codec that reads the kind of a message, its sequence number and
  the index of its link from one byte each, and sockets that answer with one datagram.
\<close>

definition demo_codec :: netlink_ops where
  "demo_codec = \<lparr>
     nl_deserialize = (\<lambda>f. Inr \<lparr> nl_flags = 0, nl_sequence = ucast (f ! 8),
       nl_payload = (if f ! 4 = 3 then Done 0
         else InnerMessage (NewLink \<lparr> lm_index = ucast (f ! 12), lm_attributes = [IfName ''eth0''] \<rparr>)) \<rparr>),
     nl_serialize = (\<lambda>m. replicate 16 0),
     nl_default_link = \<lparr> lm_index = 0, lm_attributes = [] \<rparr>,
     nl_order = LittleEndian \<rparr>"

definition demo_frame :: "u8 \<Rightarrow> u8 \<Rightarrow> u8 list" where
  "demo_frame kind index = [16, 0, 0, 0, kind, 0, 0, 0, 1, 0, 0, 0, index, 0, 0, 0]"

definition demo_datagram :: Datagram where
  "demo_datagram = \<lparr> dg_bytes = demo_frame 16 7 @ demo_frame 3 0, dg_from_kernel = True,
     dg_truncated = False \<rparr>"

definition demo_io :: "(nat, nat) io_ops" where
  "demo_io = \<lparr> io_open = (\<lambda>groups w. (Inr w, w + 1)), io_send = (\<lambda>k bytes w. Some (Inr (), w)),
     io_wait = (\<lambda>k dump d w. Some (Inr \<lparr> rd_notification = False, rd_dump = True,
       rd_notification_failed = False, rd_dump_failed = False \<rparr>, w + 1)),
     io_receive = (\<lambda>k w. Some (Inr demo_datagram, w)), io_drop = (\<lambda>k w. w),
     io_clock = (\<lambda>w. (w, w)), io_sleep = (\<lambda>d w. w + d) \<rparr>"

lemma demo_dump_datagram: "dump_datagram demo_codec 1 demo_datagram [plain 7 ''eth0''] True"
proof -
  have framed: "framed demo_codec (demo_frame 16 7 @ [] @ demo_frame 3 0) [demo_frame 16 7, demo_frame 3 0]"
  proof (intro framed.padded framed.unpadded)
    have len: "length (demo_frame kind index) = 16" for kind index by (simp add: demo_frame_def)
    show "frame demo_codec (demo_frame 16 7)" "frame demo_codec (demo_frame 3 0)"
      unfolding frame_def len
      by (simp_all add: demo_frame_def message_length_def demo_codec_def
          NETLINK_HEADER_LENGTH_def u32_from_be_bytes_def)
    show "4 dvd length (demo_frame 16 7 @ [])" by (simp add: len)
  qed simp
  define ms where "ms =
    [\<lparr> nl_flags = 0, nl_sequence = 1, nl_payload = InnerMessage (NewLink
         \<lparr> lm_index = 7, lm_attributes = [IfName ''eth0''] \<rparr>) \<rparr>,
     \<lparr> nl_flags = 0, nl_sequence = 1, nl_payload = Done 0 \<rparr>]"
  have "list_all2 (decoded_as demo_codec) [demo_frame 16 7, demo_frame 3 0] ms"
    by (simp add: decoded_as_def demo_codec_def demo_frame_def ms_def)
  with framed have "decode_datagram demo_codec (demo_frame 16 7 @ demo_frame 3 0) = Inr ms"
    using decode_from_frames [of 0 "demo_frame 16 7 @ demo_frame 3 0" demo_codec "[]" ms]
    by (auto simp: decode_datagram_def)
  moreover have "decode_link \<lparr> lm_index = 7, lm_attributes = [IfName ''eth0''] \<rparr> = Inr (plain 7 ''eth0'')"
    by (simp add: decode_link_def empty_slots_def set_once_def plain_def of_kind_def)
  then have "dump_part 1 ms [plain 7 ''eth0''] True"
    by (simp add: ms_def dump_part_link dump_part_other answers_def)
  ultimately show ?thesis
    by (auto simp: dump_datagram_def demo_datagram_def demo_frame_def)
qed

lemma inventory_whole_dump_witness:
  "\<exists>src' dump ds. source_inventory demo_codec demo_io (Attempt 4)
      \<lparr> ns_notification = Some 0, ns_origin = 0, ns_sequence = 0, ns_world = 5 \<rparr> =
        Some (Inr \<lparr> inv_attempt = Attempt 4, inv_links = [plain 7 ''eth0''], inv_events = no_events \<rparr>, src') \<and>
     dump_exchange demo_codec demo_io 0 dump 1 5 ds 7 \<and> whole_dump demo_codec 1 ds [plain 7 ''eth0'']"
proof -
  let ?src = "\<lparr> ns_notification = Some (0 :: nat), ns_origin = 0, ns_sequence = 0, ns_world = (5 :: nat) \<rparr>"
  have n: "fst (next_sequence ?src) = 1" by (simp add: next_sequence_def)
  have inv: "source_inventory demo_codec demo_io (Attempt 4) ?src =
      Some (Inr \<lparr> inv_attempt = Attempt 4, inv_links = [plain 7 ''eth0''], inv_events = no_events \<rparr>,
        (snd (next_sequence ?src))\<lparr> ns_world := io_drop demo_io 5 7 \<rparr>)"
    by (rule inventory_answered [where dump = 5 and d = demo_datagram and t = 6 and t' = 6])
      (use demo_dump_datagram n in \<open>simp_all add: demo_io_def INVENTORY_TIMEOUT_def from_secs_def
         nanos_per_sec_def demo_datagram_def demo_frame_def MAX_INVENTORY_BYTES_def\<close>)
  from inventory_whole_dump [OF inv] obtain dump ds sequence where
      "dump_exchange demo_codec demo_io 0 dump sequence 5 ds 7" "whole_dump demo_codec sequence ds [plain 7 ''eth0'']"
      "unat sequence = 1"
    by (auto simp: demo_io_def)
  moreover from this(3) have "sequence = 1" by (simp add: word_unat_eq_iff)
  ultimately show ?thesis using inv by blast
qed

section \<open>The contract of \<open>DatagramIo\<close>\<close>

lemma inventory_dump_returns:
  assumes "io_receive io dump (ns_world (pg_source p)) = Some (r, w)"
  shows "\<exists>c. inventory_dump nl io attempt sequence dump p = Some c"
proof -
  have "inventory_dump nl io attempt sequence dump p \<noteq> None"
    by (simp add: inventory_dump_def assms Let_def split: sum.split prod.split bool.split)
  then show ?thesis by blast
qed

definition socket_of :: "('k, 'w) NetlinkSource \<Rightarrow> 'k multiset" where
  "socket_of src = (case ns_notification src of None \<Rightarrow> {#} | Some k \<Rightarrow> {#k#})"

text \<open>
  The sockets that are held are those of \<open>base\<close> and the notification socket. Without a base the
  predicate says nothing, so that the lemmas below also tell that the calls return.
\<close>

definition accounted ::
    "('w \<Rightarrow> 'k multiset) \<Rightarrow> 'k multiset option \<Rightarrow> ('k, 'w) NetlinkSource \<Rightarrow> bool" where
  "accounted held base src \<longleftrightarrow> (case base of None \<Rightarrow> True
     | Some b \<Rightarrow> held (ns_world src) = b + socket_of src)"

text \<open>
  What the source relies on: calls return; time does not run backwards, a wait takes time, and a sleep as long as asked;
  a socket is held from its opening until it is dropped. \<open>time\<close> is the monotonic clock and
  \<open>held\<close> the sockets that are open.
\<close>

locale datagram_io =
  fixes io :: "('k, 'w) io_ops" and time :: "'w \<Rightarrow> nat" and held :: "'w \<Rightarrow> 'k multiset"
  assumes open_law: "io_open io g w = (op, w') \<Longrightarrow> time w \<le> time w' \<and>
      held w' = (case op of Inr k \<Rightarrow> add_mset k (held w) | Inl _ \<Rightarrow> held w)"
    and send_law: "\<exists>r w'. io_send io k b w = Some (r, w') \<and> time w \<le> time w' \<and> held w' = held w"
    and wait_law: "\<exists>r w'. io_wait io k dump d w = Some (r, w') \<and> time w < time w' \<and> held w' = held w"
    and receive_law: "\<exists>r w'. io_receive io k w = Some (r, w') \<and> time w \<le> time w' \<and> held w' = held w"
    and drop_law: "time w \<le> time (io_drop io k w) \<and> held (io_drop io k w) = held w - {#k#}"
    and clock_law: "io_clock io w = (t, w') \<Longrightarrow> time w \<le> t \<and> t \<le> time w' \<and> held w' = held w"
    and sleep_law: "time w + d \<le> time (io_sleep io d w) \<and> held (io_sleep io d w) = held w"
begin

lemma source_now_law:
  "source_now io src = (at, src') \<Longrightarrow>
     time (ns_world src) \<le> time (ns_world src') \<and> held (ns_world src') = held (ns_world src)"
  using clock_law [of "ns_world src"] by (fastforce simp: source_now_def split: prod.splits)

lemma receive_notification_law:
  "\<exists>r src'. receive_notification nl io src = Some (r, src') \<and>
     time (ns_world src) \<le> time (ns_world src') \<and> held (ns_world src') = held (ns_world src)"
proof (cases "ns_notification src")
  case None
  then show ?thesis by (simp add: receive_notification_def)
next
  case (Some k)
  obtain r w where rx: "io_receive io k (ns_world src) = Some (r, w)" "time (ns_world src) \<le> time w"
      "held w = held (ns_world src)"
    using receive_law by blast
  obtain at src1 where now: "source_now io (src\<lparr> ns_world := w \<rparr>) = (at, src1)"
    by (cases "source_now io (src\<lparr> ns_world := w \<rparr>)")
  show ?thesis
    using rx source_now_law [OF now]
    by (cases "and_then r (check_notification nl)") (auto simp: receive_notification_def Some Let_def now)
qed

lemma accounted_same:
  "accounted held base src \<Longrightarrow> held (ns_world src') = held (ns_world src) \<Longrightarrow>
     ns_notification src' = ns_notification src \<Longrightarrow> accounted held base src'"
  by (simp add: accounted_def socket_of_def split: option.splits)

lemma accounted_set_notification:
  "accounted held base src \<Longrightarrow> accounted held base (set_notification io None src)"
  using drop_law by (auto simp: accounted_def socket_of_def set_notification_def split: option.splits)

lemma inventory_notification_law:
  assumes "accounted held base (pg_source p)"
  shows "\<exists>c. inventory_notification nl io p = Some c \<and>
     (case c of
        Again p' \<Rightarrow> time (ns_world (pg_source p)) \<le> time (ns_world (pg_source p')) \<and>
          accounted held base (pg_source p')
      | Leave (r, src) \<Rightarrow> accounted held base src)"
proof -
  obtain r src where rn: "receive_notification nl io (pg_source p) = Some (r, src)"
      "time (ns_world (pg_source p)) \<le> time (ns_world src)"
      "held (ns_world src) = held (ns_world (pg_source p))"
    using receive_notification_law by blast
  have acc: "accounted held base src"
    using accounted_same [OF assms rn(3) receive_notification_keeps [OF rn(1)]] .
  show ?thesis
    using rn acc accounted_set_notification [OF acc]
    by (cases r) (auto simp: inventory_notification_def split: option.split)
qed

lemma inventory_dump_law:
  assumes "accounted held base (pg_source p)"
  shows "\<exists>c. inventory_dump nl io attempt sequence dump p = Some c \<and>
     (case c of
        Again p' \<Rightarrow> time (ns_world (pg_source p)) \<le> time (ns_world (pg_source p')) \<and>
          accounted held base (pg_source p')
      | Leave (r, src) \<Rightarrow> accounted held base src)"
proof -
  obtain r w where rx: "io_receive io dump (ns_world (pg_source p)) = Some (r, w)"
      "time (ns_world (pg_source p)) \<le> time w" "held w = held (ns_world (pg_source p))"
    using receive_law by blast
  have acc: "accounted held base ((pg_source p)\<lparr> ns_world := w \<rparr>)"
    by (rule accounted_same [OF assms]) (simp_all add: rx)
  obtain c where c: "inventory_dump nl io attempt sequence dump p = Some c"
    using inventory_dump_returns [OF rx(1)] by blast
  then have "case c of
        Again p' \<Rightarrow> time (ns_world (pg_source p)) \<le> time (ns_world (pg_source p')) \<and>
          accounted held base (pg_source p')
      | Leave (r, src) \<Rightarrow> accounted held base src"
    by (cases rule: inventory_dump_cases) (use rx acc in auto)
  with c show ?thesis by blast
qed

lemma inventory_ready_law:
  assumes "accounted held base (pg_source p)"
  shows "\<exists>c. inventory_ready nl io attempt sequence dump ready p = Some c \<and>
     (case c of
        Again p' \<Rightarrow> time (ns_world (pg_source p)) \<le> time (ns_world (pg_source p')) \<and>
          accounted held base (pg_source p')
      | Leave (r, src) \<Rightarrow> accounted held base src)"
proof -
  obtain c1 where c1: "(if rd_notification ready then inventory_notification nl io p
        else Some (Again p)) = Some c1"
      "case c1 of
         Again p' \<Rightarrow> time (ns_world (pg_source p)) \<le> time (ns_world (pg_source p')) \<and>
           accounted held base (pg_source p')
       | Leave (r, src) \<Rightarrow> accounted held base src"
    using inventory_notification_law [OF assms, of nl] assms by (cases "rd_notification ready") auto
  show ?thesis
  proof (cases c1)
    case (Leave x)
    then show ?thesis using c1 by (auto simp: inventory_ready_def)
  next
    case (Again p1)
    with c1(2) have p1: "time (ns_world (pg_source p)) \<le> time (ns_world (pg_source p1))"
        "accounted held base (pg_source p1)" by auto
    obtain c2 where c2: "inventory_dump nl io attempt sequence dump p1 = Some c2"
      "case c2 of
         Again p' \<Rightarrow> time (ns_world (pg_source p1)) \<le> time (ns_world (pg_source p')) \<and>
           accounted held base (pg_source p')
       | Leave (r, src) \<Rightarrow> accounted held base src"
      using inventory_dump_law [OF p1(2)] by blast
    then have "case c2 of
         Again p' \<Rightarrow> time (ns_world (pg_source p)) \<le> time (ns_world (pg_source p')) \<and>
           accounted held base (pg_source p')
       | Leave (r, src) \<Rightarrow> accounted held base src"
      using p1(1) by (cases c2) auto
    then show ?thesis using c1(1) c2(1) p1 by (simp add: inventory_ready_def Again)
  qed
qed

lemma inventory_round_law:
  assumes "accounted held base (pg_source p)"
  shows "\<exists>c. inventory_round nl io attempt sequence dump deadline p = Some c \<and>
     (case c of
        Again p' \<Rightarrow> time (ns_world (pg_source p)) < time (ns_world (pg_source p')) \<and>
          time (ns_world (pg_source p)) < deadline \<and> accounted held base (pg_source p')
      | Leave (r, src) \<Rightarrow> accounted held base src)"
proof -
  obtain t w where clock: "io_clock io (ns_world (pg_source p)) = (t, w)"
    by (cases "io_clock io (ns_world (pg_source p))")
  note tick = clock_law [OF clock]
  have acc: "accounted held base ((pg_source p)\<lparr> ns_world := w \<rparr>)"
    by (rule accounted_same [OF assms]) (simp_all add: tick)
  let ?remaining = "saturating_sub deadline t"
  show ?thesis
  proof (cases "?remaining = 0 \<or> ns_notification (pg_source p) = None")
    case True
    then show ?thesis
      using acc by (cases "?remaining = 0") (auto simp: inventory_round_def clock Let_def)
  next
    case False
    then obtain k where k: "ns_notification (pg_source p) = Some k" and left: "?remaining \<noteq> 0" by auto
    then have open_time: "time (ns_world (pg_source p)) < deadline"
      using tick by (simp add: saturating_sub_def)
    obtain r w1 where wait: "io_wait io k (Some dump) ?remaining w = Some (r, w1)"
        "time w < time w1" "held w1 = held w"
      using wait_law by blast
    let ?src = "(pg_source p)\<lparr> ns_world := w1 \<rparr>"
    have acc1: "accounted held base ?src"
      by (rule accounted_same [OF assms]) (simp_all add: tick wait)
    note closed = accounted_set_notification [OF acc1]
    show ?thesis
    proof (cases r)
      case (Inl e)
      then show ?thesis using closed by (simp add: inventory_round_def clock k left wait(1))
    next
      case (Inr ready)
      have updated: "pg_source (p\<lparr> pg_source := ?src \<rparr>) = ?src" "ns_world ?src = w1" by simp_all
      obtain c where c: "inventory_ready nl io attempt sequence dump ready (p\<lparr> pg_source := ?src \<rparr>) = Some c"
        "case c of
           Again p' \<Rightarrow> time w1 \<le> time (ns_world (pg_source p')) \<and> accounted held base (pg_source p')
         | Leave (r, src) \<Rightarrow> accounted held base src"
        using inventory_ready_law [of base "p\<lparr> pg_source := ?src \<rparr>" nl attempt sequence dump ready] acc1
        unfolding updated by blast
      then show ?thesis
        using acc1 closed tick wait(2) open_time
        by (cases c) (auto simp: inventory_round_def clock k left wait(1) Inr Let_def)
    qed
  qed
qed

end

context datagram_io
begin

text \<open>The loop ends: every round goes on only before the deadline, and takes time.\<close>

lemma inventory_loop_law:
  assumes "accounted held base (pg_source p)"
  shows "\<exists>r src. loop (inventory_round nl io attempt sequence dump deadline) p = Some (r, src) \<and>
    accounted held base src"
proof -
  let ?round = "inventory_round nl io attempt sequence dump deadline"
  let ?P = "\<lambda>p :: ('k, 'w) progress. accounted held base (pg_source p)"
  have "\<exists>x. loop ?round p = Some x"
  proof (rule loop_total [where P = ?P and m = "\<lambda>p. deadline - time (ns_world (pg_source p))"])
    fix p assume "?P p"
    then show "?round p \<noteq> None" using inventory_round_law by fastforce
  next
    fix p p' assume "?P p" "?round p = Some (Again p')"
    then have "time (ns_world (pg_source p)) < time (ns_world (pg_source p')) \<and>
        time (ns_world (pg_source p)) < deadline \<and> ?P p'"
      using inventory_round_law [of base p nl attempt sequence dump deadline] by auto
    then show "?P p' \<and> deadline - time (ns_world (pg_source p')) < deadline - time (ns_world (pg_source p))"
      by auto
  qed (rule assms)
  then obtain r src where l: "loop ?round p = Some (r, src)" by auto
  have "case (r, src) of (r, src) \<Rightarrow> accounted held base src"
  proof (rule loop_invariant [OF l, where P = ?P])
    fix p p' assume "?P p" "?round p = Some (Again p')"
    then show "?P p'" using inventory_round_law [of base p nl attempt sequence dump deadline] by auto
  next
    fix p x assume "?P p" "?round p = Some (Leave x)"
    then show "case x of (r, src) \<Rightarrow> accounted held base src"
      using inventory_round_law [of base p nl attempt sequence dump deadline] by auto
  qed (rule assms)
  then show ?thesis using l by auto
qed

lemma source_inventory_law:
  assumes "accounted held base src"
  shows "\<exists>r src'. source_inventory nl io attempt src = Some (r, src') \<and> accounted held base src'"
proof -
  obtain opened w where op: "io_open io 0 (ns_world src) = (opened, w)"
    by (cases "io_open io 0 (ns_world src)")
  note o = open_law [OF op]
  show ?thesis
  proof (cases opened)
    case (Inl e)
    then show ?thesis using assms o
      by (simp add: source_inventory_def op accounted_def socket_of_def split: option.splits)
  next
    case (Inr dump)
    have ns: "next_sequence (src\<lparr> ns_world := w \<rparr>) =
        (fst (next_sequence src), (snd (next_sequence src))\<lparr> ns_world := w \<rparr>)"
      by (simp add: next_sequence_def Let_def)
    obtain sent w1 where send:
      "io_send io dump (dump_request nl (fst (next_sequence src))) w = Some (sent, w1)" "held w1 = held w"
      using send_law by blast
    obtain t w2 where clock: "io_clock io w1 = (t, w2)" by (cases "io_clock io w1")
    have closes: "accounted held base (s\<lparr> ns_world := io_drop io dump (ns_world s) \<rparr>)"
      if "accounted held (map_option (add_mset dump) base) s" for s
      using that drop_law by (simp add: accounted_def socket_of_def split: option.splits)
    have held: "accounted held (map_option (add_mset dump) base) ((snd (next_sequence src))\<lparr> ns_world := w1 \<rparr>)"
        "accounted held (map_option (add_mset dump) base) ((snd (next_sequence src))\<lparr> ns_world := w2 \<rparr>)"
      using assms o Inr send(2) clock_law [OF clock] by (simp_all add: accounted_def socket_of_def split: option.splits)
    show ?thesis
    proof (cases sent)
      case sent: (Inl e)
      show ?thesis
        using closes [OF held(1)] by (simp add: source_inventory_def op Inr ns send sent)
    next
      case sent: (Inr u)
      obtain r src2 where "loop (inventory_round nl io attempt (fst (next_sequence src)) dump
            (t + INVENTORY_TIMEOUT))
         \<lparr> pg_source = (snd (next_sequence src))\<lparr> ns_world := w2 \<rparr>, pg_events = no_events,
           pg_links = [], pg_total = 0 \<rparr> = Some (r, src2)" "accounted held (map_option (add_mset dump) base) src2"
        using inventory_loop_law [of "map_option (add_mset dump) base" "\<lparr> pg_source = (snd (next_sequence src))
            \<lparr> ns_world := w2 \<rparr>, pg_events = no_events, pg_links = [], pg_total = 0 \<rparr>"
            nl attempt "fst (next_sequence src)" dump "t + INVENTORY_TIMEOUT"] held(2)
        by auto
      then show ?thesis
        using closes [of src2] by (simp add: source_inventory_def op Inr ns send sent clock)
    qed
  qed
qed

lemma source_subscribe_law:
  assumes "accounted held base src"
  shows "\<exists>r src'. source_subscribe io src = Some (r, src') \<and> accounted held base src'"
proof -
  obtain opened w where op: "io_open io LINK_MULTICAST_GROUP (ns_world src) = (opened, w)"
    by (cases "io_open io LINK_MULTICAST_GROUP (ns_world src)")
  show ?thesis
    using open_law [OF op] assms drop_law
    by (cases opened; cases "ns_notification src"; cases base)
      (auto simp: source_subscribe_def op set_notification_def accounted_def socket_of_def)
qed

lemma source_wait_law:
  assumes "accounted held base src"
  shows "\<exists>r src'. source_wait nl io timeout src = Some (r, src') \<and> accounted held base src'"
proof (cases "ns_notification src")
  case None
  then show ?thesis using assms sleep_law
    by (simp add: source_wait_def accounted_def socket_of_def split: option.splits)
next
  case (Some k)
  obtain x w where wait: "io_wait io k None timeout (ns_world src) = Some (x, w)"
      "held w = held (ns_world src)"
    using wait_law by blast
  let ?src = "src\<lparr> ns_world := w \<rparr>"
  have acc: "accounted held base ?src" by (rule accounted_same [OF assms]) (simp_all add: wait)
  obtain r src1 where rn: "receive_notification nl io ?src = Some (r, src1)"
      "held (ns_world src1) = held (ns_world ?src)"
    using receive_notification_law by blast
  have acc1: "accounted held base src1"
    by (rule accounted_same [OF acc rn(2) receive_notification_keeps [OF rn(1)]])
  show ?thesis
    using acc acc1 accounted_set_notification [OF acc] accounted_set_notification [OF acc1] rn(1)
    by (cases x; cases r)
      (auto simp: source_wait_def Some wait(1) Let_def split: option.split)
qed

lemma source_total: "total_source (netlink_source nl io)"
proof -
  have none: "accounted held None src" for src by (simp add: accounted_def)
  show ?thesis
    using source_subscribe_law [OF none] source_inventory_law [OF none] source_wait_law [OF none]
    unfolding total_source_def netlink_source_def by (metis acquisition_ops.select_convs option.distinct(1))
qed

end

text \<open>Along a run of the monitor the source holds its notification socket and nothing else.\<close>

sublocale datagram_io \<subseteq> sockets: source_invariant "netlink_source nl io" "accounted held base" for nl base
proof
  fix src assume acc: "accounted held base src"
  obtain t src1 where now: "source_now io src = (t, src1)" by (cases "source_now io src")
  then have "accounted held base src1"
    using accounted_same [OF acc] source_now_law [OF now] source_now_keeps [OF now] by blast
  with now show "accounted held base (snd (acq_now (netlink_source nl io) src))"
    by (simp add: netlink_source_def)
next
  fix src u src' assume "accounted held base src" "acq_subscribe (netlink_source nl io) src = Some (u, src')"
  then show "accounted held base src'"
    using source_subscribe_law [of base src] by (simp add: netlink_source_def)
next
  fix src a r src' assume "accounted held base src" "acq_inventory (netlink_source nl io) a src = Some (r, src')"
  then show "accounted held base src'"
    using source_inventory_law [of base src nl a] by (simp add: netlink_source_def)
next
  fix src d w src' assume "accounted held base src" "acq_wait (netlink_source nl io) d src = Some (w, src')"
  then show "accounted held base src'"
    using source_wait_law [of base src nl d] by (simp add: netlink_source_def)
qed

end
