(* ===== verification/Netlink_Socket.thy ===== *)
theory Netlink_Socket
  imports Netlink
begin

text \<open>
  \<open>SocketIo\<close> of \<open>src/netlink.rs\<close>: the trait \<open>DatagramIo\<close> over netlink sockets and \<open>poll(2)\<close>. The
  system calls, as \<open>netlink-sys\<close>, \<open>libc\<close> and \<open>std::time\<close> give access to them, are an argument, the
  record \<open>sys_ops\<close>; the locale \<open>system_calls\<close> states what the program relies on in them, and
  \<open>SocketIo\<close> then satisfies the contract \<open>datagram_io\<close> of the source.
\<close>

section \<open>System calls\<close>

text \<open>
  \<open>sys_poll\<close> gives the \<open>revents\<close> that the kernel wrote, or the error of \<open>errno\<close> when the count is
  negative; \<open>sys_recv_from\<close> gives the size of the datagram, the port of its sender and what was
  written to the buffer.
\<close>

record ('k, 'w) sys_ops =
  sys_socket :: "i32 \<Rightarrow> 'w \<Rightarrow> 'k io_result \<times> 'w"
  sys_bind :: "'k \<Rightarrow> u32 \<Rightarrow> u32 \<Rightarrow> 'w \<Rightarrow> unit io_result \<times> 'w"
  sys_connect :: "'k \<Rightarrow> u32 \<Rightarrow> u32 \<Rightarrow> 'w \<Rightarrow> unit io_result \<times> 'w"
  sys_set_non_blocking :: "'k \<Rightarrow> bool \<Rightarrow> 'w \<Rightarrow> unit io_result \<times> 'w"
  sys_send :: "'k \<Rightarrow> u8 list \<Rightarrow> i32 \<Rightarrow> 'w \<Rightarrow> nat io_result \<times> 'w"
  sys_poll :: "('k \<times> u16) list \<Rightarrow> nat \<Rightarrow> 'w \<Rightarrow> u16 list io_result \<times> 'w"
  sys_recv_from :: "'k \<Rightarrow> nat \<Rightarrow> i32 \<Rightarrow> 'w \<Rightarrow> (nat \<times> u32 \<times> u8 list) io_result \<times> 'w"
  sys_close :: "'k \<Rightarrow> 'w \<Rightarrow> 'w"
  sys_clock :: "'w \<Rightarrow> duration \<times> 'w"
  sys_sleep :: "duration \<Rightarrow> 'w \<Rightarrow> 'w"

definition NETLINK_ROUTE :: i32 where
  "NETLINK_ROUTE = 0"

definition POLLIN :: u16 where
  "POLLIN = 1"

definition POLLERR :: u16 where
  "POLLERR = 8"

definition POLLHUP :: u16 where
  "POLLHUP = 16"

definition POLLNVAL :: u16 where
  "POLLNVAL = 32"

definition MSG_TRUNC :: i32 where
  "MSG_TRUNC = 32"

section \<open>\<open>SocketIo\<close>\<close>

text \<open>A socket that is not returned is dropped, and with it closed.\<close>

definition socket_open :: "('k, 'w) sys_ops \<Rightarrow> u32 \<Rightarrow> 'w \<Rightarrow> 'k io_result \<times> 'w" where
  "socket_open sys groups w =
     (case sys_socket sys NETLINK_ROUTE w of
        (Inl e, w) \<Rightarrow> (Inl e, w)
      | (Inr socket, w) \<Rightarrow>
          (case sys_bind sys socket 0 groups w of
             (Inl e, w) \<Rightarrow> (Inl e, sys_close sys socket w)
           | (Inr _, w) \<Rightarrow>
               (case sys_connect sys socket 0 0 w of
                  (Inl e, w) \<Rightarrow> (Inl e, sys_close sys socket w)
                | (Inr _, w) \<Rightarrow>
                    (case sys_set_non_blocking sys socket True w of
                       (Inl e, w) \<Rightarrow> (Inl e, sys_close sys socket w)
                     | (Inr _, w) \<Rightarrow> (Inr socket, w)))))"

definition interrupted :: "io_error \<Rightarrow> bool" where
  "interrupted e \<longleftrightarrow> error_kind_of e = Interrupted"

definition send_round ::
    "('k, 'w) sys_ops \<Rightarrow> 'k \<Rightarrow> u8 list \<Rightarrow> 'w \<Rightarrow> ('w, unit io_result \<times> 'w) control option" where
  "send_round sys socket bytes w =
     (case sys_send sys socket bytes 0 w of
        (Inr written, w) \<Rightarrow>
          if written = length bytes then Some (Leave (Inr (), w))
          else Some (Leave (Inl (IoError WriteZero (Literal ''partial netlink request write'')), w))
      | (Inl e, w) \<Rightarrow> if interrupted e then Some (Again w) else Some (Leave (Inl e, w)))"

definition socket_send ::
    "('k, 'w) sys_ops \<Rightarrow> 'k \<Rightarrow> u8 list \<Rightarrow> 'w \<Rightarrow> (unit io_result \<times> 'w) option" where
  "socket_send sys socket bytes w = loop (send_round sys socket bytes) w"

text \<open>
  The timeout of \<open>poll\<close>: the remaining time in milliseconds, rounded up, and at most \<open>i32::MAX\<close>.
\<close>

definition poll_millis :: "duration \<Rightarrow> nat" where
  "poll_millis remaining =
     min (remaining div 1000000 + (if remaining mod nanos_per_sec mod 1000000 = 0 then 0 else 1))
       (2 ^ 31 - 1)"

definition poll_round ::
    "('k, 'w) sys_ops \<Rightarrow> ('k \<times> u16) list \<Rightarrow> duration \<Rightarrow> duration \<Rightarrow> 'w \<Rightarrow>
     ('w, u16 list io_result \<times> 'w) control option" where
  "poll_round sys descriptors timeout started w =
     (let (t, w) = sys_clock sys w;
          remaining = saturating_sub timeout (saturating_sub t started)
      in case sys_poll sys descriptors (poll_millis remaining) w of
           (Inr revents, w) \<Rightarrow> Some (Leave (Inr revents, w))
         | (Inl e, w) \<Rightarrow>
             if interrupted e then Some (Again w) else Some (Leave (Inl e, w)))"

text \<open>The \<open>revents\<close> of a descriptor, zero where there is none.\<close>

definition revents_at :: "u16 list \<Rightarrow> nat \<Rightarrow> u16" where
  "revents_at revents i = (if i < length revents then revents ! i else 0)"

definition ready_of :: "u16 list \<Rightarrow> Ready" where
  "ready_of revents =
     (let failed = POLLHUP OR POLLNVAL;
          notification = revents_at revents 0;
          dump = revents_at revents 1
      in \<lparr> rd_notification = notification AND (POLLIN OR POLLERR) \<noteq> 0,
           rd_dump = dump AND (POLLIN OR POLLERR) \<noteq> 0,
           rd_notification_failed = notification AND failed \<noteq> 0,
           rd_dump_failed = dump AND failed \<noteq> 0 \<rparr>)"

definition socket_wait ::
    "('k, 'w) sys_ops \<Rightarrow> 'k \<Rightarrow> 'k option \<Rightarrow> duration \<Rightarrow> 'w \<Rightarrow> (Ready io_result \<times> 'w) option" where
  "socket_wait sys notification dump timeout w =
     (let descriptors = (notification, POLLIN OR POLLERR) #
            (case dump of None \<Rightarrow> [] | Some dump \<Rightarrow> [(dump, POLLIN OR POLLERR)]);
          (started, w) = sys_clock sys w
      in do {
        (r, w) \<leftarrow> loop (poll_round sys descriptors timeout started) w;
        case r of
          Inl e \<Rightarrow> Some (Inl e, w)
        | Inr revents \<Rightarrow> Some (Inr (ready_of (take (length descriptors) revents)), w)
      })"

definition receive_round ::
    "('k, 'w) sys_ops \<Rightarrow> 'k \<Rightarrow> 'w \<Rightarrow> ('w, Datagram io_result \<times> 'w) control option" where
  "receive_round sys socket w =
     (case sys_recv_from sys socket MAX_DATAGRAM MSG_TRUNC w of
        (Inr (received, port, written), w) \<Rightarrow>
          let storage = take MAX_DATAGRAM (written @ replicate (MAX_DATAGRAM - length written) 0);
              truncated = length storage < received
          in Some (Leave (Inr \<lparr> dg_bytes = take (min received (length storage)) storage,
               dg_from_kernel = port = 0, dg_truncated = truncated \<rparr>, w))
      | (Inl e, w) \<Rightarrow> if interrupted e then Some (Again w) else Some (Leave (Inl e, w)))"

definition socket_receive ::
    "('k, 'w) sys_ops \<Rightarrow> 'k \<Rightarrow> 'w \<Rightarrow> (Datagram io_result \<times> 'w) option" where
  "socket_receive sys socket w = loop (receive_round sys socket) w"

definition socket_io :: "('k, 'w) sys_ops \<Rightarrow> ('k, 'w) io_ops" where
  "socket_io sys =
     \<lparr> io_open = socket_open sys, io_send = socket_send sys, io_wait = socket_wait sys,
       io_receive = socket_receive sys, io_drop = sys_close sys, io_clock = sys_clock sys,
       io_sleep = sys_sleep sys \<rparr>"

section \<open>The timeout of \<open>poll\<close>\<close>

text \<open>
  A wait never ends early: the timeout given to \<open>poll\<close> is the least number of milliseconds
  that covers the remaining time, or the largest that \<open>poll\<close> takes, and it is zero only when
  no time remains.
\<close>

lemma poll_millis_least:
  "poll_millis remaining < 2 ^ 31 \<and> (poll_millis remaining = 0 \<longleftrightarrow> remaining = 0) \<and>
   (poll_millis remaining < 2 ^ 31 - 1 \<longrightarrow>
      remaining \<le> poll_millis remaining * 1000000 \<and> poll_millis remaining * 1000000 < remaining + 1000000)"
proof -
  define q r where "q = remaining div 1000000" and "r = remaining mod 1000000"
  have "remaining mod nanos_per_sec mod 1000000 = r"
    by (simp add: nanos_per_sec_def mod_mod_cancel r_def)
  then have millis: "poll_millis remaining = min (q + (if r = 0 then 0 else 1)) (2 ^ 31 - 1)"
    by (simp add: poll_millis_def q_def)
  have "remaining = q * 1000000 + r" "r < 1000000" by (simp_all add: q_def r_def)
  then show ?thesis unfolding millis by (auto simp: min_def)
qed

lemma poll_millis_least_witness:
  "poll_millis 1500001 = 2 \<and> (1500001 :: nat) \<le> poll_millis 1500001 * 1000000"
proof -
  have "poll_millis 1500001 = 2" by (simp add: poll_millis_def nanos_per_sec_def)
  with poll_millis_least [of 1500001] show ?thesis by simp
qed

section \<open>The contract of the system calls\<close>

text \<open>
  A socket is held from its creation until it is closed; time does not run backwards, and a
  \<open>poll\<close> takes time; a sleep lasts as long as asked; a call is not interrupted for ever: \<open>patience\<close> bounds the interruptions
  that are still to come while a call is repeated.
\<close>

locale system_calls =
  fixes sys :: "('k, 'w) sys_ops" and time :: "'w \<Rightarrow> nat" and held :: "'w \<Rightarrow> 'k multiset"
    and patience :: "'w \<Rightarrow> nat"
  assumes socket_law: "sys_socket sys p w = (op, w') \<Longrightarrow> time w \<le> time w' \<and>
      held w' = (case op of Inr k \<Rightarrow> add_mset k (held w) | Inl _ \<Rightarrow> held w)"
    and bind_law: "sys_bind sys k port g w = (u, w') \<Longrightarrow> time w \<le> time w' \<and> held w' = held w"
    and connect_law: "sys_connect sys k port g w = (u, w') \<Longrightarrow> time w \<le> time w' \<and> held w' = held w"
    and non_blocking_law: "sys_set_non_blocking sys k b w = (u, w') \<Longrightarrow>
      time w \<le> time w' \<and> held w' = held w"
    and send_law: "sys_send sys k bytes f w = (n, w') \<Longrightarrow> time w \<le> time w' \<and> held w' = held w \<and>
      (\<forall>e. n = Inl e \<longrightarrow> interrupted e \<longrightarrow> patience w' < patience w)"
    and poll_law: "sys_poll sys fds millis w = (rs, w') \<Longrightarrow> time w < time w' \<and> held w' = held w \<and>
      (\<forall>e. rs = Inl e \<longrightarrow> interrupted e \<longrightarrow> patience w' < patience w)"
    and recv_law: "sys_recv_from sys k len f w = (rx, w') \<Longrightarrow> time w \<le> time w' \<and> held w' = held w \<and>
      (\<forall>e. rx = Inl e \<longrightarrow> interrupted e \<longrightarrow> patience w' < patience w)"
    and close_law: "time w \<le> time (sys_close sys k w) \<and> held (sys_close sys k w) = held w - {#k#}"
    and clock_law: "sys_clock sys w = (t, w') \<Longrightarrow> time w \<le> t \<and> t \<le> time w' \<and> held w' = held w \<and>
      patience w' \<le> patience w"
    and sleep_law: "time w + d \<le> time (sys_sleep sys d w) \<and> held (sys_sleep sys d w) = held w"
begin

lemma open_promise:
  assumes "socket_open sys g w = (op, w')"
  shows "time w \<le> time w' \<and> held w' = (case op of Inr k \<Rightarrow> add_mset k (held w) | Inl _ \<Rightarrow> held w)"
proof -
  obtain r1 w1 where 1: "sys_socket sys NETLINK_ROUTE w = (r1, w1)"
    by (cases "sys_socket sys NETLINK_ROUTE w")
  show ?thesis
  proof (cases r1)
    case (Inl e)
    then show ?thesis using assms socket_law [OF 1] by (simp add: socket_open_def 1)
  next
    case (Inr k)
    note l1 = socket_law [OF 1, unfolded Inr]
    obtain r2 w2 where 2: "sys_bind sys k 0 g w1 = (r2, w2)" by (cases "sys_bind sys k 0 g w1")
    obtain r3 w3 where 3: "sys_connect sys k 0 0 w2 = (r3, w3)" by (cases "sys_connect sys k 0 0 w2")
    obtain r4 w4 where 4: "sys_set_non_blocking sys k True w3 = (r4, w4)"
      by (cases "sys_set_non_blocking sys k True w3")
    note l = l1 bind_law [OF 2] connect_law [OF 3] non_blocking_law [OF 4]
    have closed: "time w \<le> time (sys_close sys k v) \<and> held (sys_close sys k v) = held w"
      if "time w \<le> time v" "held v = add_mset k (held w)" for v
      using that close_law [of v k] by simp
    show ?thesis
      using assms l closed [of w2] closed [of w3] closed [of w4]
      by (cases r2; cases r3; cases r4) (auto simp: socket_open_def 1 Inr 2 3 4)
  qed
qed

text \<open>A call that is repeated while it is interrupted returns, and keeps what each round keeps.\<close>

lemma repeated_call:
  assumes returns: "\<And>w. body w \<noteq> None"
    and again: "\<And>w w'. body w = Some (Again w') \<Longrightarrow>
      time w \<le> time w' \<and> held w' = held w \<and> patience w' < patience w"
    and leave: "\<And>w r w'. body w = Some (Leave (r, w')) \<Longrightarrow> time w + n \<le> time w' \<and> held w' = held w"
  shows "\<exists>r w'. loop body w = Some (r, w') \<and> time w + n \<le> time w' \<and> held w' = held w"
proof -
  have "\<exists>x. loop body w = Some x"
    by (rule loop_total [where P = "\<lambda>_. True" and m = patience]) (use returns again in auto)
  then obtain r w' where l: "loop body w = Some (r, w')" by auto
  have "case (r, w') of (r, w') \<Rightarrow> time w + n \<le> time w' \<and> held w' = held w"
    by (rule loop_invariant [OF l, where P = "\<lambda>v. time w \<le> time v \<and> held v = held w"])
      (use again leave in fastforce)+
  with l show ?thesis by auto
qed

lemma send_promise:
  "\<exists>r w'. socket_send sys k b w = Some (r, w') \<and> time w \<le> time w' \<and> held w' = held w"
  unfolding socket_send_def
proof (rule repeated_call [where n = 0, simplified])
  show "\<exists>y. send_round sys k b w = Some y" for w
    by (auto simp: send_round_def split: prod.split sum.split)
next
  fix w w' assume "send_round sys k b w = Some (Again w')"
  then show "time w \<le> time w' \<and> held w' = held w \<and> patience w' < patience w"
    using send_law [of k b 0 w] by (auto simp: send_round_def split: prod.splits sum.splits if_splits)
next
  fix w r w' assume "send_round sys k b w = Some (Leave (r, w'))"
  then show "time w \<le> time w' \<and> held w' = held w"
    using send_law [of k b 0 w] by (auto simp: send_round_def split: prod.splits sum.splits if_splits)
qed

lemma receive_promise:
  "\<exists>r w'. socket_receive sys k w = Some (r, w') \<and> time w \<le> time w' \<and> held w' = held w"
  unfolding socket_receive_def
proof (rule repeated_call [where n = 0, simplified])
  show "\<exists>y. receive_round sys k w = Some y" for w
    by (auto simp: receive_round_def Let_def split: prod.split sum.split)
next
  fix w w' assume "receive_round sys k w = Some (Again w')"
  then show "time w \<le> time w' \<and> held w' = held w \<and> patience w' < patience w"
    using recv_law [of k MAX_DATAGRAM MSG_TRUNC w]
    by (auto simp: receive_round_def Let_def split: prod.splits sum.splits if_splits)
next
  fix w r w' assume "receive_round sys k w = Some (Leave (r, w'))"
  then show "time w \<le> time w' \<and> held w' = held w"
    using recv_law [of k MAX_DATAGRAM MSG_TRUNC w]
    by (auto simp: receive_round_def Let_def split: prod.splits sum.splits if_splits)
qed

lemma poll_round_law:
  assumes "poll_round sys fds d started w = Some c"
  shows "case c of
      Again w' \<Rightarrow> time w \<le> time w' \<and> held w' = held w \<and> patience w' < patience w
    | Leave (r, w') \<Rightarrow> time w + 1 \<le> time w' \<and> held w' = held w"
proof -
  obtain t w1 where clock: "sys_clock sys w = (t, w1)" by (cases "sys_clock sys w")
  let ?millis = "poll_millis (saturating_sub d (saturating_sub t started))"
  obtain rs w2 where poll: "sys_poll sys fds ?millis w1 = (rs, w2)"
    by (cases "sys_poll sys fds ?millis w1")
  show ?thesis
    using assms clock_law [OF clock] poll_law [OF poll]
    by (cases rs) (auto simp: poll_round_def clock poll split: if_splits)
qed

lemma wait_promise:
  "\<exists>r w'. socket_wait sys k dump d w = Some (r, w') \<and> time w < time w' \<and> held w' = held w"
proof -
  let ?fds = "(k, POLLIN OR POLLERR) # (case dump of None \<Rightarrow> [] | Some dump \<Rightarrow> [(dump, POLLIN OR POLLERR)])"
  obtain started w1 where clock: "sys_clock sys w = (started, w1)" by (cases "sys_clock sys w")
  have "\<exists>r w'. loop (poll_round sys ?fds d started) w1 = Some (r, w') \<and>
      time w1 + 1 \<le> time w' \<and> held w' = held w1"
  proof (rule repeated_call)
    show "poll_round sys ?fds d started w \<noteq> None" for w
      by (simp add: poll_round_def split: prod.split sum.split)
  qed (use poll_round_law in fastforce)+
  then obtain r w2 where l: "loop (poll_round sys ?fds d started) w1 = Some (r, w2)"
      "time w1 + 1 \<le> time w2" "held w2 = held w1" by blast
  then show ?thesis
    using clock_law [OF clock] by (cases r) (auto simp: socket_wait_def clock)
qed

end

text \<open>With such system calls \<open>SocketIo\<close> keeps the contract of \<open>DatagramIo\<close>.\<close>

sublocale system_calls \<subseteq> socket: datagram_io "socket_io sys" time held
proof
  fix g w op w' assume "io_open (socket_io sys) g w = (op, w')"
  then show "time w \<le> time w' \<and> held w' = (case op of Inl _ \<Rightarrow> held w | Inr k \<Rightarrow> add_mset k (held w))"
    using open_promise by (simp add: socket_io_def)
next
  fix w t w' assume "io_clock (socket_io sys) w = (t, w')"
  then show "time w \<le> t \<and> t \<le> time w' \<and> held w' = held w"
    using clock_law by (simp add: socket_io_def)
qed (simp_all add: socket_io_def send_promise wait_promise receive_promise close_law sleep_law)

context system_calls
begin

lemma inventory_promise:
  "\<exists>r src'. source_inventory nl (socket_io sys) attempt src = Some (r, src')"
  using socket.source_inventory_law [of None src nl attempt] by (auto simp: accounted_def)

lemma total_promise: "total_source (netlink_source nl (socket_io sys))"
  by (rule socket.source_total)

text \<open>No socket leaks, whatever the monitor does with the source.\<close>

lemma sockets_promise:
  assumes "monitor_run ids (netlink_source nl (socket_io sys)) n
      (monitor_start period publication src) = Some flow"
    and "held (ns_world src) = base" "ns_notification src = None"
  shows "held (ns_world (mon_source (flow_end flow))) = base + socket_of (mon_source (flow_end flow))"
  using socket.sockets.run_keeps [OF assms(1), of "Some base"] assms(2,3)
  by (simp add: accounted_def socket_of_def)

end

section \<open>Receiving\<close>

text \<open>
  A datagram is received whole or flagged: when the call succeeds, the bytes are those that
  the kernel delivered, and the datagram is flagged as truncated exactly when its size exceeds
  the buffer; the kernel is recognised by port zero.
\<close>

lemma socket_receive_whole:
  assumes "sys_recv_from sys socket MAX_DATAGRAM MSG_TRUNC w = (Inr (received, port, written), w')"
    and "length written = min received MAX_DATAGRAM"
  shows "socket_receive sys socket w = Some (Inr \<lparr> dg_bytes = written, dg_from_kernel = port = 0,
    dg_truncated = MAX_DATAGRAM < received \<rparr>, w')"
proof -
  have storage: "length (take MAX_DATAGRAM (written @ replicate (MAX_DATAGRAM - length written) 0)) =
      MAX_DATAGRAM"
    using assms(2) by simp
  have "take (min received MAX_DATAGRAM)
      (take MAX_DATAGRAM (written @ replicate (MAX_DATAGRAM - length written) 0)) = written"
    using assms(2) by (simp add: min_def split: if_splits)
  then have "receive_round sys socket w = Some (Leave (Inr \<lparr> dg_bytes = written,
      dg_from_kernel = port = 0, dg_truncated = MAX_DATAGRAM < received \<rparr>, w'))"
    unfolding receive_round_def assms(1) Let_def prod.case sum.case storage by simp
  then show ?thesis by (simp add: socket_receive_def loop_leaves)
qed

section \<open>A kernel\<close>

text \<open>
  System calls that satisfy the contract, for the witnesses: a clock that every \<open>poll\<close> advances,
  the numbers of the open sockets, and the datagrams that wait for a dump socket.
\<close>

record kernel =
  kn_time :: nat
  kn_held :: "nat multiset"
  kn_next :: nat
  kn_inbox :: "u8 list list"

definition kernel_sys :: "(nat, kernel) sys_ops" where
  "kernel_sys = \<lparr>
     sys_socket = (\<lambda>protocol w. (Inr (kn_next w),
       w\<lparr> kn_next := kn_next w + 1, kn_held := add_mset (kn_next w) (kn_held w) \<rparr>)),
     sys_bind = (\<lambda>k port groups w. (Inr (), w)),
     sys_connect = (\<lambda>k port groups w. (Inr (), w)),
     sys_set_non_blocking = (\<lambda>k b w. (Inr (), w)),
     sys_send = (\<lambda>k bytes f w. (Inr (length bytes), w)),
     sys_poll = (\<lambda>fds millis w.
       (Inr (if kn_inbox w = [] then [0, 0] else [0, POLLIN]), w\<lparr> kn_time := Suc (kn_time w + millis) \<rparr>)),
     sys_recv_from = (\<lambda>k len f w. case kn_inbox w of
         [] \<Rightarrow> (Inl (IoError WouldBlock (OsMessage 11)), w)
       | d # ds \<Rightarrow> (Inr (length d, 0, take len d), w\<lparr> kn_inbox := ds \<rparr>)),
     sys_close = (\<lambda>k w. w\<lparr> kn_held := kn_held w - {#k#} \<rparr>),
     sys_clock = (\<lambda>w. (kn_time w, w)),
     sys_sleep = (\<lambda>d w. w\<lparr> kn_time := kn_time w + d \<rparr>) \<rparr>"

interpretation kernel: system_calls kernel_sys kn_time kn_held "\<lambda>_. 0"
  by unfold_locales (auto simp: kernel_sys_def interrupted_def split: list.splits)

lemma socket_receive_whole_witness:
  "socket_receive kernel_sys 3 \<lparr> kn_time = 0, kn_held = {#}, kn_next = 0, kn_inbox = [[1, 2]] \<rparr> =
     Some (Inr \<lparr> dg_bytes = [1, 2], dg_from_kernel = True, dg_truncated = False \<rparr>,
       \<lparr> kn_time = 0, kn_held = {#}, kn_next = 0, kn_inbox = [] \<rparr>)"
  using socket_receive_whole [of kernel_sys 3 "\<lparr> kn_time = 0, kn_held = {#}, kn_next = 0,
      kn_inbox = [[1, 2]] \<rparr>" 2 0 "[1, 2]" "\<lparr> kn_time = 0, kn_held = {#}, kn_next = 0, kn_inbox = [] \<rparr>"]
  by (simp add: kernel_sys_def MAX_DATAGRAM_def)

section \<open>Inventories end\<close>

text \<open>
  C29. An inventory over netlink sockets always ends, with a result: system calls that return,
  are not interrupted for ever and take time in \<open>poll\<close> suffice, whatever arrives.
\<close>

theorem inventory_ends:
  assumes "system_calls sys time held patience"
  shows "\<exists>r src'. source_inventory nl (socket_io sys) attempt src = Some (r, src')"
  by (rule system_calls.inventory_promise [OF assms])

lemma inventory_ends_witness:
  "\<exists>r src'. source_inventory demo_codec (socket_io kernel_sys) (Attempt 0)
     (with_io (socket_io kernel_sys) \<lparr> kn_time = 0, kn_held = {#}, kn_next = 0, kn_inbox = [[1]] \<rparr>) =
       Some (r, src')"
  by (rule inventory_ends [OF kernel.system_calls_axioms])

end
