(* ===== verification/Config.thy ===== *)
theory Config
  imports Prelude "HOL-Library.Sublist"
begin

text \<open>
  \<open>src/config.rs\<close>: the configuration, from the command line and a TOML file. The file system and
  the TOML parser are arguments of \<open>load\<close>. The specification says which command lines are
  accepted, as the command lines that a list of options renders to, and which configurations
  the rest of the program can be started with.
\<close>

section \<open>Data\<close>

datatype LogLevel = LogError | LogWarn | LogInfo | LogDebug | LogTrace

datatype LevelFilter = FilterError | FilterWarn | FilterInfo | FilterDebug | FilterTrace

fun level_filter :: "LogLevel \<Rightarrow> LevelFilter" where
  "level_filter LogError = FilterError"
| "level_filter LogWarn = FilterWarn"
| "level_filter LogInfo = FilterInfo"
| "level_filter LogDebug = FilterDebug"
| "level_filter LogTrace = FilterTrace"

record Config =
  cfg_socket :: string
  cfg_reconcile :: u64
  cfg_priority :: u8
  cfg_log_level :: LogLevel

definition DEFAULT_PATH :: string where
  "DEFAULT_PATH = ''/etc/agentx-ifstack.toml''"

definition default_config :: Config where
  "default_config = \<lparr> cfg_socket = ''/var/agentx/master'', cfg_reconcile = 3600,
     cfg_priority = 127, cfg_log_level = LogInfo \<rparr>"

datatype Action = Run Config | Help | Version

section \<open>The command line\<close>

text \<open>
  What the loop over the arguments ends with: an action to take at once, or the paths of the
  configuration file and of the socket. \<open>to_string_lossy\<close> keeps the bytes of a leading \<open>--\<close>.
\<close>

datatype arguments = Immediate Action | Selected "string option" "string option"

definition acceptable_value :: "string \<Rightarrow> bool" where
  "acceptable_value v \<longleftrightarrow> v \<noteq> [] \<and> \<not> prefix ''--'' v"

definition requires_a_path :: "string \<Rightarrow> message" where
  "requires_a_path arg = Formatted ''{} requires a path'' [ArgText arg]"

fun parse_args :: "string list \<Rightarrow> string option \<Rightarrow> string option \<Rightarrow> message + arguments" where
  "parse_args [] path socket = Inr (Selected path socket)"
| "parse_args (arg # args) path socket =
     (if arg = ''--help'' \<or> arg = ''-h'' then Inr (Immediate Help)
      else if arg = ''--version'' then Inr (Immediate Version)
      else if arg = ''--config'' \<or> arg = ''--socket'' then
        (case args of
           [] \<Rightarrow> Inl (requires_a_path arg)
         | v # rest \<Rightarrow>
             if \<not> acceptable_value v then Inl (requires_a_path arg)
             else if arg = ''--config'' then parse_args rest (Some v) socket
             else parse_args rest path (Some v))
      else Inl (Formatted ''Unknown argument: {}'' [ArgText arg]))"

section \<open>Loading\<close>

definition read_config ::
    "(string \<Rightarrow> string io_result) \<Rightarrow> (string \<Rightarrow> string + Config) \<Rightarrow> string option \<Rightarrow> string \<Rightarrow>
     message + Config" where
  "read_config read_to_string from_toml path default_path =
     (let selected_path = (case path of None \<Rightarrow> default_path | Some p \<Rightarrow> p)
      in case read_to_string selected_path of
           Inr contents \<Rightarrow>
             map_err (\<lambda>e. Formatted ''{}: {error}'' [ArgText selected_path, ArgError e])
               (from_toml contents)
         | Inl error \<Rightarrow>
             if error_kind_of error = NotFound \<and> path = None then Inr default_config
             else Inl (Formatted ''config {}: {error}''
               [ArgText selected_path, ArgShown (error_message error)]))"

definition load ::
    "(string \<Rightarrow> string io_result) \<Rightarrow> (string \<Rightarrow> string + Config) \<Rightarrow> string list \<Rightarrow> string \<Rightarrow>
     message + Action" where
  "load read_to_string from_toml args default_path =
     and_then (parse_args args None None) (\<lambda>parsed. case parsed of
       Immediate action \<Rightarrow> Inr action
     | Selected path socket \<Rightarrow>
         and_then (read_config read_to_string from_toml path default_path) (\<lambda>config.
         let config = (case socket of None \<Rightarrow> config | Some s \<Rightarrow> config\<lparr> cfg_socket := s \<rparr>)
         in if cfg_socket config = [] then Inl (Literal ''socket must not be empty'')
            else if cfg_reconcile config = 0 then
              Inl (Literal ''reconcile must be at least 1 second'')
            else if cfg_priority config = 0 then
              Inl (Literal ''priority must be between 1 and 255'')
            else Inr (Run config)))"

section \<open>Which command lines are accepted\<close>

datatype path_option = ConfigOption | SocketOption

fun option_flag :: "path_option \<Rightarrow> string" where
  "option_flag ConfigOption = ''--config''"
| "option_flag SocketOption = ''--socket''"

definition render_args :: "(path_option \<times> string) list \<Rightarrow> string list" where
  "render_args opts = concat (map (\<lambda>(opt, v). [option_flag opt, v]) opts)"

text \<open>The value of the last occurrence of an option.\<close>

definition last_value :: "path_option \<Rightarrow> (path_option \<times> string) list \<Rightarrow> string option" where
  "last_value opt opts = map_of (rev opts) opt"

lemma last_value_Cons:
  "last_value opt ((o', v) # opts) =
     (case last_value opt opts of None \<Rightarrow> if o' = opt then Some v else None | Some x \<Rightarrow> Some x)"
  by (simp add: last_value_def map_add_def split: option.split)

lemma render_args_simps [simp]:
  "render_args [] = []"
  "render_args ((opt, v) # opts) = option_flag opt # v # render_args opts"
  by (simp_all add: render_args_def)

definition or_else :: "'a option \<Rightarrow> 'a option \<Rightarrow> 'a option" where
  "or_else x y = (case x of None \<Rightarrow> y | Some _ \<Rightarrow> x)"

lemma parse_args_rendered:
  assumes "\<forall>(opt, v) \<in> set opts. acceptable_value v"
  shows "parse_args (render_args opts) path socket =
    Inr (Selected (or_else (last_value ConfigOption opts) path) (or_else (last_value SocketOption opts) socket))"
  using assms
proof (induction opts arbitrary: path socket)
  case Nil
  then show ?case by (simp add: last_value_def or_else_def)
next
  case (Cons x opts)
  obtain opt v where x: "x = (opt, v)" by (cases x)
  with Cons show ?case
    by (cases opt) (auto simp: last_value_Cons or_else_def split: option.splits)
qed

lemma parse_args_accepts:
  assumes "parse_args args path socket = Inr (Selected p s)"
  shows "\<exists>opts. args = render_args opts \<and> (\<forall>(opt, v) \<in> set opts. acceptable_value v)"
  using assms
proof (induction args path socket rule: parse_args.induct)
  case (1 path socket)
  then show ?case by (auto intro: exI [of _ "[]"])
next
  case (2 arg args path socket)
  then obtain v rest opt where step: "args = v # rest" "acceptable_value v" "arg = option_flag opt"
      and ih: "\<exists>opts. rest = render_args opts \<and> (\<forall>(opt, v) \<in> set opts. acceptable_value v)"
    by (cases args) (auto split: if_splits intro: option_flag.simps [symmetric])
  then obtain opts where "rest = render_args opts" "\<forall>(opt, v) \<in> set opts. acceptable_value v" by blast
  with step show ?case by (intro exI [of _ "(opt, v) # opts"]) auto
qed

lemma parse_args_iff:
  "parse_args args None None = Inr (Selected p s) \<longleftrightarrow>
     (\<exists>opts. args = render_args opts \<and> list_all (\<lambda>(opt, v). acceptable_value v) opts \<and>
        p = last_value ConfigOption opts \<and> s = last_value SocketOption opts)"
proof
  assume parsed: "parse_args args None None = Inr (Selected p s)"
  then obtain opts where opts: "args = render_args opts" "\<forall>(opt, v) \<in> set opts. acceptable_value v"
    using parse_args_accepts by blast
  with parsed parse_args_rendered [OF opts(2), of None None]
  show "\<exists>opts. args = render_args opts \<and> list_all (\<lambda>(opt, v). acceptable_value v) opts \<and>
        p = last_value ConfigOption opts \<and> s = last_value SocketOption opts"
    by (intro exI [of _ opts]) (auto simp: or_else_def list_all_iff split: option.splits)
next
  assume "\<exists>opts. args = render_args opts \<and> list_all (\<lambda>(opt, v). acceptable_value v) opts \<and>
        p = last_value ConfigOption opts \<and> s = last_value SocketOption opts"
  then show "parse_args args None None = Inr (Selected p s)"
    using parse_args_rendered by (fastforce simp: or_else_def list_all_iff split: option.split)
qed

text \<open>
  C38. The command lines that select a configuration are exactly the renderings of lists of
  \<open>--config\<close> and \<open>--socket\<close> options with values that are not empty and do not begin with two
  dashes, and the last occurrence of each option counts.
\<close>

theorem parse_args_roundtrip:
  "parse_args args None None = Inr (Selected p s) \<longleftrightarrow>
     (\<exists>opts. args = render_args opts \<and> list_all (\<lambda>(opt, v). acceptable_value v) opts \<and>
        p = last_value ConfigOption opts \<and> s = last_value SocketOption opts)"
  by (rule parse_args_iff)

section \<open>Which configurations start the program\<close>

lemma load_selected:
  "load read_to_string from_toml args default_path = Inr (Run config) \<longleftrightarrow>
     (\<exists>path socket base. parse_args args None None = Inr (Selected path socket) \<and>
        read_config read_to_string from_toml path default_path = Inr base \<and>
        config = (case socket of None \<Rightarrow> base | Some s \<Rightarrow> base\<lparr> cfg_socket := s \<rparr>) \<and>
        cfg_socket config \<noteq> [] \<and> 1 \<le> unat (cfg_reconcile config) \<and> 1 \<le> unat (cfg_priority config))"
proof -
  have pos: "1 \<le> unat x \<longleftrightarrow> x \<noteq> 0" for x :: "'a :: len word"
    by (simp add: unat_eq_zero Suc_le_eq unat_gt_0)
  have not_run: "parse_args args None None \<noteq> Inr (Immediate (Run config))" for args config
  proof -
    have "parse_args args path socket \<noteq> Inr (Immediate (Run config))" for path socket
      by (induction args path socket rule: parse_args.induct) (auto split: list.splits)
    then show ?thesis by blast
  qed
  have checked: "(if cfg_socket c = [] then Inl e1 else if cfg_reconcile c = 0 then Inl e2
      else if cfg_priority c = 0 then Inl e3 else Inr (Run c)) = Inr (Run config) \<longleftrightarrow>
      c = config \<and> cfg_socket config \<noteq> [] \<and> cfg_reconcile config \<noteq> 0 \<and> cfg_priority config \<noteq> 0"
    for c and e1 e2 e3 :: message
    by auto
  show ?thesis
  proof (cases "parse_args args None None")
    case (Inl e)
    then show ?thesis by (simp add: load_def)
  next
    case (Inr parsed)
    then show ?thesis
      using not_run [of args config] unfolding load_def pos
      by (cases parsed) (auto simp: and_then_Inr_iff Let_def checked)
  qed
qed

text \<open>Where a configuration comes from before the command line overrides its socket.\<close>

definition base_config ::
    "(string \<Rightarrow> string io_result) \<Rightarrow> (string \<Rightarrow> string + Config) \<Rightarrow> string option \<Rightarrow> string \<Rightarrow>
     Config \<Rightarrow> bool" where
  "base_config read_to_string from_toml path default_path base \<longleftrightarrow>
     (case read_to_string (case path of None \<Rightarrow> default_path | Some p \<Rightarrow> p) of
        Inr contents \<Rightarrow> from_toml contents = Inr base
      | Inl error \<Rightarrow> path = None \<and> error_kind_of error = NotFound \<and> base = default_config)"

lemma read_config_iff:
  "read_config read_to_string from_toml path default_path = Inr base \<longleftrightarrow>
     base_config read_to_string from_toml path default_path base"
  by (auto simp: read_config_def base_config_def Let_def map_err_Inr_iff split: sum.split)

text \<open>
  C39. The program starts with a configuration exactly when the command line is the rendering of
  acceptable options, the file that the last \<open>--config\<close> selects, or else the default file, holds a
  configuration (an absent default file, and no other that cannot be read, stands for the
  defaults), and with the socket of the last \<open>--socket\<close> it has a socket, a reconciliation period
  of at least a second and a priority RFC 2741 allows.
\<close>

theorem load_starts:
  "load read_to_string from_toml args default_path = Inr (Run config) \<longleftrightarrow>
     (\<exists>opts base. args = render_args opts \<and> list_all (\<lambda>(opt, v). acceptable_value v) opts \<and>
        base_config read_to_string from_toml (last_value ConfigOption opts) default_path base \<and>
        config = (case last_value SocketOption opts of None \<Rightarrow> base | Some s \<Rightarrow> base\<lparr> cfg_socket := s \<rparr>) \<and>
        cfg_socket config \<noteq> [] \<and> 1 \<le> unat (cfg_reconcile config) \<and> 1 \<le> unat (cfg_priority config))"
  unfolding load_selected read_config_iff parse_args_iff by blast

text \<open>
  Only an absent default file is replaced by the defaults: a file named on the command line
  that cannot be read, or a default file that cannot be read for another reason, stops the
  program with an error.
\<close>

lemma missing_file:
  assumes "read_to_string (case path of None \<Rightarrow> default_path | Some p \<Rightarrow> p) = Inl error"
  shows "if path = None \<and> error_kind_of error = NotFound
    then read_config read_to_string from_toml path default_path = Inr default_config
    else \<exists>e. read_config read_to_string from_toml path default_path = Inl e"
  using assms by (auto simp: read_config_def)

lemma missing_file_witness:
  "\<exists>e. read_config (\<lambda>p. Inl (IoError NotFound (OsMessage 2))) (\<lambda>c. Inr default_config)
     (Some ''/tmp/x.toml'') DEFAULT_PATH = Inl e"
  using missing_file [where read_to_string = "\<lambda>p. Inl (IoError NotFound (OsMessage 2))" and
      path = "Some ''/tmp/x.toml''" and default_path = DEFAULT_PATH and
      error = "IoError NotFound (OsMessage 2)" and from_toml = "\<lambda>c. Inr default_config"]
  by simp

end
