(* ===== verification/Session.thy ===== *)
theory Session
  imports Monitor Config
begin

text \<open>
  \<open>src/session.rs\<close>: one AgentX session with the master agent over a Unix stream socket. The model
  follows \<open>run\<close> from the connection through the handshake (\<open>Open\<close> and \<open>Register\<close>, each
  acknowledged) to the loop that reads a frame, dispatches it and answers. The codec of the
  crate and the stream are arguments; the world \<open>'w\<close> behind the stream includes everything
  other threads do, so the published table is read from it, once per request.

  A call that may panic or not return is an \<open>option\<close>.
\<close>

section \<open>Constants\<close>

definition NETWORK_ORDER :: u8 where
  "NETWORK_ORDER = push_bit NETWORK_BYTE_ORDER 1"

definition IO_TIMEOUT :: duration where
  "IO_TIMEOUT = from_secs 5"

definition MAX_PAYLOAD :: u32 where
  "MAX_PAYLOAD = 1024 * 1024"

definition MAX_OID_SUBIDS :: nat where
  "MAX_OID_SUBIDS = 128"

definition NOT_WRITABLE :: u16 where
  "NOT_WRITABLE = 17"

definition COMMIT_FAILED :: u16 where
  "COMMIT_FAILED = 14"

definition UNDO_FAILED :: u16 where
  "UNDO_FAILED = 15"

section \<open>Errors\<close>

definition session_invalid :: "string \<Rightarrow> io_error" where
  "session_invalid text = IoError InvalidData (Literal text)"

definition frame_deadline :: io_error where
  "frame_deadline = IoError TimedOut (Literal ''AgentX PDU frame deadline exceeded'')"

section \<open>Answering a request\<close>

definition reply :: "'id pdu_ops \<Rightarrow> Header \<Rightarrow> 'id Response" where
  "reply px header =
     (let response = px_from_header px header
      in response\<lparr> rs_header := (rs_header response)\<lparr> hdr_flags := hdr_flags header AND NETWORK_ORDER \<rparr> \<rparr>)"

definition validate_oid :: "'id id_ops \<Rightarrow> 'id \<Rightarrow> unit io_result" where
  "validate_oid ids oid =
     (if MAX_OID_SUBIDS < length (split_on (CHR ''.'') (id_to_string ids oid))
      then Inl (session_invalid ''OID exceeds 128 sub-identifiers'') else Inr ())"

definition try_for :: "('a \<Rightarrow> unit io_result) \<Rightarrow> 'a list \<Rightarrow> unit io_result" where
  "try_for f xs = try_fold (\<lambda>u x. f x) () xs"

definition validate_range :: "'id id_ops \<Rightarrow> 'id SearchRange \<Rightarrow> unit io_result" where
  "validate_range ids rng =
     and_then (validate_oid ids (sr_start rng)) (\<lambda>_. validate_oid ids (sr_end rng))"

definition validate_binding :: "'id id_ops \<Rightarrow> 'id VarBind \<Rightarrow> unit io_result" where
  "validate_binding ids vb =
     and_then (validate_oid ids (vb_name vb)) (\<lambda>_.
       case vb_data vb of ObjectIdentifier v \<Rightarrow> validate_oid ids v | _ \<Rightarrow> Inr ())"

text \<open>The bindings of a \<open>Get\<close>, \<open>GetNext\<close> or \<open>GetBulk\<close> on a table.\<close>

definition lookup_all ::
    "'id id_ops \<Rightarrow> 'id mib \<Rightarrow> Type \<Rightarrow> 'id SearchRange list \<Rightarrow> (u16 \<times> u16) option \<Rightarrow>
     'id VarBind list option" where
  "lookup_all ids mib ty ranges bulk =
     (case bulk of
        Some (non_repeaters, max_repetitions) \<Rightarrow>
          Some (mib_get_bulk ids mib ranges non_repeaters max_repetitions)
      | None \<Rightarrow>
          map_panics (\<lambda>rng. if ty = TyGet then mib_get ids mib (sr_start rng)
            else Some (mib_get_next ids mib rng)) ranges)"

text \<open>The first arm of the match of \<open>dispatch\<close>.\<close>

definition dispatch_lookup ::
    "'id id_ops \<Rightarrow> 'id pdu_ops \<Rightarrow> Header \<Rightarrow> u8 list \<Rightarrow> 'id mib cell \<Rightarrow> 'id Response \<Rightarrow>
     ('id Response \<times> u16 option) io_result option" where
  "dispatch_lookup ids px header bytes tables response =
     (let request = (if hdr_ty header = TyGetBulk
            then and_then (px_get_bulk px bytes) (\<lambda>(sr, nr, mr). Inr (sr, Some (nr, mr)))
            else and_then (px_get px bytes) (\<lambda>sr. Inr (sr, None)))
      in case request of
           Inl e \<Rightarrow> Some (Inl e)
         | Inr (ranges, bulk) \<Rightarrow>
             (case try_for (validate_range ids) ranges of
                Inl e \<Rightarrow> Some (Inl e)
              | Inr _ \<Rightarrow>
                  if list_ex (\<lambda>rng. 1 < id_include ids (sr_start rng)) ranges
                  then Some (Inl (session_invalid ''invalid SearchRange include flag''))
                  else case snapshot tables of
                    Some mib \<Rightarrow> do {
                      vb \<leftarrow> lookup_all ids mib (hdr_ty header) ranges bulk;
                      Some (Inr (response\<lparr> rs_vb := Some vb \<rparr>, None))
                    }
                  | None \<Rightarrow> Some (Inr (response\<lparr> rs_res_error := ProcessingError \<rparr>, None))))"

definition dispatch ::
    "'id id_ops \<Rightarrow> 'id pdu_ops \<Rightarrow> Header \<Rightarrow> u8 list \<Rightarrow> 'id mib cell \<Rightarrow>
     ('id Response \<times> u16 option) io_result option" where
  "dispatch ids px header bytes tables =
     (let response = reply px header
      in if hdr_flags header AND push_bit NON_DEFAULT_CONTEXT 1 \<noteq> 0 then
           Some (Inr (response\<lparr> rs_res_error := UnsupportedContext \<rparr>, None))
         else case hdr_ty header of
           TyGet \<Rightarrow> dispatch_lookup ids px header bytes tables response
         | TyGetNext \<Rightarrow> dispatch_lookup ids px header bytes tables response
         | TyGetBulk \<Rightarrow> dispatch_lookup ids px header bytes tables response
         | TyTestSet \<Rightarrow> Some (
             and_then (px_test_set px bytes) (\<lambda>vb.
             and_then (try_for (validate_binding ids) vb) (\<lambda>_.
             if vb \<noteq> [] then Inr (response\<lparr> rs_res_index := 1 \<rparr>, Some NOT_WRITABLE)
             else Inr (response, None))))
         | TyCommitSet \<Rightarrow> Some (
             if hdr_payload_length header \<noteq> 0
             then Inl (session_invalid ''Set phase has a payload'')
             else Inr (response, Some COMMIT_FAILED))
         | TyUndoSet \<Rightarrow> Some (
             if hdr_payload_length header \<noteq> 0
             then Inl (session_invalid ''Set phase has a payload'')
             else Inr (response, Some UNDO_FAILED))
         | TyPing \<Rightarrow> Some (and_then (px_ping px bytes) (\<lambda>_. Inr (response, None)))
         | _ \<Rightarrow> Some (Inr (response\<lparr> rs_res_error := RequestDenied \<rparr>, None)))"

text \<open>
  The encoding of an answer: an SNMP error, which \<open>ResError\<close> does not have, is written over
  the error field. The range index panics on a shorter buffer.
\<close>

definition patch_error :: "u8 list \<Rightarrow> u8 list \<Rightarrow> u8 list option" where
  "patch_error encoded bytes =
     (if length bytes < 26 then None else Some (take 24 bytes @ encoded @ drop 26 bytes))"

definition encode_answer ::
    "'id pdu_ops \<Rightarrow> 'id Response \<Rightarrow> u16 option \<Rightarrow> u8 list io_result option" where
  "encode_answer px response snmp_error =
     (case px_response_bytes px response of
        Inl e \<Rightarrow> Some (Inl e)
      | Inr (bytes, response) \<Rightarrow>
          (case snmp_error of
             None \<Rightarrow> Some (Inr bytes)
           | Some error \<Rightarrow> do {
               bytes \<leftarrow> patch_error
                 (if hdr_flags (rs_header response) AND NETWORK_ORDER \<noteq> 0
                  then u16_to_be_bytes error else u16_to_le_bytes error) bytes;
               Some (Inr bytes)
             }))"

section \<open>Reading frames\<close>

record 'w stream_ops =
  st_connect :: "string \<Rightarrow> 'w \<Rightarrow> unit io_result \<times> 'w"
  st_set_read_timeout :: "duration option \<Rightarrow> 'w \<Rightarrow> unit io_result \<times> 'w"
  st_set_write_timeout :: "duration option \<Rightarrow> 'w \<Rightarrow> unit io_result \<times> 'w"
  st_read_timeout :: "'w \<Rightarrow> duration option io_result \<times> 'w"
  st_read :: "nat \<Rightarrow> 'w \<Rightarrow> u8 list io_result \<times> 'w"  \<comment> \<open>at most so many bytes\<close>
  st_write_all :: "u8 list \<Rightarrow> 'w \<Rightarrow> unit io_result \<times> 'w"
  st_clock :: "'w \<Rightarrow> duration \<times> 'w"

text \<open>\<open>Read::read_exact\<close> of the standard library.\<close>

definition read_exact_round ::
    "'w stream_ops \<Rightarrow> nat \<Rightarrow> u8 list \<times> 'w \<Rightarrow>
     (u8 list \<times> 'w, u8 list io_result \<times> 'w) control option" where
  "read_exact_round st n s =
     (let (got, w) = s
      in if n \<le> length got then Some (Leave (Inr got, w))
         else case st_read st (n - length got) w of
           (Inr bytes, w) \<Rightarrow>
             if bytes = [] then
               Some (Leave (Inl (IoError UnexpectedEof (Literal ''failed to fill whole buffer'')), w))
             else if n - length got < length bytes then None
             else Some (Again (got @ bytes, w))
         | (Inl e, w) \<Rightarrow>
             if error_kind_of e = Interrupted then Some (Again (got, w))
             else Some (Leave (Inl e, w)))"

definition read_exact ::
    "'w stream_ops \<Rightarrow> nat \<Rightarrow> 'w \<Rightarrow> (u8 list io_result \<times> 'w) option" where
  "read_exact st n w = loop (read_exact_round st n) ([], w)"

text \<open>
  \<open>read_before\<close>: the part of the buffer that is filled stands for the slice that is advanced.
  \<open>ErrorKind::UnexpectedEof.into()\<close> has no message of its own.
\<close>

definition read_before_round ::
    "'w stream_ops \<Rightarrow> nat \<Rightarrow> duration \<Rightarrow> u8 list \<times> 'w \<Rightarrow>
     (u8 list \<times> 'w, u8 list io_result \<times> 'w) control option" where
  "read_before_round st n deadline s =
     (let (got, w) = s
      in if n \<le> length got then Some (Leave (Inr got, w))
         else
           let (t, w) = st_clock st w;
               remaining = saturating_sub deadline t
           in if remaining = 0 then Some (Leave (Inl frame_deadline, w))
              else case st_set_read_timeout st (Some remaining) w of
                (Inl e, w) \<Rightarrow> Some (Leave (Inl e, w))
              | (Inr _, w) \<Rightarrow>
                  (case st_read st (n - length got) w of
                     (Inr bytes, w) \<Rightarrow>
                       if bytes = [] then Some (Leave (Inl (IoError UnexpectedEof (Literal [])), w))
                       else if n - length got < length bytes then None
                       else Some (Again (got @ bytes, w))
                   | (Inl e, w) \<Rightarrow>
                       if error_kind_of e = Interrupted then Some (Again (got, w))
                       else if error_kind_of e \<in> {TimedOut, WouldBlock}
                       then Some (Leave (Inl frame_deadline, w))
                       else Some (Leave (Inl e, w))))"

definition read_before ::
    "'w stream_ops \<Rightarrow> nat \<Rightarrow> duration \<Rightarrow> 'w \<Rightarrow> (u8 list io_result \<times> 'w) option" where
  "read_before st n deadline w = loop (read_before_round st n deadline) ([], w)"

text \<open>\<open>receive\<close>: the header, then as many bytes as it announces, before one deadline.\<close>

definition receive ::
    "'id pdu_ops \<Rightarrow> 'w stream_ops \<Rightarrow> duration \<Rightarrow> 'w \<Rightarrow> ((Header \<times> u8 list) io_result \<times> 'w) option" where
  "receive px st frame_budget w =
     try_call (read_exact st 1 w) (\<lambda>lead w.
     try_call (Some (st_read_timeout st w)) (\<lambda>idle_timeout w.
     let (t, w) = st_clock st w;
         deadline = t + frame_budget
     in try_call (read_before st 19 deadline w) (\<lambda>rest w.
     case px_header px (lead @ rest) of
       Inl e \<Rightarrow> Some (Inl e, w)
     | Inr header \<Rightarrow>
         if hdr_version header \<noteq> 1 \<or> MAX_PAYLOAD < hdr_payload_length header \<or>
            hdr_payload_length header mod 4 \<noteq> 0
         then Some (Inl (session_invalid ''invalid AgentX version or payload length''), w)
         else
           try_call (read_before st (unat (hdr_payload_length header)) deadline w) (\<lambda>payload w.
           try_call (Some (st_set_read_timeout st idle_timeout w)) (\<lambda>_ w.
           Some (Inr (header, lead @ rest @ payload), w))))))"

text \<open>\<open>&bytes[a..b]\<close>, which panics out of range.\<close>

definition slice :: "nat \<Rightarrow> nat \<Rightarrow> u8 list \<Rightarrow> u8 list option" where
  "slice a b bytes = (if a \<le> b \<and> b \<le> length bytes then Some (take (b - a) (drop a bytes)) else None)"

text \<open>The checks of \<open>acknowledge\<close> on the frame it received.\<close>

definition check_acknowledgement ::
    "'id pdu_ops \<Rightarrow> Header \<Rightarrow> Header \<Rightarrow> u8 list \<Rightarrow> Header io_result option" where
  "check_acknowledgement px request header bytes =
     (if hdr_ty header \<noteq> TyResponse \<or> hdr_payload_length header < 8 \<or>
         hdr_packet_id header \<noteq> hdr_packet_id request \<or>
         hdr_transaction_id header \<noteq> hdr_transaction_id request \<or>
         (hdr_ty request \<noteq> TyOpen \<and> hdr_session_id header \<noteq> hdr_session_id request)
      then Some (Inl (session_invalid ''unexpected AgentX acknowledgement''))
      else do {
        let order = (if hdr_flags header AND NETWORK_ORDER \<noteq> 0 then BigEndian else LittleEndian);
        field \<leftarrow> slice 24 26 bytes;
        case px_res_error px field order of
          Inl e \<Rightarrow> Some (Inl e)
        | Inr error \<Rightarrow>
            if error \<noteq> NoAgentXError then
              Some (Inl (IoError OtherError (Formatted ''AgentX {:?} rejected: {error:?}''
                [ArgText (px_debug_type px (hdr_ty request)), ArgText (px_debug_error px error)])))
            else do {
              index \<leftarrow> slice 26 28 bytes;
              Some (if index \<noteq> [0, 0]
                then Inl (session_invalid ''nonzero administrative response error index'')
                else Inr header)
            }
      })"

definition acknowledge ::
    "'id pdu_ops \<Rightarrow> 'w stream_ops \<Rightarrow> Header \<Rightarrow> 'w \<Rightarrow> (Header io_result \<times> 'w) option" where
  "acknowledge px st request w =
     try_call (receive px st IO_TIMEOUT w) (\<lambda>(header, bytes) w. do {
       r \<leftarrow> check_acknowledgement px request header bytes;
       Some (r, w)
     })"

section \<open>The session\<close>

text \<open>From the connection to the acknowledged \<open>Open\<close>.\<close>

definition open_session ::
    "'id pdu_ops \<Rightarrow> 'w stream_ops \<Rightarrow> Config \<Rightarrow> 'w \<Rightarrow> (Header io_result \<times> 'w) option" where
  "open_session px st config w =
     try_call (Some (st_connect st (cfg_socket config) w)) (\<lambda>_ w.
     try_call (Some (st_set_read_timeout st (Some IO_TIMEOUT) w)) (\<lambda>_ w.
     try_call (Some (st_set_write_timeout st (Some IO_TIMEOUT) w)) (\<lambda>_ w.
     let pdu = px_open_new px (px_default_id px) ''agentx-ifstack'';
         pdu = pdu\<lparr> op_timeout := IO_TIMEOUT,
           op_header := (op_header pdu)\<lparr> hdr_flags := NETWORK_ORDER, hdr_packet_id := 1 \<rparr> \<rparr>
     in case px_open_bytes px pdu of
          Inl e \<Rightarrow> Some (Inl e, w)
        | Inr (bytes, pdu) \<Rightarrow>
            try_call (Some (st_write_all st bytes w)) (\<lambda>_ w.
            acknowledge px st (op_header pdu) w))))"

text \<open>The registration of the table, up to the point where \<open>registered\<close> is called.\<close>

definition register_table ::
    "'id id_ops \<Rightarrow> 'id pdu_ops \<Rightarrow> 'w stream_ops \<Rightarrow> Config \<Rightarrow> Header \<Rightarrow> 'w \<Rightarrow>
     (unit io_result \<times> 'w) option" where
  "register_table ids px st config opened w =
     (case id_try_from ids TABLE of
        Inl e \<Rightarrow> Some (Inl e, w)
      | Inr subtree \<Rightarrow>
          let pdu = px_register_new px subtree;
              pdu = pdu\<lparr> rg_priority := cfg_priority config,
                rg_header := (rg_header pdu)\<lparr> hdr_session_id := hdr_session_id opened,
                  hdr_flags := hdr_flags opened AND NETWORK_ORDER, hdr_packet_id := 2 \<rparr> \<rparr>
          in case px_register_bytes px pdu of
               Inl e \<Rightarrow> Some (Inl e, w)
             | Inr (bytes, pdu) \<Rightarrow>
                 try_call (Some (st_write_all st bytes w)) (\<lambda>_ w.
                 try_call (acknowledge px st (rg_header pdu) w) (\<lambda>_ w.
                 Some (st_set_read_timeout st None w))))"

text \<open>The writing of an answer; the session goes on, or ends with the error.\<close>

definition answer ::
    "'w stream_ops \<Rightarrow> u8 list io_result \<Rightarrow> 'w \<Rightarrow> ('w, unit io_result \<times> 'w) control option" where
  "answer st encoded w =
     (case encoded of
        Inl e \<Rightarrow> Some (Leave (Inl e, w))
      | Inr bytes \<Rightarrow>
          (case st_write_all st bytes w of
             (Inl e, w) \<Rightarrow> Some (Leave (Inl e, w))
           | (Inr _, w) \<Rightarrow> Some (Again w)))"

text \<open>What the loop does with a frame.\<close>

definition handle_frame ::
    "'id id_ops \<Rightarrow> 'id pdu_ops \<Rightarrow> 'w stream_ops \<Rightarrow> ('w \<Rightarrow> 'id mib cell) \<Rightarrow> u32 \<Rightarrow>
     Header \<Rightarrow> u8 list \<Rightarrow> 'w \<Rightarrow> ('w, unit io_result \<times> 'w) control option" where
  "handle_frame ids px st tables session_id header bytes w =
     (if hdr_session_id header \<noteq> session_id then do {
        encoded \<leftarrow> encode_answer px ((reply px header)\<lparr> rs_res_error := NotOpen \<rparr>) None;
        answer st encoded w
      }
      else if hdr_ty header = TyClose then
        (case px_close px bytes of
           Inl e \<Rightarrow> Some (Leave (Inl e, w))
         | Inr _ \<Rightarrow> do {
             encoded \<leftarrow> encode_answer px (reply px header) None;
             c \<leftarrow> answer st encoded w;
             case c of
               Leave r \<Rightarrow> Some (Leave r)
             | Again w \<Rightarrow> Some (Leave (Inr (), w))
           })
      else if hdr_ty header = TyCleanupSet then
        (if hdr_payload_length header \<noteq> 0
         then Some (Leave (Inl (session_invalid ''CleanupSet has a payload''), w))
         else Some (Again w))
      else do {
        d \<leftarrow> dispatch ids px header bytes (tables w);
        let (response, snmp_error) = (case d of
            Inr result \<Rightarrow> result
          | Inl error \<Rightarrow> ((reply px header)\<lparr> rs_res_error := ParseError \<rparr>, None));
        encoded \<leftarrow> encode_answer px response snmp_error;
        answer st encoded w
      })"

definition serve_round ::
    "'id id_ops \<Rightarrow> 'id pdu_ops \<Rightarrow> 'w stream_ops \<Rightarrow> ('w \<Rightarrow> 'id mib cell) \<Rightarrow> u32 \<Rightarrow> 'w \<Rightarrow>
     ('w, unit io_result \<times> 'w) control option" where
  "serve_round ids px st tables session_id w = do {
     (r, w) \<leftarrow> receive px st IO_TIMEOUT w;
     case r of
       Inl e \<Rightarrow> Some (Leave (Inl e, w))
     | Inr (header, bytes) \<Rightarrow> handle_frame ids px st tables session_id header bytes w
   }"

definition session_run ::
    "'id id_ops \<Rightarrow> 'id pdu_ops \<Rightarrow> 'w stream_ops \<Rightarrow> Config \<Rightarrow> ('w \<Rightarrow> 'id mib cell) \<Rightarrow>
     ('w \<Rightarrow> 'w) \<Rightarrow> 'w \<Rightarrow> (unit io_result \<times> 'w) option" where
  "session_run ids px st config tables registered w =
     try_call (open_session px st config w) (\<lambda>opened w.
     try_call (register_table ids px st config opened w) (\<lambda>_ w.
     loop (serve_round ids px st tables (hdr_session_id opened)) (registered w)))"

section \<open>Valid requests\<close>

text \<open>
  A request is well formed when every identifier has at most 128 components and every include
  flag is zero or one.
\<close>

definition oid_ok :: "('id \<Rightarrow> u32 list) \<Rightarrow> 'id \<Rightarrow> bool" where
  "oid_ok subids oid \<longleftrightarrow> length (subids oid) \<le> 128"

definition range_ok :: "'id id_ops \<Rightarrow> ('id \<Rightarrow> u32 list) \<Rightarrow> 'id SearchRange \<Rightarrow> bool" where
  "range_ok ids subids rng \<longleftrightarrow>
     oid_ok subids (sr_start rng) \<and> oid_ok subids (sr_end rng) \<and> id_include ids (sr_start rng) \<le> 1"

definition binding_ok :: "('id \<Rightarrow> u32 list) \<Rightarrow> 'id VarBind \<Rightarrow> bool" where
  "binding_ok subids vb \<longleftrightarrow> oid_ok subids (vb_name vb) \<and>
     (\<forall>v. vb_data vb = ObjectIdentifier v \<longrightarrow> oid_ok subids v)"

lemma try_for_iff: "try_for f xs = Inr u \<longleftrightarrow> (\<forall>x \<in> set xs. f x = Inr ())"
  unfolding try_for_def by (induction xs) (auto simp: and_then_Inr_iff)

lemma try_for_fails: "(\<exists>e. try_for f xs = Inl e) \<longleftrightarrow> \<not> (\<forall>x \<in> set xs. f x = Inr ())"
  using try_for_iff [of f xs] by (cases "try_for f xs") auto

context agentx_ids
begin

lemma validate_oid_iff: "validate_oid ids oid = Inr u \<longleftrightarrow> oid_ok subids oid"
  using count_components [of oid] by (auto simp: validate_oid_def oid_ok_def MAX_OID_SUBIDS_def)

lemma validate_range_iff:
  "validate_range ids rng = Inr u \<longleftrightarrow> oid_ok subids (sr_start rng) \<and> oid_ok subids (sr_end rng)"
  by (simp add: validate_range_def and_then_Inr_iff validate_oid_iff)

lemma validate_binding_iff: "validate_binding ids vb = Inr u \<longleftrightarrow> binding_ok subids vb"
  by (auto simp: validate_binding_def and_then_Inr_iff validate_oid_iff binding_ok_def
      split: Value.splits)

lemma mib_get_returns: "\<exists>vb. mib_get ids m name = Some vb"
proof -
  obtain a b where "expect_id ids STATUS = Some a" "expect_id ids (STATUS[10 := STATUS ! 10 + 1]) = Some b"
    using expect_id_Some [of STATUS] expect_id_Some [of "STATUS[10 := STATUS ! 10 + 1]"]
    by (auto simp: STATUS_def)
  then show ?thesis by (auto simp: mib_get_def split: option.split)
qed

lemma lookup_all_returns: "\<exists>vb. lookup_all ids m ty ranges bulk = Some vb"
proof (cases bulk)
  case None
  have "\<exists>ys. map_panics (\<lambda>rng. if ty = TyGet then mib_get ids m (sr_start rng)
      else Some (mib_get_next ids m rng)) ranges = Some ys"
  proof (induction ranges)
    case (Cons rng ranges)
    then show ?case using mib_get_returns [of m "sr_start rng"] by auto
  qed simp
  then show ?thesis by (simp add: lookup_all_def None)
next
  case (Some counts)
  then show ?thesis by (cases counts) (simp add: lookup_all_def)
qed

text \<open>What a \<open>Get\<close>, \<open>GetNext\<close> or \<open>GetBulk\<close> leads to, once its ranges are decoded.\<close>

lemma dispatch_lookup_parsed:
  assumes "(if hdr_ty header = TyGetBulk
      then and_then (px_get_bulk px bytes) (\<lambda>(sr, nr, mr). Inr (sr, Some (nr, mr)))
      else and_then (px_get px bytes) (\<lambda>sr. Inr (sr, None))) = Inr (ranges, bulk)"
  shows "dispatch_lookup ids px header bytes tables response =
    (if list_all (range_ok ids subids) ranges then
       (case tables of
          None \<Rightarrow> Some (Inr (response\<lparr> rs_res_error := ProcessingError \<rparr>, None))
        | Some m \<Rightarrow> do {
            vb \<leftarrow> lookup_all ids m (hdr_ty header) ranges bulk;
            Some (Inr (response\<lparr> rs_vb := Some vb \<rparr>, None))
          })
     else Some (Inl (if \<exists>rng \<in> set ranges. \<not> (oid_ok subids (sr_start rng) \<and> oid_ok subids (sr_end rng))
       then session_invalid ''OID exceeds 128 sub-identifiers''
       else session_invalid ''invalid SearchRange include flag'')))"
proof (cases "\<forall>rng \<in> set ranges. oid_ok subids (sr_start rng) \<and> oid_ok subids (sr_end rng)")
  case True
  then have "try_for (validate_range ids) ranges = Inr ()"
    by (simp add: try_for_iff validate_range_iff)
  moreover have "list_ex (\<lambda>rng. 1 < id_include ids (sr_start rng)) ranges \<longleftrightarrow>
      \<not> list_all (range_ok ids subids) ranges"
    using True by (auto simp: list_ex_iff list_all_iff range_ok_def not_le)
  ultimately show ?thesis
    using True assms by (auto simp: dispatch_lookup_def Let_def snapshot_def)
next
  case False
  then obtain e where e: "try_for (validate_range ids) ranges = Inl e"
    using try_for_fails [of "validate_range ids" ranges] by (auto simp: validate_range_iff)
  have "e = session_invalid ''OID exceeds 128 sub-identifiers''"
  proof -
    obtain pre rng post u where "validate_range ids rng = Inl e"
      using e unfolding try_for_def by (rule try_fold_error) auto
    then show ?thesis
      by (auto simp: validate_range_def validate_oid_def and_then_Inl_iff split: if_splits)
  qed
  moreover have "\<not> list_all (range_ok ids subids) ranges"
    using False by (auto simp: list_all_iff range_ok_def)
  ultimately show ?thesis
    using False assms e by (auto simp: dispatch_lookup_def Let_def)
qed

lemma dispatch_lookup_returns:
  "\<exists>r. dispatch_lookup ids px header bytes tables response = Some r"
proof (cases "if hdr_ty header = TyGetBulk
      then and_then (px_get_bulk px bytes) (\<lambda>(sr, nr, mr). Inr (sr, Some (nr, mr)))
      else and_then (px_get px bytes) (\<lambda>sr. Inr (sr, None))")
  case (Inl e)
  then show ?thesis by (simp only: dispatch_lookup_def Let_def sum.case) blast
next
  case (Inr x)
  obtain ranges bulk where x: "x = (ranges, bulk)" by (cases x)
  have "\<exists>vb. lookup_all ids m (hdr_ty header) ranges bulk = Some vb" for m
    by (rule lookup_all_returns)
  then have "\<exists>r. (do { vb \<leftarrow> lookup_all ids m (hdr_ty header) ranges bulk;
      Some (Inr (response\<lparr> rs_vb := Some vb \<rparr>, None)) }) = Some r" for m
    by (metis bind.bind_lunit)
  then show ?thesis
    unfolding dispatch_lookup_parsed [OF Inr [unfolded x]]
    by (cases "list_all (range_ok ids subids) ranges"; cases tables) simp_all
qed

lemma dispatch_returns: "\<exists>r. dispatch ids px header bytes tables = Some r"
  using dispatch_lookup_returns [of px header bytes tables "reply px header"]
  by (auto simp: dispatch_def Let_def split: Type.split)

end

section \<open>The contract of the codec\<close>

text \<open>
  What the session relies on in the codec: a response answers the request it is made from,
  without an error and without bindings; encoding keeps the flags of the header, and the
  encoding has the twenty bytes of the header and the eight fixed bytes of a response (RFC
  2741, 6.2.16) at least.
\<close>

locale agentx_pdus =
  fixes px :: "'id pdu_ops"
  assumes from_header_law: "hdr_ty (rs_header (px_from_header px h)) = TyResponse"
      "hdr_session_id (rs_header (px_from_header px h)) = hdr_session_id h"
      "hdr_transaction_id (rs_header (px_from_header px h)) = hdr_transaction_id h"
      "hdr_packet_id (rs_header (px_from_header px h)) = hdr_packet_id h"
    and from_header_clean: "rs_res_error (px_from_header px h) = NoAgentXError"
      "rs_res_index (px_from_header px h) = 0" "rs_vb (px_from_header px h) = None"
    and response_law: "px_response_bytes px r = Inr (bytes, r') \<Longrightarrow>
      28 \<le> length bytes \<and> hdr_flags (rs_header r') = hdr_flags (rs_header r)"
begin

lemma encode_answer_returns: "\<exists>r. encode_answer px response err = Some r"
proof (cases "px_response_bytes px response")
  case (Inr x)
  obtain bytes response' where x: "x = (bytes, response')" by (cases x)
  have "28 \<le> length bytes" using response_law Inr x by blast
  then show ?thesis
    by (cases err) (auto simp: encode_answer_def Inr x patch_error_def)
qed (simp add: encode_answer_def)

lemma reply_fields:
  "hdr_session_id (rs_header (reply px h)) = hdr_session_id h"
  "hdr_transaction_id (rs_header (reply px h)) = hdr_transaction_id h"
  "hdr_packet_id (rs_header (reply px h)) = hdr_packet_id h"
  "hdr_ty (rs_header (reply px h)) = TyResponse"
  "hdr_flags (rs_header (reply px h)) = hdr_flags h AND NETWORK_ORDER"
  by (simp_all add: reply_def Let_def from_header_law)

end

text \<open>Whatever the request, its answer has the header of a reply.\<close>

lemma dispatch_lookup_header:
  assumes "dispatch_lookup ids px header bytes tables response = Some (Inr (response', err))"
  shows "rs_header response' = rs_header response \<and> err = None"
  using assms
  by (auto simp: dispatch_lookup_def Let_def split: sum.splits if_splits option.splits bind_splits prod.splits)

lemma dispatch_header:
  assumes "dispatch ids px header bytes tables = Some (Inr (response, err))"
  shows "rs_header response = rs_header (reply px header)"
proof (cases "hdr_flags header AND push_bit NON_DEFAULT_CONTEXT 1 \<noteq> 0")
  case True
  then show ?thesis using assms by (auto simp: dispatch_def)
next
  case False
  show ?thesis
  proof (cases "hdr_ty header \<in> {TyGet, TyGetNext, TyGetBulk}")
    case True
    then have "dispatch_lookup ids px header bytes tables (reply px header) = Some (Inr (response, err))"
      using assms False by (auto simp: dispatch_def)
    then show ?thesis using dispatch_lookup_header by blast
  next
    case other: False
    then show ?thesis
      using assms False
      by (cases "hdr_ty header")
        (auto simp: dispatch_def Let_def and_then_Inr_iff split: if_splits)
  qed
qed

text \<open>
  What it is to write bytes to the master: the session goes on after a write that succeeds, and
  ends with the error of one that fails.
\<close>

definition delivered :: "'w stream_ops \<Rightarrow> u8 list \<Rightarrow> 'w \<Rightarrow> ('w, unit io_result \<times> 'w) control option" where
  "delivered st bytes w =
     (case st_write_all st bytes w of
        (Inr _, w') \<Rightarrow> Some (Again w')
      | (Inl e, w') \<Rightarrow> Some (Leave (Inl e, w')))"

lemma answer_delivered:
  "answer st (Inr bytes) w = delivered st bytes w" "answer st (Inl e) w = Some (Leave (Inl e, w))"
  by (simp_all add: answer_def delivered_def split: prod.split sum.split)

section \<open>What requests are answered with\<close>

text \<open>
  A GET in the default context, for identifiers of at most 128 components, is answered with
  one binding per range, in order: the value 1 for the name of a row of the table, \<open>noSuchInstance\<close>
  for another name under the column, \<open>noSuchObject\<close> elsewhere.
\<close>

lemma get_answered:
  assumes "agentx_ids ids subids" "serves ids subids m rows"
    and "hdr_ty header = TyGet" "hdr_flags header AND 8 = 0"
    and "px_get px bytes = Inr ranges" "list_all (range_ok ids subids) ranges"
  shows "dispatch ids px header bytes (Some m) = Some (Inr ((reply px header)\<lparr> rs_vb := Some
    (map (\<lambda>rng. binding ids (sr_start rng)
       (if subids (sr_start rng) \<in> instance_of ` rows then Integer 1
        else if \<exists>rest. subids (sr_start rng) = STATUS @ rest then NoSuchInstance
        else NoSuchObject)) ranges) \<rparr>, None))"
proof -
  have "lookup_all ids m TyGet ranges None = Some (map (\<lambda>rng. binding ids (sr_start rng)
       (if subids (sr_start rng) \<in> instance_of ` rows then Integer 1
        else if \<exists>rest. subids (sr_start rng) = STATUS @ rest then NoSuchInstance
        else NoSuchObject)) ranges)"
    unfolding lookup_all_def option.case
    by (rule map_panics_Some) (simp add: agentx_ids.get_row [OF assms(1,2)])
  then show ?thesis
    using assms(3-6) agentx_ids.dispatch_lookup_parsed [OF assms(1), of header px bytes ranges None]
    by (simp add: dispatch_def NON_DEFAULT_CONTEXT_def)
qed

text \<open>
  A GETNEXT or GETBULK in the default context with valid ranges is answered with what the
  table gives for its ranges, and without an error.
\<close>

lemma dispatch_walk:
  assumes "agentx_ids ids subids" "hdr_flags header AND 8 = 0"
    and "list_all (range_ok ids subids) ranges"
    and "hdr_ty header = TyGetNext \<and> px_get px bytes = Inr ranges \<and>
        vbs = map (mib_get_next ids m) ranges \<or>
      hdr_ty header = TyGetBulk \<and> px_get_bulk px bytes = Inr (ranges, nr, mr) \<and>
        vbs = mib_get_bulk ids m ranges nr mr"
  shows "dispatch ids px header bytes (Some m) =
    Some (Inr ((reply px header)\<lparr> rs_vb := Some vbs \<rparr>, None))"
  using assms(4)
proof
  assume next_request: "hdr_ty header = TyGetNext \<and> px_get px bytes = Inr ranges \<and>
    vbs = map (mib_get_next ids m) ranges"
  then have "lookup_all ids m TyGetNext ranges None = Some vbs"
    by (simp add: lookup_all_def map_panics_Some)
  then show ?thesis
    using next_request assms(2,3)
      agentx_ids.dispatch_lookup_parsed [OF assms(1), of header px bytes ranges None]
    by (simp add: dispatch_def NON_DEFAULT_CONTEXT_def)
next
  assume bulk: "hdr_ty header = TyGetBulk \<and> px_get_bulk px bytes = Inr (ranges, nr, mr) \<and>
    vbs = mib_get_bulk ids m ranges nr mr"
  then show ?thesis
    using assms(2,3)
      agentx_ids.dispatch_lookup_parsed [OF assms(1), of header px bytes ranges "Some (nr, mr)"]
    by (simp add: dispatch_def NON_DEFAULT_CONTEXT_def lookup_all_def)
qed

text \<open>
  C31. A GET or GETNEXT in the default context whose ranges do not decode, hold an identifier of
  more than 128 components or an include flag above one is refused as malformed, whether or not
  a table is published, and no other one is: the others in the default context are answered, and
  one in another context is answered with \<open>unsupportedContext\<close>, even if its ranges do not decode.
\<close>

theorem dispatch_malformed:
  assumes "agentx_ids ids subids" and "hdr_ty header = TyGet \<or> hdr_ty header = TyGetNext"
  shows "((\<exists>e. dispatch ids px header bytes tables = Some (Inl e)) \<longleftrightarrow> hdr_flags header AND 8 = 0 \<and>
      \<not> (\<exists>ranges. px_get px bytes = Inr ranges \<and> list_all (range_ok ids subids) ranges)) \<and>
    (hdr_flags header AND 8 \<noteq> 0 \<longrightarrow> dispatch ids px header bytes tables =
      Some (Inr ((reply px header)\<lparr> rs_res_error := UnsupportedContext \<rparr>, None)))"
proof (cases "hdr_flags header AND 8 = 0")
  case False
  then show ?thesis by (simp add: dispatch_def NON_DEFAULT_CONTEXT_def)
next
  case True
  then have d: "dispatch ids px header bytes tables =
      dispatch_lookup ids px header bytes tables (reply px header)"
    using assms(2) by (auto simp: dispatch_def NON_DEFAULT_CONTEXT_def)
  show ?thesis
  proof (cases "px_get px bytes")
    case (Inl e)
    then show ?thesis using True assms(2) by (auto simp: d dispatch_lookup_def)
  next
    case (Inr ranges)
    have answered: "(do { vb \<leftarrow> lookup_all ids m (hdr_ty header) ranges None;
        Some (Inr ((reply px header)\<lparr> rs_vb := Some vb \<rparr>, None :: u16 option)) }) \<noteq> Some (Inl e)"
      for m and e :: io_error
      using agentx_ids.lookup_all_returns [OF assms(1), of m "hdr_ty header" ranges None] by auto
    have "dispatch_lookup ids px header bytes tables (reply px header) = (if list_all (range_ok ids subids) ranges then
       (case tables of
          None \<Rightarrow> Some (Inr ((reply px header)\<lparr> rs_res_error := ProcessingError \<rparr>, None))
        | Some m \<Rightarrow> do {
            vb \<leftarrow> lookup_all ids m (hdr_ty header) ranges None;
            Some (Inr ((reply px header)\<lparr> rs_vb := Some vb \<rparr>, None))
          })
     else Some (Inl (if \<exists>rng \<in> set ranges. \<not> (oid_ok subids (sr_start rng) \<and> oid_ok subids (sr_end rng))
       then session_invalid ''OID exceeds 128 sub-identifiers''
       else session_invalid ''invalid SearchRange include flag'')))"
      by (rule agentx_ids.dispatch_lookup_parsed [OF assms(1)]) (use assms(2) Inr in auto)
    then show ?thesis
      unfolding d using Inr answered True
      by (cases "list_all (range_ok ids subids) ranges"; cases tables) simp_all
  qed
qed

lemma unavailable_answered:
  assumes "agentx_ids ids subids" "hdr_flags header AND 8 = 0"
    and "list_all (range_ok ids subids) ranges"
    and "hdr_ty header \<in> {TyGet, TyGetNext} \<and> px_get px bytes = Inr ranges \<or>
      hdr_ty header = TyGetBulk \<and> px_get_bulk px bytes = Inr (ranges, nr, mr)"
  shows "dispatch ids px header bytes publication =
    Some (Inr ((reply px header)\<lparr> rs_res_error := ProcessingError \<rparr>, None))"
  using assms(4)
proof
  assume "hdr_ty header \<in> {TyGet, TyGetNext} \<and> px_get px bytes = Inr ranges"
  then show ?thesis
    using assms(2,3) agentx_ids.dispatch_lookup_parsed [OF assms(1), of header px bytes ranges None]
    by (auto simp: dispatch_def NON_DEFAULT_CONTEXT_def publication_def)
next
  assume "hdr_ty header = TyGetBulk \<and> px_get_bulk px bytes = Inr (ranges, nr, mr)"
  then show ?thesis
    using assms(2,3)
      agentx_ids.dispatch_lookup_parsed [OF assms(1), of header px bytes ranges "Some (nr, mr)"]
    by (simp add: dispatch_def NON_DEFAULT_CONTEXT_def publication_def)
qed


section \<open>The error field of an answer\<close>

lemma error_patched:
  assumes "px_response_bytes px response = Inr (bytes, sent)" "28 \<le> length bytes"
  shows "\<exists>out. encode_answer px response (Some error) = Some (Inr out) \<and>
    length out = length bytes \<and> take 24 out = take 24 bytes \<and> drop 26 out = drop 26 bytes \<and>
    (if hdr_flags (rs_header sent) AND NETWORK_ORDER \<noteq> 0
     then u16_from_be_bytes (out ! 24) (out ! 25) else u16_from_be_bytes (out ! 25) (out ! 24)) = error"
proof -
  let ?enc = "if hdr_flags (rs_header sent) AND NETWORK_ORDER \<noteq> 0
    then u16_to_be_bytes error else u16_to_le_bytes error"
  let ?out = "take 24 bytes @ ?enc @ drop 26 bytes"
  have enc: "encode_answer px response (Some error) = Some (Inr ?out)"
    using assms by (simp add: encode_answer_def patch_error_def)
  have len: "length ?enc = 2" "length (take 24 bytes) = 24" using assms(2) by simp_all
  have at: "?out ! 24 = ?enc ! 0" "?out ! 25 = ?enc ! 1"
    using len by (simp_all add: nth_append del: if_split)
  show ?thesis
  proof (intro exI conjI)
    show "take 24 ?out = take 24 bytes" using len(2) by simp
    show "length ?out = length bytes" "drop 26 ?out = drop 26 bytes" using len assms(2) by simp_all
    show "(if hdr_flags (rs_header sent) AND NETWORK_ORDER \<noteq> 0
       then u16_from_be_bytes (?out ! 24) (?out ! 25) else u16_from_be_bytes (?out ! 25) (?out ! 24)) = error"
      unfolding at by (simp add: u16_to_be_bytes_def u16_to_le_bytes_def u16_be_roundtrip)
  qed (rule enc)
qed

text \<open>
  C33. An SNMP error reaches the master: the answer is the encoded response with the two bytes of
  its error field replaced, and these decode to the error in the byte order the answer is
  sent in.
\<close>

theorem snmp_error_roundtrip:
  assumes "px_response_bytes px response = Inr (bytes, sent)" "28 \<le> length bytes"
  shows "\<exists>out. encode_answer px response (Some error) = Some (Inr out) \<and>
    length out = length bytes \<and> take 24 out = take 24 bytes \<and> drop 26 out = drop 26 bytes \<and>
    (if hdr_flags (rs_header sent) AND NETWORK_ORDER \<noteq> 0
     then u16_from_be_bytes (out ! 24) (out ! 25) else u16_from_be_bytes (out ! 25) (out ! 24)) = error"
  by (rule error_patched [OF assms])

section \<open>Frames\<close>

lemma read_exact_length:
  assumes "read_exact st n w = Some (Inr bytes, w')"
  shows "length bytes = n"
proof -
  have "case (Inr bytes, w') of (r, w') \<Rightarrow> \<forall>got. (r :: u8 list io_result) = Inr got \<longrightarrow> length got = n"
    using assms unfolding read_exact_def
    by (rule loop_invariant [where P = "\<lambda>(got, w). length got \<le> n"])
      (auto simp: read_exact_round_def split: prod.splits sum.splits if_splits)
  then show ?thesis by simp
qed

lemma read_before_length:
  assumes "read_before st n deadline w = Some (Inr bytes, w')"
  shows "length bytes = n"
proof -
  have "case (Inr bytes, w') of (r, w') \<Rightarrow> \<forall>got. (r :: u8 list io_result) = Inr got \<longrightarrow> length got = n"
    using assms unfolding read_before_def
    by (rule loop_invariant [where P = "\<lambda>(got, w). length got \<le> n"])
      (auto simp: read_before_round_def Let_def split: prod.splits sum.splits if_splits)
  then show ?thesis by simp
qed

lemma receive_frame:
  assumes "receive px st budget w = Some (Inr (header, bytes), w')"
  shows "hdr_version header = 1 \<and> hdr_payload_length header \<le> MAX_PAYLOAD \<and>
    hdr_payload_length header mod 4 = 0 \<and> length bytes = 20 + unat (hdr_payload_length header) \<and>
    px_header px (take 20 bytes) = Inr header"
proof -
  from assms obtain lead w1 where lead: "read_exact st 1 w = Some (Inr lead, w1)"
    by (auto simp: receive_def try_call_Ok)
  with assms obtain idle w2 where idle: "st_read_timeout st w1 = (Inr idle, w2)"
    by (auto simp: receive_def try_call_Ok)
  obtain t w3 where clock: "st_clock st w2 = (t, w3)" by (cases "st_clock st w2")
  from assms obtain rest w4 where rest: "read_before st 19 (t + budget) w3 = Some (Inr rest, w4)"
    by (auto simp: receive_def lead idle clock Let_def try_call_Ok simp del: One_nat_def)
  have tail: "(case px_header px (lead @ rest) of
       Inl e \<Rightarrow> Some (Inl e, w4)
     | Inr header \<Rightarrow>
         if hdr_version header \<noteq> 1 \<or> MAX_PAYLOAD < hdr_payload_length header \<or>
            hdr_payload_length header mod 4 \<noteq> 0
         then Some (Inl (session_invalid ''invalid AgentX version or payload length''), w4)
         else
           try_call (read_before st (unat (hdr_payload_length header)) (t + budget) w4) (\<lambda>payload w.
           try_call (Some (st_set_read_timeout st idle w)) (\<lambda>_ w.
           Some (Inr (header, lead @ rest @ payload), w)))) = Some (Inr (header, bytes), w')"
    using assms by (simp add: receive_def lead idle clock Let_def rest del: One_nat_def)
  have len: "length lead = 1" "length rest = 19"
    using read_exact_length [OF lead] read_before_length [OF rest] by auto
  from tail obtain h where h: "px_header px (lead @ rest) = Inr h"
      "\<not> (hdr_version h \<noteq> 1 \<or> MAX_PAYLOAD < hdr_payload_length h \<or> hdr_payload_length h mod 4 \<noteq> 0)"
    by (auto split: sum.splits if_splits)
  with tail obtain payload w5 where
    payload: "read_before st (unat (hdr_payload_length h)) (t + budget) w4 = Some (Inr payload, w5)"
    and out: "header = h" "bytes = lead @ rest @ payload"
    by (auto simp: try_call_Ok)
  show ?thesis
    using h len read_before_length [OF payload] out by auto
qed

text \<open>
  C34. Every frame the session accepts is whole and bounded: version 1, a payload of at most a
  megabyte and of whole words, exactly as many bytes as the header announces, and the header
  is the decoding of its first twenty bytes.
\<close>

theorem frame_received:
  assumes "receive px st budget w = Some (Inr (header, bytes), w')"
  shows "hdr_version header = 1 \<and> unat (hdr_payload_length header) \<le> 1048576 \<and>
    4 dvd unat (hdr_payload_length header) \<and> length bytes = 20 + unat (hdr_payload_length header) \<and>
    px_header px (take 20 bytes) = Inr header"
proof -
  note frame = receive_frame [OF assms]
  have "unat (hdr_payload_length header) \<le> 1048576"
    using frame by (simp add: MAX_PAYLOAD_def word_le_nat_alt)
  moreover have "unat (hdr_payload_length header mod 4) = 0" using frame by simp
  then have "4 dvd unat (hdr_payload_length header)"
    by (simp add: unat_mod_distrib dvd_eq_mod_eq_0)
  ultimately show ?thesis using frame by simp
qed

lemma check_acknowledgement_returns:
  assumes "length bytes = 20 + unat (hdr_payload_length header)"
  shows "\<exists>r. check_acknowledgement px request header bytes = Some r"
proof (cases "hdr_payload_length header < 8")
  case True
  then show ?thesis by (simp add: check_acknowledgement_def)
next
  case False
  then have "28 \<le> length bytes" using assms by (simp add: not_less word_le_nat_alt)
  then show ?thesis
    by (auto simp: check_acknowledgement_def slice_def Let_def split: sum.split)
qed

text \<open>
  The handshake accepts a frame exactly when it is a response to the request in progress (the
  same packet and transaction, the same session once it is open) that reports no error with a
  zero index, whatever bindings follow, and a whole frame never makes it panic.
\<close>

lemma acknowledgement_accepted:
  assumes "length bytes = 20 + unat (hdr_payload_length header)"
  shows "check_acknowledgement px request header bytes = Some (Inr header) \<longleftrightarrow>
    hdr_ty header = TyResponse \<and> 8 \<le> unat (hdr_payload_length header) \<and>
    hdr_packet_id header = hdr_packet_id request \<and>
    hdr_transaction_id header = hdr_transaction_id request \<and>
    (hdr_ty request = TyOpen \<or> hdr_session_id header = hdr_session_id request) \<and>
    px_res_error px [bytes ! 24, bytes ! 25]
      (if hdr_flags header AND NETWORK_ORDER \<noteq> 0 then BigEndian else LittleEndian) = Inr NoAgentXError \<and>
    bytes ! 26 = 0 \<and> bytes ! 27 = 0"
proof (cases "hdr_payload_length header < 8")
  case True
  then have "\<not> 8 \<le> unat (hdr_payload_length header)" by (simp add: word_less_nat_alt)
  then show ?thesis using True by (simp add: check_acknowledgement_def)
next
  case False
  then have "8 \<le> unat (hdr_payload_length header)" by (simp add: not_less word_le_nat_alt)
  moreover from this have "28 \<le> length bytes" using assms by simp
  then have "slice 24 26 bytes = Some [bytes ! 24, bytes ! 25]"
      "slice 26 28 bytes = Some [bytes ! 26, bytes ! 27]"
    by (simp_all add: slice_def take_Suc_conv_app_nth numeral_2_eq_2)
  ultimately show ?thesis
    using False
    by (auto simp: check_acknowledgement_def Let_def split: sum.splits if_splits)
qed

section \<open>The contract of the stream\<close>

text \<open>
  A read gives at most the bytes it was asked for, and is not interrupted for ever: \<open>patience\<close>
  bounds the interruptions to come while a frame is read.
\<close>

locale session_stream =
  fixes st :: "'w stream_ops" and patience :: "'w \<Rightarrow> nat"
  assumes read_law: "st_read st n w = (r, w') \<Longrightarrow> patience w' \<le> patience w \<and>
      (\<forall>bytes. r = Inr bytes \<longrightarrow> length bytes \<le> n) \<and>
      (\<forall>e. r = Inl e \<longrightarrow> error_kind_of e = Interrupted \<longrightarrow> patience w' < patience w)"
    and clock_patience: "st_clock st w = (t, w') \<Longrightarrow> patience w' \<le> patience w"
    and timeout_patience: "st_set_read_timeout st d w = (u, w') \<Longrightarrow> patience w' \<le> patience w"
begin

lemma read_exact_returns: "\<exists>r. read_exact st n w = Some r"
  unfolding read_exact_def
proof (rule loop_total [where P = "\<lambda>_. True" and m = "\<lambda>(got, w). n - length got + patience w"])
  fix s show "read_exact_round st n s \<noteq> None"
    using read_law by (fastforce simp: read_exact_round_def split: prod.splits sum.splits)
next
  fix s s' assume step: "read_exact_round st n s = Some (Again s')"
  obtain got w where s: "s = (got, w)" by (cases s)
  obtain r w' where read: "st_read st (n - length got) w = (r, w')"
    by (cases "st_read st (n - length got) w")
  have less: "length got < n" using step by (auto simp: read_exact_round_def s split: if_splits)
  show "True \<and> (case s' of (got, w) \<Rightarrow> n - length got + patience w) <
      (case s of (got, w) \<Rightarrow> n - length got + patience w)"
  proof (cases r)
    case (Inl e)
    then show ?thesis
      using step less read_law [OF read] by (auto simp: read_exact_round_def s read split: if_splits)
  next
    case (Inr bytes)
    with step less have "s' = (got @ bytes, w')" "bytes \<noteq> []"
      by (auto simp: read_exact_round_def s read split: if_splits)
    then show ?thesis using less read_law [OF read] s by (cases bytes) auto
  qed
qed simp

lemma read_before_returns: "\<exists>r. read_before st n deadline w = Some r"
  unfolding read_before_def
proof (rule loop_total [where P = "\<lambda>_. True" and m = "\<lambda>(got, w). n - length got + patience w"])
  fix s show "read_before_round st n deadline s \<noteq> None"
    using read_law by (fastforce simp: read_before_round_def Let_def split: prod.splits sum.splits)
next
  fix s s' assume step: "read_before_round st n deadline s = Some (Again s')"
  obtain got w where s: "s = (got, w)" by (cases s)
  obtain t w1 where clock: "st_clock st w = (t, w1)" by (cases "st_clock st w")
  let ?remaining = "saturating_sub deadline t"
  obtain u w2 where timeout: "st_set_read_timeout st (Some ?remaining) w1 = (u, w2)"
    by (cases "st_set_read_timeout st (Some ?remaining) w1")
  obtain r w' where read: "st_read st (n - length got) w2 = (r, w')"
    by (cases "st_read st (n - length got) w2")
  have less: "length got < n" and open_: "?remaining \<noteq> 0" "\<exists>x. u = Inr x"
    using step by (auto simp: read_before_round_def s clock timeout Let_def split: if_splits sum.splits)
  have earlier: "patience w2 \<le> patience w"
    using clock_patience [OF clock] timeout_patience [OF timeout] by simp
  show "True \<and> (case s' of (got, w) \<Rightarrow> n - length got + patience w) <
      (case s of (got, w) \<Rightarrow> n - length got + patience w)"
  proof (cases r)
    case (Inl e)
    then show ?thesis
      using step less open_ earlier read_law [OF read]
      by (auto simp: read_before_round_def s clock timeout read Let_def split: if_splits)
  next
    case (Inr bytes)
    with step less open_ have "s' = (got @ bytes, w')" "bytes \<noteq> []"
      by (auto simp: read_before_round_def s clock timeout read Let_def split: if_splits)
    then show ?thesis using less earlier read_law [OF read] s by (cases bytes) auto
  qed
qed simp

lemma receive_returns: "\<exists>r. receive px st budget w = Some r"
proof -
  have body: "\<exists>r. (case px_header px (lead @ rest) of
       Inl e \<Rightarrow> Some (Inl e, w)
     | Inr header \<Rightarrow>
         if hdr_version header \<noteq> 1 \<or> MAX_PAYLOAD < hdr_payload_length header \<or>
            hdr_payload_length header mod 4 \<noteq> 0
         then Some (Inl (session_invalid ''invalid AgentX version or payload length''), w)
         else
           try_call (read_before st (unat (hdr_payload_length header)) deadline w) (\<lambda>payload w.
           try_call (Some (st_set_read_timeout st idle w)) (\<lambda>_ w.
           Some (Inr (header, lead @ rest @ payload), w)))) = Some r" for lead rest idle deadline w
    by (cases "px_header px (lead @ rest)") (auto simp del: split_paired_Ex intro!: try_call_returns read_before_returns)
  show ?thesis
    unfolding receive_def Let_def
    by (intro try_call_returns read_exact_returns; (rule exI, rule refl)?)
      (auto split: prod.split simp del: split_paired_Ex intro!: try_call_returns read_before_returns body)
qed

end

section \<open>Rounds of a session\<close>

lemma acknowledge_returns:
  assumes "session_stream st patience"
  shows "\<exists>r. acknowledge px st request w = Some r"
proof -
  have "\<exists>r. (case x of (header, bytes) \<Rightarrow> \<lambda>w. do {
      r \<leftarrow> check_acknowledgement px request header bytes; Some (r, w) }) w' = Some r"
    if frame: "receive px st IO_TIMEOUT w = Some (Inr x, w')" for x w'
  proof -
    obtain header bytes where x: "x = (header, bytes)" by (cases x)
    then obtain r where "check_acknowledgement px request header bytes = Some r"
      using check_acknowledgement_returns receive_frame [of px st IO_TIMEOUT w header bytes w'] frame
      by blast
    then show ?thesis by (simp add: x)
  qed
  then show ?thesis
    unfolding acknowledge_def
    by (intro try_call_returns session_stream.receive_returns [OF assms])
qed

lemma open_session_returns:
  assumes "session_stream st patience"
  shows "\<exists>r. open_session px st config w = Some r"
proof -
  have open_tail: "\<exists>r. (case px_open_bytes px pdu of
          Inl e \<Rightarrow> Some (Inl e, w)
        | Inr (bytes, pdu) \<Rightarrow>
            try_call (Some (st_write_all st bytes w)) (\<lambda>_ w. acknowledge px st (op_header pdu) w)) = Some r"
    for pdu w
    by (cases "px_open_bytes px pdu")
      (auto simp del: split_paired_Ex intro!: try_call_returns acknowledge_returns [OF assms])
  show ?thesis
    unfolding open_session_def Let_def
    by (intro try_call_returns open_tail) (auto simp del: split_paired_Ex)
qed

lemma register_table_returns:
  assumes "session_stream st patience"
  shows "\<exists>r. register_table ids px st config opened w = Some r"
proof -
  have register_tail: "\<exists>r. (case px_register_bytes px pdu of
          Inl e \<Rightarrow> Some (Inl e, w)
        | Inr (bytes, pdu) \<Rightarrow>
            try_call (Some (st_write_all st bytes w)) (\<lambda>_ w.
            try_call (acknowledge px st (rg_header pdu) w) (\<lambda>_ w.
            Some (st_set_read_timeout st None w)))) = Some r" for pdu w
    by (cases "px_register_bytes px pdu")
      (auto simp del: split_paired_Ex intro!: try_call_returns acknowledge_returns [OF assms])
  show ?thesis
    unfolding register_table_def Let_def
    by (cases "id_try_from ids TABLE")
      (simp_all add: register_tail del: split_paired_Ex)
qed

lemma handle_frame_returns:
  assumes "agentx_ids ids subids" "agentx_pdus px"
  shows "\<exists>c. handle_frame ids px st tables session_id header bytes w = Some c"
proof -
  have encode: "\<exists>e. encode_answer px response err = Some e" for response err
    by (rule agentx_pdus.encode_answer_returns [OF assms(2)])
  have answers: "\<exists>c. answer st e w = Some c" for e w
    by (simp add: answer_def split: sum.split prod.split)
  obtain d where d: "dispatch ids px header bytes (tables w) = Some d"
    using agentx_ids.dispatch_returns [OF assms(1)] by blast
  obtain response err where split: "(case d of Inr result \<Rightarrow> result
      | Inl error \<Rightarrow> ((reply px header)\<lparr> rs_res_error := ParseError \<rparr>, None)) = (response, err)"
    by (cases "(case d of Inr result \<Rightarrow> result
      | Inl error \<Rightarrow> ((reply px header)\<lparr> rs_res_error := ParseError \<rparr>, None))")
  obtain e1 e2 e3 where e: "encode_answer px response err = Some e1"
      "encode_answer px (reply px header) None = Some e2"
      "encode_answer px ((reply px header)\<lparr> rs_res_error := NotOpen \<rparr>) None = Some e3"
    using encode by metis
  obtain c1 c2 c3 where c: "answer st e1 w = Some c1" "answer st e2 w = Some c2" "answer st e3 w = Some c3"
    using answers by metis
  show ?thesis
    unfolding handle_frame_def
    by (simp add: d split e c Let_def split: sum.split control.split)
qed

lemma serve_round_returns:
  assumes "agentx_ids ids subids" "agentx_pdus px" "session_stream st patience"
  shows "\<exists>c. serve_round ids px st tables session_id w = Some c"
proof -
  obtain r w' where "receive px st IO_TIMEOUT w = Some (r, w')"
    using session_stream.receive_returns [OF assms(3), of px IO_TIMEOUT w] by auto
  then show ?thesis
    using handle_frame_returns [OF assms(1,2)] by (cases r) (auto simp: serve_round_def)
qed

text \<open>
  A session never panics: over a stream that keeps its contract, the opening of the session,
  the registration of the table and every round of the loop return, whatever the master sends
  and whichever table is published.
\<close>

theorem session_never_panics:
  assumes "agentx_ids ids subids" "agentx_pdus px" "session_stream st patience"
  shows "(\<exists>r. open_session px st config w = Some r) \<and>
    (\<exists>r. register_table ids px st config opened w = Some r) \<and>
    (\<exists>c. serve_round ids px st tables session_id w = Some c)"
  by (intro conjI open_session_returns [OF assms(3)] register_table_returns [OF assms(3)]
      serve_round_returns [OF assms])

text \<open>
  C30. Every request of the open session that is neither a \<open>Close\<close> nor a \<open>CleanupSet\<close> is answered
  with exactly one write of one response. The response is the result of the dispatch, or a
  parse error when the dispatch refused the request; it has the session, transaction and packet
  identifiers of the request and keeps only its byte order flag. What is written is its encoding,
  with the SNMP error of the dispatch, if any, in the two bytes of the error field. The session
  ends with the error instead if the codec cannot encode the response, or if the write fails.
\<close>

theorem request_answered:
  assumes "agentx_ids ids subids" "agentx_pdus px"
    and "hdr_session_id header = session_id" "hdr_ty header \<notin> {TyClose, TyCleanupSet}"
  shows "\<exists>response err.
    (dispatch ids px header bytes (tables w) = Some (Inr (response, err)) \<or>
     (\<exists>e. dispatch ids px header bytes (tables w) = Some (Inl e)) \<and>
       response = (reply px header)\<lparr> rs_res_error := ParseError \<rparr> \<and> err = None) \<and>
    hdr_session_id (rs_header response) = session_id \<and>
    hdr_transaction_id (rs_header response) = hdr_transaction_id header \<and>
    hdr_packet_id (rs_header response) = hdr_packet_id header \<and>
    hdr_flags (rs_header response) = hdr_flags header AND NETWORK_ORDER \<and>
    (case px_response_bytes px response of
       Inl e \<Rightarrow> handle_frame ids px st tables session_id header bytes w = Some (Leave (Inl e, w))
     | Inr (encoded, sent) \<Rightarrow> \<exists>out.
         handle_frame ids px st tables session_id header bytes w = delivered st out w \<and>
         length out = length encoded \<and> take 24 out = take 24 encoded \<and> drop 26 out = drop 26 encoded \<and>
         (case err of
            None \<Rightarrow> out = encoded
          | Some error \<Rightarrow> (if hdr_flags header AND NETWORK_ORDER \<noteq> 0
              then u16_from_be_bytes (out ! 24) (out ! 25) else u16_from_be_bytes (out ! 25) (out ! 24)) = error))"
proof -
  obtain d where d: "dispatch ids px header bytes (tables w) = Some d"
    using agentx_ids.dispatch_returns [OF assms(1)] by blast
  define x where "x = (case d of Inr result \<Rightarrow> result
      | Inl error \<Rightarrow> ((reply px header)\<lparr> rs_res_error := ParseError \<rparr>, None))"
  obtain response err where x: "x = (response, err)" by (cases x)
  obtain out where enc: "encode_answer px response err = Some out"
    using agentx_pdus.encode_answer_returns [OF assms(2)] by blast
  have cases: "d = Inr (response, err) \<or>
      (\<exists>e. d = Inl e) \<and> response = (reply px header)\<lparr> rs_res_error := ParseError \<rparr> \<and> err = None"
    using x by (cases d) (auto simp: x_def)
  then have header: "rs_header response = rs_header (reply px header)"
    using dispatch_header [of ids px header bytes "tables w"] d by auto
  have handled: "handle_frame ids px st tables session_id header bytes w = answer st out w"
    using assms(3,4) by (simp add: handle_frame_def d x [unfolded x_def] enc)
  have written: "case px_response_bytes px response of
       Inl e \<Rightarrow> answer st out w = Some (Leave (Inl e, w))
     | Inr (encoded, sent) \<Rightarrow> \<exists>bs. answer st out w = delivered st bs w \<and>
         length bs = length encoded \<and> take 24 bs = take 24 encoded \<and> drop 26 bs = drop 26 encoded \<and>
         (case err of
            None \<Rightarrow> bs = encoded
          | Some error \<Rightarrow> (if hdr_flags header AND NETWORK_ORDER \<noteq> 0
              then u16_from_be_bytes (bs ! 24) (bs ! 25) else u16_from_be_bytes (bs ! 25) (bs ! 24)) = error)"
  proof (cases "px_response_bytes px response")
    case (Inl e)
    then show ?thesis using enc by (auto simp: encode_answer_def answer_delivered)
  next
    case (Inr y)
    obtain encoded sent where y: "y = (encoded, sent)" by (cases y)
    note law = agentx_pdus.response_law [OF assms(2) Inr [unfolded y]]
    have flags: "hdr_flags (rs_header sent) AND NETWORK_ORDER = hdr_flags header AND NETWORK_ORDER"
      using law agentx_pdus.reply_fields(5) [OF assms(2), of header] by (simp add: header)
    show ?thesis
    proof (cases err)
      case None
      then show ?thesis using enc by (auto simp: Inr y encode_answer_def answer_delivered)
    next
      case (Some error)
      from error_patched [OF Inr [unfolded y], of error] law enc flags show ?thesis
        by (auto simp: Inr y Some answer_delivered)
    qed
  qed
  show ?thesis
    unfolding handled using cases d
    by (intro exI [of _ response] exI [of _ err] conjI written)
      (auto simp: header agentx_pdus.reply_fields [OF assms(2)] assms(3))
qed

text \<open>
  A frame for another session is answered with \<open>notOpen\<close> and changes nothing else; a valid
  \<open>Close\<close> is answered and ends the session without an error; a \<open>CleanupSet\<close> is not answered.
\<close>

lemma session_control:
  assumes "agentx_pdus px"
  shows "if hdr_session_id header \<noteq> session_id then
      \<exists>encoded. encode_answer px ((reply px header)\<lparr> rs_res_error := NotOpen \<rparr>) None = Some encoded \<and>
        handle_frame ids px st tables session_id header bytes w = answer st encoded w
    else if hdr_ty header = TyClose \<and> px_close px bytes = Inr () then
      \<exists>encoded. encode_answer px (reply px header) None = Some encoded \<and>
        (\<forall>w'. answer st encoded w = Some (Again w') \<longrightarrow>
           handle_frame ids px st tables session_id header bytes w = Some (Leave (Inr (), w')))
    else if hdr_ty header = TyCleanupSet \<and> hdr_payload_length header = 0 then
      handle_frame ids px st tables session_id header bytes w = Some (Again w)
    else True"
proof -
  obtain e1 e2 where "encode_answer px ((reply px header)\<lparr> rs_res_error := NotOpen \<rparr>) None = Some e1"
      "encode_answer px (reply px header) None = Some e2"
    using agentx_pdus.encode_answer_returns [OF assms] by metis
  then show ?thesis by (auto simp: handle_frame_def)
qed

section \<open>A codec and a stream\<close>

text \<open>
  For the witnesses: a codec that decodes the header of RFC 2741, 6.1, and hands out the ranges
  and bindings it is given, and a stream that delivers the bytes of a list.
\<close>

fun rfc_type :: "nat \<Rightarrow> Type" where
  "rfc_type n =
     (if n = 1 then TyOpen else if n = 2 then TyClose else if n = 3 then TyRegister
      else if n = 5 then TyGet else if n = 6 then TyGetNext else if n = 7 then TyGetBulk
      else if n = 8 then TyTestSet else if n = 9 then TyCommitSet else if n = 10 then TyUndoSet
      else if n = 11 then TyCleanupSet else if n = 13 then TyPing else if n = 18 then TyResponse
      else TyOther (of_nat n))"

definition rfc_header :: "u8 list \<Rightarrow> Header io_result" where
  "rfc_header b =
     (if length b < 20 then Inl (IoError InvalidData (Literal ''short header''))
      else Inr \<lparr> hdr_version = b ! 0, hdr_ty = rfc_type (unat (b ! 1)), hdr_flags = b ! 2,
        hdr_session_id = u32_from_be_bytes (b ! 4) (b ! 5) (b ! 6) (b ! 7),
        hdr_transaction_id = u32_from_be_bytes (b ! 8) (b ! 9) (b ! 10) (b ! 11),
        hdr_packet_id = u32_from_be_bytes (b ! 12) (b ! 13) (b ! 14) (b ! 15),
        hdr_payload_length = u32_from_be_bytes (b ! 16) (b ! 17) (b ! 18) (b ! 19) \<rparr>)"

definition demo_header :: "Type \<Rightarrow> Header" where
  "demo_header ty = \<lparr> hdr_version = 1, hdr_ty = ty, hdr_flags = 16, hdr_session_id = 7,
     hdr_transaction_id = 3, hdr_packet_id = 4, hdr_payload_length = 8 \<rparr>"

definition demo_pdus :: "rfc_id SearchRange list \<Rightarrow> rfc_id VarBind list \<Rightarrow> rfc_id pdu_ops" where
  "demo_pdus ranges vbs = \<lparr>
     px_default_id = RfcId 0 [],
     px_open_new = (\<lambda>oid descr. \<lparr> op_header = demo_header TyOpen, op_timeout = 0, op_id = oid,
       op_descr = descr \<rparr>),
     px_open_bytes = (\<lambda>pdu. Inr (replicate 28 0, pdu)),
     px_register_new = (\<lambda>oid. \<lparr> rg_header = demo_header TyRegister, rg_priority = 127,
       rg_subtree = oid \<rparr>),
     px_register_bytes = (\<lambda>pdu. Inr (replicate 28 0, pdu)),
     px_from_header = (\<lambda>h. \<lparr> rs_header = h\<lparr> hdr_ty := TyResponse \<rparr>, rs_res_error = NoAgentXError,
       rs_res_index = 0, rs_vb = None \<rparr>),
     px_response_bytes = (\<lambda>r. Inr (replicate 28 0, r)),
     px_header = rfc_header,
     px_get = (\<lambda>bytes. Inr ranges),
     px_get_bulk = (\<lambda>bytes. Inr (ranges, 0, 10)),
     px_test_set = (\<lambda>bytes. Inr vbs),
     px_ping = (\<lambda>bytes. Inr ()),
     px_close = (\<lambda>bytes. Inr ()),
     px_res_error = (\<lambda>field order. Inr (if field = [0, 0] then NoAgentXError else OtherResError 1)),
     px_debug_type = (\<lambda>ty. []), px_debug_error = (\<lambda>e. []) \<rparr>"

interpretation demo: agentx_pdus "demo_pdus ranges vbs"
  by unfold_locales (auto simp: demo_pdus_def)

definition byte_stream :: "u8 list stream_ops" where
  "byte_stream = \<lparr> st_connect = (\<lambda>path w. (Inr (), w)), st_set_read_timeout = (\<lambda>d w. (Inr (), w)),
     st_set_write_timeout = (\<lambda>d w. (Inr (), w)), st_read_timeout = (\<lambda>w. (Inr None, w)),
     st_read = (\<lambda>n w. (Inr (take n w), drop n w)), st_write_all = (\<lambda>bytes w. (Inr (), w)),
     st_clock = (\<lambda>w. (0, w)) \<rparr>"

interpretation bytes: session_stream byte_stream "\<lambda>_. 0"
  by unfold_locales (auto simp: byte_stream_def)

lemma byte_stream_read_exact:
  assumes "0 < n" "n \<le> length w"
  shows "read_exact byte_stream n w = Some (Inr (take n w), drop n w)"
proof -
  have "read_exact_round byte_stream n ([], w) = Some (Again (take n w, drop n w))"
    using assms by (auto simp: read_exact_round_def byte_stream_def)
  moreover have "read_exact_round byte_stream n (take n w, drop n w) = Some (Leave (Inr (take n w), drop n w))"
    using assms by (simp add: read_exact_round_def)
  ultimately show ?thesis by (simp add: read_exact_def loop_goes_on loop_leaves)
qed

lemma byte_stream_read_before:
  assumes "n \<le> length w" "0 < deadline"
  shows "read_before byte_stream n deadline w = Some (Inr (take n w), drop n w)"
proof (cases "n = 0")
  case True
  then have "read_before_round byte_stream n deadline ([], w) = Some (Leave (Inr [], w))"
    by (simp add: read_before_round_def)
  then show ?thesis using True by (simp add: read_before_def loop_leaves)
next
  case False
  then have "read_before_round byte_stream n deadline ([], w) = Some (Again (take n w, drop n w))"
    using assms by (auto simp: read_before_round_def byte_stream_def saturating_sub_def)
  moreover have "read_before_round byte_stream n deadline (take n w, drop n w) =
      Some (Leave (Inr (take n w), drop n w))"
    using assms by (simp add: read_before_round_def)
  ultimately show ?thesis by (simp add: read_before_def loop_goes_on loop_leaves)
qed

section \<open>Witnesses\<close>

definition demo_range :: "u32 list \<Rightarrow> rfc_id SearchRange" where
  "demo_range subs = \<lparr> sr_start = RfcId 0 subs, sr_end = RfcId 0 [] \<rparr>"

abbreviation one_row :: "rfc_id mib" where
  "one_row \<equiv> [(RfcId 0 (STATUS @ [2, 10]), Integer 1)]"

lemma demo_range_ok: "length subs \<le> 128 \<Longrightarrow> range_ok rfc_ids rfc_subids (demo_range subs)"
  by (simp add: range_ok_def oid_ok_def demo_range_def rfc_ids_def)

lemma dispatch_walk_witness:
  "\<exists>response. dispatch rfc_ids (demo_pdus [demo_range STATUS] []) (demo_header TyGetNext) [] (Some one_row) =
     Some (Inr (response, None)) \<and>
     rs_vb response = Some [mib_get_next rfc_ids one_row (demo_range STATUS)]"
proof -
  have "dispatch rfc_ids (demo_pdus [demo_range STATUS] []) (demo_header TyGetNext) [] (Some one_row) =
    Some (Inr ((reply (demo_pdus [demo_range STATUS] []) (demo_header TyGetNext))
      \<lparr> rs_vb := Some [mib_get_next rfc_ids one_row (demo_range STATUS)] \<rparr>, None))"
    by (rule dispatch_walk [OF rfc.agentx_ids_axioms, of _ "[demo_range STATUS]" _ _ _ _ 0 0])
      (simp_all add: demo_header_def demo_pdus_def demo_range_ok STATUS_def)
  then show ?thesis by simp
qed

lemma dispatch_malformed_witness:
  "\<exists>e. dispatch rfc_ids (demo_pdus [demo_range (replicate 129 0)] []) (demo_header TyGet) [] None = Some (Inl e)"
proof -
  have "\<not> range_ok rfc_ids rfc_subids (demo_range (replicate 129 0))"
    by (simp add: range_ok_def oid_ok_def demo_range_def)
  then show ?thesis
    using dispatch_malformed [OF rfc.agentx_ids_axioms, of "demo_header TyGet"
        "demo_pdus [demo_range (replicate 129 0)] []" "[]" None]
    by (simp add: demo_header_def demo_pdus_def)
qed


lemma snmp_error_roundtrip_witness:
  "\<exists>out. encode_answer (demo_pdus [] []) (reply (demo_pdus [] []) (demo_header TyCommitSet)) (Some 14) =
     Some (Inr out) \<and> u16_from_be_bytes (out ! 24) (out ! 25) = 14"
proof -
  let ?px = "demo_pdus [] []"
  have sent: "px_response_bytes ?px (reply ?px (demo_header TyCommitSet)) =
      Inr (replicate 28 0, reply ?px (demo_header TyCommitSet))"
    by (simp add: demo_pdus_def)
  have "hdr_flags (rs_header (reply ?px (demo_header TyCommitSet))) AND NETWORK_ORDER \<noteq> 0"
    by (simp add: demo.reply_fields demo_header_def NETWORK_ORDER_def NETWORK_BYTE_ORDER_def)
  with snmp_error_roundtrip [OF sent, of 14] show ?thesis by auto
qed

definition ping_frame :: "u8 list" where
  "ping_frame = [1, 13, 16, 0, 0, 0, 0, 7, 0, 0, 0, 3, 0, 0, 0, 4, 0, 0, 0, 0]"

definition ping_header :: Header where
  "ping_header = \<lparr> hdr_version = 1, hdr_ty = TyPing, hdr_flags = 16, hdr_session_id = 7,
     hdr_transaction_id = 3, hdr_packet_id = 4, hdr_payload_length = 0 \<rparr>"

lemma frame_received_witness:
  "receive (demo_pdus [] []) byte_stream IO_TIMEOUT ping_frame = Some (Inr (ping_header, ping_frame), []) \<and>
   length ping_frame = 20 + unat (hdr_payload_length ping_header)"
proof -
  have header: "rfc_header ping_frame = Inr ping_header"
    by (simp add: rfc_header_def ping_frame_def ping_header_def u32_from_be_bytes_def)
  have px: "px_header (demo_pdus [] []) = rfc_header" by (simp add: demo_pdus_def)
  have len: "length ping_frame = 20" by (simp add: ping_frame_def)
  have whole: "take 1 ping_frame @ take 19 (drop 1 ping_frame) = ping_frame"
    by (simp add: ping_frame_def)
  have st: "st_read_timeout byte_stream w = (Inr None, w)" "st_clock byte_stream w = (0, w)"
      "st_set_read_timeout byte_stream d w = (Inr (), w)" for w d
    by (simp_all add: byte_stream_def)
  have "0 < IO_TIMEOUT" by (simp add: IO_TIMEOUT_def from_secs_def nanos_per_sec_def)
  then have "receive (demo_pdus [] []) byte_stream IO_TIMEOUT ping_frame =
      Some (Inr (ping_header, ping_frame), [])"
    by (simp add: receive_def byte_stream_read_exact byte_stream_read_before len st px whole [simplified]
        header ping_header_def MAX_PAYLOAD_def Let_def)
  from this frame_received [OF this] show ?thesis by simp
qed

lemma acknowledgement_accepted_witness:
  "check_acknowledgement (demo_pdus [] []) (demo_header TyOpen)
     ((demo_header TyResponse)\<lparr> hdr_session_id := 9 \<rparr>) (replicate 28 0) =
   Some (Inr ((demo_header TyResponse)\<lparr> hdr_session_id := 9 \<rparr>))"
  by (subst acknowledgement_accepted) (simp_all add: demo_header_def demo_pdus_def)

lemma session_never_panics_witness:
  "\<exists>c. serve_round rfc_ids (demo_pdus [] []) byte_stream (\<lambda>w. publication) 7 ping_frame = Some c"
  using session_never_panics [OF rfc.agentx_ids_axioms demo.agentx_pdus_axioms
      bytes.session_stream_axioms] by blast

lemma request_answered_witness:
  "\<exists>out. handle_frame rfc_ids (demo_pdus [] []) byte_stream (\<lambda>w. publication) 7 (demo_header TyGet) [] [] =
     delivered byte_stream out [] \<and> length out = 28"
proof -
  have "px_response_bytes (demo_pdus [] []) response = Inr (replicate 28 0, response)" for response
    by (simp add: demo_pdus_def)
  then show ?thesis
    using request_answered [OF rfc.agentx_ids_axioms demo.agentx_pdus_axioms,
        of "demo_header TyGet" 7 "[]" "[]" "[]" "\<lambda>w. publication" "[]" byte_stream]
    by (fastforce simp: demo_header_def)
qed

lemma session_control_witness:
  "handle_frame rfc_ids (demo_pdus [] []) byte_stream (\<lambda>w. publication) 7
     ((demo_header TyCleanupSet)\<lparr> hdr_payload_length := 0 \<rparr>) [] [1] = Some (Again [1])"
  using session_control [OF demo.agentx_pdus_axioms [of "[]" "[]"],
      of "(demo_header TyCleanupSet)\<lparr> hdr_payload_length := 0 \<rparr>" 7]
  by (simp add: demo_header_def)

end
