(* ===== verification/Session_Lifetime.thy ===== *)
theory Session_Lifetime
  imports Session
begin

text \<open>
  How a session ends. A master that closes the connection has sent a finite number of bytes; the
  session has then returned. The contract \<open>closing_stream\<close> states that for the connection of a
  session, as the number of bytes that are still to come. A read that blocks for ever, on a
  master that keeps the connection open and sends nothing, is outside the contract.
\<close>

section \<open>A connection that delivers finitely many bytes\<close>

locale closing_stream = session_stream st patience
    for st :: "'w stream_ops" and patience :: "'w \<Rightarrow> nat" +
  fixes remaining :: "'w \<Rightarrow> nat"
  assumes read_left: "st_read st n w = (r, w') \<Longrightarrow>
      remaining w' + (case r of Inr bytes \<Rightarrow> length bytes | Inl _ \<Rightarrow> 0) \<le> remaining w"
    and clock_left: "st_clock st w = (t, w') \<Longrightarrow> remaining w' \<le> remaining w"
    and set_timeout_left: "st_set_read_timeout st d w = (u, w') \<Longrightarrow> remaining w' \<le> remaining w"
    and timeout_left: "st_read_timeout st w = (d', w') \<Longrightarrow> remaining w' \<le> remaining w"
    and write_left: "st_write_all st bytes w = (u, w') \<Longrightarrow> remaining w' \<le> remaining w"
begin

lemma read_exact_round_left:
  assumes "read_exact_round st n (got, w) = Some (Again (got', w'))"
  shows "remaining w' + length got' \<le> remaining w + length got"
proof -
  obtain r w1 where read: "st_read st (n - length got) w = (r, w1)"
    by (cases "st_read st (n - length got) w")
  show ?thesis
    using assms read_left [OF read]
    by (cases r) (auto simp: read_exact_round_def read split: if_splits)
qed

lemma read_exact_left:
  assumes "read_exact st n w = Some (Inr bytes, w')"
  shows "remaining w' + n \<le> remaining w"
proof -
  have "case (Inr bytes, w') of (r, w') \<Rightarrow>
      \<forall>got. (r :: u8 list io_result) = Inr got \<longrightarrow> remaining w' + length got \<le> remaining w"
    using assms unfolding read_exact_def
  proof (rule loop_invariant [where P = "\<lambda>(got, v). remaining v + length got \<le> remaining w"])
    fix s s' assume "case s of (got, v) \<Rightarrow> remaining v + length got \<le> remaining w"
      and "read_exact_round st n s = Some (Again s')"
    then show "case s' of (got, v) \<Rightarrow> remaining v + length got \<le> remaining w"
      using read_exact_round_left by (cases s; cases s') fastforce
  qed (auto simp: read_exact_round_def split: prod.splits sum.splits if_splits)
  then show ?thesis using read_exact_length [OF assms] by simp
qed

lemma read_before_round_left:
  assumes "read_before_round st n deadline (got, w) = Some (Again (got', w'))"
  shows "remaining w' + length got' \<le> remaining w + length got"
proof -
  obtain t w1 where clock: "st_clock st w = (t, w1)" by (cases "st_clock st w")
  let ?d = "Some (saturating_sub deadline t)"
  obtain u w2 where timeout: "st_set_read_timeout st ?d w1 = (u, w2)"
    by (cases "st_set_read_timeout st ?d w1")
  obtain r w3 where read: "st_read st (n - length got) w2 = (r, w3)"
    by (cases "st_read st (n - length got) w2")
  have "w' = w3 \<and> got' = got @ (case r of Inr bytes \<Rightarrow> bytes | Inl _ \<Rightarrow> [])"
    using assms
    by (auto simp: read_before_round_def clock timeout read Let_def split: if_splits sum.splits)
  then show ?thesis
    using read_left [OF read] set_timeout_left [OF timeout] clock_left [OF clock] by (cases r) auto
qed

lemma read_before_left:
  assumes "read_before st n deadline w = Some (Inr bytes, w')"
  shows "remaining w' \<le> remaining w"
proof -
  have "case (Inr bytes, w') of (r, w') \<Rightarrow>
      \<forall>got. (r :: u8 list io_result) = Inr got \<longrightarrow> remaining w' + length got \<le> remaining w"
    using assms unfolding read_before_def
  proof (rule loop_invariant [where P = "\<lambda>(got, v). remaining v + length got \<le> remaining w"])
    fix s s' assume "case s of (got, v) \<Rightarrow> remaining v + length got \<le> remaining w"
      and "read_before_round st n deadline s = Some (Again s')"
    then show "case s' of (got, v) \<Rightarrow> remaining v + length got \<le> remaining w"
      using read_before_round_left by (cases s; cases s') fastforce
  qed (auto simp: read_before_round_def Let_def split: prod.splits sum.splits if_splits)
  then show ?thesis by simp
qed

text \<open>A frame uses up at least its first byte; an answer uses up nothing.\<close>

lemma receive_left:
  assumes "receive px st budget w = Some (Inr frame, w')"
  shows "remaining w' < remaining w"
proof -
  from assms obtain lead w1 where lead: "read_exact st 1 w = Some (Inr lead, w1)"
    by (auto simp: receive_def try_call_Ok)
  with assms obtain idle w2 where idle: "st_read_timeout st w1 = (Inr idle, w2)"
    by (auto simp: receive_def try_call_Ok)
  obtain t w3 where clock: "st_clock st w2 = (t, w3)" by (cases "st_clock st w2")
  from assms obtain rest w4 where rest: "read_before st 19 (t + budget) w3 = Some (Inr rest, w4)"
    by (auto simp: receive_def lead idle clock Let_def try_call_Ok simp del: One_nat_def)
  from assms obtain header :: Header and payload w5 u where
      "read_before st (unat (hdr_payload_length header)) (t + budget) w4 = Some (Inr payload, w5)"
      "st_set_read_timeout st idle w5 = (Inr u, w')"
    by (auto simp: receive_def lead idle clock Let_def rest try_call_Ok simp del: One_nat_def
        split: sum.splits if_splits)
  then have "remaining w' \<le> remaining w4"
    using read_before_left set_timeout_left by (meson le_trans)
  then show ?thesis
    using read_exact_left [OF lead] timeout_left [OF idle] clock_left [OF clock] read_before_left [OF rest]
    by simp
qed

lemma answer_left:
  assumes "answer st encoded w = Some (Again w')"
  shows "remaining w' \<le> remaining w"
  using assms write_left
  by (auto simp: answer_def split: sum.splits prod.splits)

lemma handle_frame_left:
  assumes "handle_frame ids px st tables session_id header bytes w = Some (Again w')"
  shows "remaining w' \<le> remaining w"
  using assms answer_left
  by (auto simp: handle_frame_def Let_def split: if_splits sum.splits control.splits bind_splits prod.splits)

lemma serve_round_left:
  assumes "serve_round ids px st tables session_id w = Some (Again w')"
  shows "remaining w' < remaining w"
proof -
  obtain r w1 where rx: "receive px st IO_TIMEOUT w = Some (r, w1)"
    using assms by (auto simp: serve_round_def split: bind_splits)
  with assms obtain header bytes where r: "r = Inr (header, bytes)"
      "handle_frame ids px st tables session_id header bytes w1 = Some (Again w')"
    by (auto simp: serve_round_def split: sum.splits)
  then show ?thesis using receive_left [of px IO_TIMEOUT w] rx handle_frame_left [OF r(2)] by fastforce
qed

lemma session_run_returns:
  assumes "agentx_ids ids subids" "agentx_pdus px"
  shows "\<exists>r. session_run ids px st config tables registered w = Some r"
  unfolding session_run_def
proof (intro try_call_returns open_session_returns [OF session_stream_axioms]
    register_table_returns [OF session_stream_axioms])
  fix opened :: Header and w' and u :: unit
  show "\<exists>r. loop (serve_round ids px st tables (hdr_session_id opened)) (registered w') = Some r"
    by (rule loop_total [where P = "\<lambda>_. True" and m = remaining])
      (use serve_round_returns [OF assms session_stream_axioms] serve_round_left in auto)
qed

end

section \<open>Sessions end\<close>

text \<open>
  C35. A session ends with its connection: when the connection delivers finitely many bytes, the
  session returns, whatever the master sent, whichever table is published at each request and
  whatever the readiness notification does.
\<close>

theorem session_ends:
  assumes "agentx_ids ids subids" "agentx_pdus px" "closing_stream st patience remaining"
  shows "\<exists>r w'. session_run ids px st config tables registered w = Some (r, w')"
  using closing_stream.session_run_returns [OF assms(3,1,2), of config tables registered w] by auto

interpretation finite_bytes: closing_stream byte_stream "\<lambda>_. 0" length
  by unfold_locales (auto simp: byte_stream_def)

lemma session_ends_witness:
  "\<exists>r w'. session_run rfc_ids (demo_pdus [] []) byte_stream default_config (\<lambda>w. publication) (\<lambda>w. w)
     ping_frame = Some (r, w')"
  by (rule session_ends [OF rfc.agentx_ids_axioms demo.agentx_pdus_axioms finite_bytes.closing_stream_axioms])

end
