(* ===== verification/Notify.thy ===== *)
theory Notify
  imports Prelude
begin

text \<open>
  \<open>src/notify.rs\<close>: the readiness notification to the service manager. The environment and the
  datagram socket are arguments; \<open>std::os::unix::net::SocketAddr\<close> is modelled as far as
  \<open>address\<close> uses it, with the limits of \<open>sun_path\<close> (108 bytes on Linux).
\<close>

section \<open>Addresses\<close>

datatype SocketAddr = PathnameAddr "u8 list" | AbstractAddr "u8 list"

definition SUN_PATH :: nat where
  "SUN_PATH = 108"

definition SOCKET :: string where
  "SOCKET = ''NOTIFY_SOCKET''"

definition READY :: "u8 list" where
  "READY = [82, 69, 65, 68, 89, 61, 49]"

text \<open>
  \<open>SocketAddr::from_abstract_name\<close> keeps one byte for the leading zero, \<open>from_pathname\<close> one for
  the terminating zero, and a path has no zero byte of its own.
\<close>

definition from_abstract_name :: "u8 list \<Rightarrow> SocketAddr io_result" where
  "from_abstract_name name =
     (if SUN_PATH < length name + 1
      then Inl (IoError InvalidInput (Literal ''abstract socket name must be shorter than SUN_LEN''))
      else Inr (AbstractAddr name))"

definition from_pathname :: "u8 list \<Rightarrow> SocketAddr io_result" where
  "from_pathname path =
     (if 0 \<in> set path
      then Inl (IoError InvalidInput (Literal ''paths must not contain interior null bytes''))
      else if SUN_PATH \<le> length path
      then Inl (IoError InvalidInput (Literal ''path must be shorter than SUN_LEN''))
      else Inr (PathnameAddr path))"

definition address :: "u8 list \<Rightarrow> SocketAddr io_result" where
  "address socket =
     (case socket of
        [] \<Rightarrow> Inl (IoError InvalidInput (Formatted
          ''{SOCKET} is neither an absolute path nor an abstract name'' [ArgText SOCKET]))
      | b # name \<Rightarrow>
          if b = 64 \<and> name \<noteq> [] then from_abstract_name name
          else if b = 47 then from_pathname socket
          else Inl (IoError InvalidInput (Formatted
            ''{SOCKET} is neither an absolute path nor an abstract name'' [ArgText SOCKET])))"

section \<open>Sending\<close>

record ('d, 'w) notify_ops =
  nf_var_os :: "string \<Rightarrow> 'w \<Rightarrow> u8 list option"
  nf_unbound :: "'w \<Rightarrow> 'd io_result \<times> 'w"
  nf_send_to_addr :: "'d \<Rightarrow> u8 list \<Rightarrow> SocketAddr \<Rightarrow> 'w \<Rightarrow> nat io_result \<times> 'w"

definition notify_send ::
    "('d, 'w) notify_ops \<Rightarrow> u8 list \<Rightarrow> u8 list \<Rightarrow> 'w \<Rightarrow> unit io_result \<times> 'w" where
  "notify_send nf socket text w =
     (case nf_unbound nf w of
        (Inl e, w) \<Rightarrow> (Inl e, w)
      | (Inr datagram, w) \<Rightarrow>
          (case address socket of
             Inl e \<Rightarrow> (Inl e, w)
           | Inr addr \<Rightarrow>
               (case nf_send_to_addr nf datagram text addr w of
                  (Inl e, w) \<Rightarrow> (Inl e, w)
                | (Inr _, w) \<Rightarrow> (Inr (), w))))"

text \<open>An error is logged and swallowed, so \<open>ready\<close> has no result.\<close>

definition ready :: "('d, 'w) notify_ops \<Rightarrow> 'w \<Rightarrow> 'w" where
  "ready nf w =
     (case nf_var_os nf SOCKET w of
        None \<Rightarrow> w
      | Some socket \<Rightarrow> snd (notify_send nf socket READY w))"

section \<open>What is addressed\<close>

text \<open>
  C40. A leading \<open>@\<close> addresses the abstract socket of the name that follows, a leading \<open>/\<close> the file
  system; nothing else is accepted, and neither is an address that does not fit \<open>sun_path\<close> or
  a path with a zero byte. The accepted text can be told from the address.
\<close>

theorem address_correct:
  "address socket = Inr addr \<longleftrightarrow>
     (case addr of
        AbstractAddr name \<Rightarrow> socket = 64 # name \<and> 0 < length name \<and> length name < 108
      | PathnameAddr path \<Rightarrow> socket = path \<and> take 1 path = [47] \<and> 0 \<notin> set path \<and> length path < 108)"
proof (cases socket)
  case Nil
  then show ?thesis by (auto simp: address_def split: SocketAddr.split)
next
  case (Cons b name)
  then show ?thesis
    by (cases addr) (auto simp: address_def from_abstract_name_def from_pathname_def SUN_PATH_def)
qed

end
