(* ===== verification/Supervisor.thy ===== *)
theory Supervisor
  imports Netlink_Socket Session_Lifetime Notify
begin

text \<open>
  \<open>src/main.rs\<close>: the process. \<open>main_startup\<close> is \<open>main\<close> up to its loop, with the exit codes of the
  paths that end the process; \<open>reconnect_round\<close> is one round of the loop that runs a session and
  sleeps before the next; \<open>run_monitor\<close> is what the monitor thread does when the monitor returns
  or panics. What is printed or logged is not modelled.
\<close>

section \<open>Start\<close>

datatype exit_code = ExitSuccess | ExitFailure | ExitStatus int

definition MONITOR_FAILURE_EXIT_STATUS :: int where
  "MONITOR_FAILURE_EXIT_STATUS = 70"

definition run_monitor :: "'a option \<Rightarrow> exit_code" where
  "run_monitor outcome =
     (case outcome of
        Some _ \<Rightarrow> ExitStatus MONITOR_FAILURE_EXIT_STATUS
      | None \<Rightarrow> ExitStatus MONITOR_FAILURE_EXIT_STATUS)"

text \<open>
  \<open>spawn\<close> starts the monitor thread with the reconciliation period of the configuration.
\<close>

definition main_startup ::
    "(string \<Rightarrow> string io_result) \<Rightarrow> (string \<Rightarrow> string + Config) \<Rightarrow> string list \<Rightarrow>
     (duration \<Rightarrow> 'w \<Rightarrow> unit io_result \<times> 'w) \<Rightarrow> 'w \<Rightarrow> (exit_code + Config) \<times> 'w" where
  "main_startup read_to_string from_toml args spawn w =
     (case load read_to_string from_toml args DEFAULT_PATH of
        Inr Help \<Rightarrow> (Inl ExitSuccess, w)
      | Inr Version \<Rightarrow> (Inl ExitSuccess, w)
      | Inl error \<Rightarrow> (Inl ExitFailure, w)
      | Inr (Run config) \<Rightarrow>
          (case spawn (from_secs (unat (cfg_reconcile config))) w of
             (Inl error, w) \<Rightarrow> (Inl ExitFailure, w)
           | (Inr _, w) \<Rightarrow> (Inr config, w)))"

text \<open>
  What the monitor thread runs: \<open>monitor::run\<close> on a fresh source over netlink sockets, with the
  period of the configuration, observed after \<open>n\<close> iterations.
\<close>

definition monitor_thread ::
    "'id id_ops \<Rightarrow> netlink_ops \<Rightarrow> ('k, 'w) sys_ops \<Rightarrow> Config \<Rightarrow> nat \<Rightarrow> 'w \<Rightarrow>
     ('id mib, ('k, 'w) NetlinkSource) monitor flow option" where
  "monitor_thread ids nl sys config n w =
     monitor_run ids (netlink_source nl (socket_io sys)) n
       (monitor_start (from_secs (unat (cfg_reconcile config))) publication (with_io (socket_io sys) w))"

section \<open>Sessions, one after another\<close>

record 'w process_ops =
  pr_session :: "'w \<Rightarrow> (unit io_result \<times> 'w) option"  \<comment> \<open>\<open>session::run\<close>\<close>
  pr_clock :: "'w \<Rightarrow> duration \<times> 'w"
  pr_sleep :: "duration \<Rightarrow> 'w \<Rightarrow> 'w"

definition reconnect_round :: "'w process_ops \<Rightarrow> duration \<times> 'w \<Rightarrow> (duration \<times> 'w) option" where
  "reconnect_round pr s =
     (let (delay, w) = s;
          (started, w) = pr_clock pr w
      in do {
        (_, w) \<leftarrow> pr_session pr w;
        let (t, w) = pr_clock pr w;
        let elapsed = saturating_sub t started;
        let delay = (if from_secs 30 \<le> elapsed then from_secs 1 else delay);
        let w = pr_sleep pr delay w;
        doubled \<leftarrow> twice delay;
        Some (min doubled (from_secs 30), w)
      })"

text \<open>The first rounds of the loop, from the initial delay of a second.\<close>

fun reconnect_rounds :: "'w process_ops \<Rightarrow> nat \<Rightarrow> duration \<times> 'w \<Rightarrow> (duration \<times> 'w) option" where
  "reconnect_rounds pr 0 s = Some s"
| "reconnect_rounds pr (Suc n) s = do {
     s \<leftarrow> reconnect_round pr s;
     reconnect_rounds pr n s
   }"

definition reconnecting :: "'w process_ops \<Rightarrow> nat \<Rightarrow> 'w \<Rightarrow> (duration \<times> 'w) option" where
  "reconnecting pr n w = reconnect_rounds pr n (from_secs 1, w)"

text \<open>The session of the process.\<close>

definition process_session ::
    "'id id_ops \<Rightarrow> 'id pdu_ops \<Rightarrow> 'w stream_ops \<Rightarrow> ('d, 'w) notify_ops \<Rightarrow> ('w \<Rightarrow> 'id mib cell) \<Rightarrow>
     Config \<Rightarrow> 'w \<Rightarrow> (unit io_result \<times> 'w) option" where
  "process_session ids px st nf tables config w = session_run ids px st config tables (ready nf) w"

definition process ::
    "'id id_ops \<Rightarrow> 'id pdu_ops \<Rightarrow> 'w stream_ops \<Rightarrow> ('d, 'w) notify_ops \<Rightarrow> ('w \<Rightarrow> 'id mib cell) \<Rightarrow>
     (duration \<Rightarrow> 'w \<Rightarrow> 'w) \<Rightarrow> Config \<Rightarrow> 'w process_ops" where
  "process ids px st nf tables sleep config = \<lparr> pr_session = process_session ids px st nf tables config,
     pr_clock = st_clock st, pr_sleep = sleep \<rparr>"

section \<open>The reconnection schedule\<close>

text \<open>
  How long to sleep after sessions of the given lengths, when \<open>k\<close> short sessions came before: a
  long session starts the sequence 1, 2, 4, 8, 16, 30, 30, ... seconds afresh.
\<close>

fun schedule :: "nat \<Rightarrow> duration list \<Rightarrow> duration list" where
  "schedule k [] = []"
| "schedule k (e # es) =
     (let k = (if from_secs 30 \<le> e then 0 else k) in backoff k # schedule (Suc k) es)"

lemma twice_backoff: "twice (backoff k) = Some (backoff k * 2)"
    "min (backoff k * 2) (from_secs 30) = backoff (Suc k)"
proof -
  have "next_delay (backoff k) = Some (backoff (Suc k))" by (rule next_delay_backoff)
  then show "twice (backoff k) = Some (backoff k * 2)"
      "min (backoff k * 2) (from_secs 30) = backoff (Suc k)"
    by (auto simp: next_delay_def twice_def MAX_DELAY_def split: bind_splits if_splits)
qed

text \<open>
  A session that begins in the world \<open>w\<close> and ends in the world \<open>w'\<close>, where the clock has advanced by
  \<open>elapsed\<close> meanwhile.
\<close>

definition session_lasts ::
    "('w \<Rightarrow> duration \<times> 'w) \<Rightarrow> ('w \<Rightarrow> (unit io_result \<times> 'w) option) \<Rightarrow> 'w \<Rightarrow> duration \<Rightarrow> 'w \<Rightarrow> bool" where
  "session_lasts clock session w elapsed w' \<longleftrightarrow> (\<exists>started v r v' t.
     clock w = (started, v) \<and> session v = Some (r, v') \<and> clock v' = (t, w') \<and>
     elapsed = saturating_sub t started)"

lemma reconnect_round_backoff:
  assumes "pr_session pr (snd (pr_clock pr w)) \<noteq> None"
  obtains e v where "session_lasts (pr_clock pr) (pr_session pr) w e v"
    "reconnect_round pr (backoff k, w) =
      (let k = (if from_secs 30 \<le> e then 0 else k) in Some (backoff (Suc k), pr_sleep pr (backoff k) v))"
proof -
  obtain t0 w0 where c0: "pr_clock pr w = (t0, w0)" by (cases "pr_clock pr w")
  then obtain r w1 where s: "pr_session pr w0 = Some (r, w1)" using assms by auto
  obtain t1 w2 where c1: "pr_clock pr w1 = (t1, w2)" by (cases "pr_clock pr w1")
  let ?e = "saturating_sub t1 t0"
  let ?k = "if from_secs 30 \<le> ?e then 0 else k"
  have delay: "(if from_secs 30 \<le> ?e then from_secs 1 else backoff k) = backoff ?k"
    by (simp add: backoff_def)
  have "reconnect_round pr (backoff k, w) = Some (backoff (Suc ?k), pr_sleep pr (backoff ?k) w2)"
    by (simp add: reconnect_round_def c0 s c1 Let_def delay twice_backoff del: if_split)
  moreover have "session_lasts (pr_clock pr) (pr_session pr) w ?e w2"
    unfolding session_lasts_def using c0 s c1 by blast
  ultimately show thesis by (intro that [of ?e w2]) (simp_all add: Let_def)
qed

text \<open>The worlds in which the rounds begin, and how long the sessions last.\<close>

lemma reconnect_rounds_schedule:
  assumes "\<And>w. pr_session pr w \<noteq> None"
  shows "\<exists>ws es delay. reconnect_rounds pr n (backoff k, w) = Some (delay, ws ! n) \<and>
    length ws = Suc n \<and> length es = n \<and> ws ! 0 = w \<and>
    (\<forall>i<n. \<exists>v. session_lasts (pr_clock pr) (pr_session pr) (ws ! i) (es ! i) v \<and>
       ws ! Suc i = pr_sleep pr (schedule k es ! i) v)"
proof (induction n arbitrary: k w)
  case 0
  show ?case by (intro exI [of _ "[w]"] exI [of _ "[]"]) simp
next
  case (Suc n)
  obtain e v where first: "session_lasts (pr_clock pr) (pr_session pr) w e v"
    and round: "reconnect_round pr (backoff k, w) =
      (let k = (if from_secs 30 \<le> e then 0 else k) in Some (backoff (Suc k), pr_sleep pr (backoff k) v))"
    using reconnect_round_backoff [OF assms] by metis
  let ?k = "if from_secs 30 \<le> e then 0 else k"
  obtain ws es delay where rest: "reconnect_rounds pr n (backoff (Suc ?k), pr_sleep pr (backoff ?k) v) = Some (delay, ws ! n)"
      "length ws = Suc n" "length es = n" "ws ! 0 = pr_sleep pr (backoff ?k) v"
      "\<forall>i<n. \<exists>v. session_lasts (pr_clock pr) (pr_session pr) (ws ! i) (es ! i) v \<and>
         ws ! Suc i = pr_sleep pr (schedule (Suc ?k) es ! i) v"
    using Suc.IH by blast
  have "\<exists>v. session_lasts (pr_clock pr) (pr_session pr) ((w # ws) ! i) ((e # es) ! i) v \<and>
      (w # ws) ! Suc i = pr_sleep pr (schedule k (e # es) ! i) v" if "i < Suc n" for i
    using that first rest(4,5) by (cases i) (auto simp: Let_def)
  then show ?case
    using round rest(1-3) by (intro exI [of _ "w # ws"] exI [of _ "e # es"]) (auto simp: Let_def)
qed

lemma length_schedule: "length (schedule k es) = length es"
  by (induction k es rule: schedule.induct) (simp_all add: Let_def)

lemma schedule_bounds: "d \<in> set (schedule k es) \<Longrightarrow> from_secs 1 \<le> d \<and> d \<le> from_secs 30"
proof (induction k es rule: schedule.induct)
  case (2 k e es)
  then show ?case using backoff_bounds [of 0] backoff_bounds [of k] by (auto simp: Let_def)
qed simp

text \<open>
  C36. The process reconnects for ever and backs off: over connections that each deliver finitely
  many bytes, any number of sessions is followed by the next. Between the worlds in which two
  sessions begin there is one session, which takes some time on the clock, and one sleep, which
  is the one of the schedule for the sessions so far: a second after a session of half a minute
  or more, otherwise twice as long as before, between one second and thirty.
\<close>

theorem process_reconnects:
  assumes "agentx_ids ids subids" "agentx_pdus px" "closing_stream st patience remaining"
  shows "\<exists>ws es delay. reconnecting (process ids px st nf tables sleep config) n w = Some (delay, ws ! n) \<and>
    length ws = Suc n \<and> length es = n \<and> ws ! 0 = w \<and>
    (\<forall>i<n. \<exists>v. session_lasts (st_clock st) (process_session ids px st nf tables config) (ws ! i) (es ! i) v \<and>
       ws ! Suc i = sleep (schedule 0 es ! i) v \<and>
       from_secs 1 \<le> schedule 0 es ! i \<and> schedule 0 es ! i \<le> from_secs 30)"
proof -
  let ?pr = "process ids px st nf tables sleep config"
  have fields: "pr_clock ?pr = st_clock st" "pr_session ?pr = process_session ids px st nf tables config"
      "pr_sleep ?pr = sleep"
    by (simp_all add: process_def)
  have "pr_session ?pr w \<noteq> None" for w
    using closing_stream.session_run_returns [OF assms(3,1,2), of config tables "ready nf" w]
    by (auto simp: fields process_session_def)
  from reconnect_rounds_schedule [OF this, of n 0 w] obtain ws es delay where
    run: "reconnect_rounds ?pr n (backoff 0, w) = Some (delay, ws ! n)" "length ws = Suc n" "length es = n" "ws ! 0 = w"
    and rounds: "\<forall>i<n. \<exists>v. session_lasts (st_clock st) (process_session ids px st nf tables config) (ws ! i) (es ! i) v \<and>
       ws ! Suc i = sleep (schedule 0 es ! i) v"
    unfolding fields by blast
  have "schedule 0 es ! i \<in> set (schedule 0 es)" if "i < n" for i
    using that run(3) by (intro nth_mem) (simp add: length_schedule)
  then have bounds: "from_secs 1 \<le> schedule 0 es ! i \<and> schedule 0 es ! i \<le> from_secs 30" if "i < n" for i
    using schedule_bounds that by blast
  have "backoff 0 = from_secs 1" by (simp add: backoff_def)
  with run(1) have "reconnecting ?pr n w = Some (delay, ws ! n)" by (simp only: reconnecting_def)
  then show ?thesis using run(2-4) rounds bounds by metis
qed

text \<open>
  For the witness, a world that is the time of day: no master can be reached, and sleeping takes
  as long as it is asked to.
\<close>

definition unreachable :: "duration stream_ops" where
  "unreachable = \<lparr> st_connect = (\<lambda>path w. (Inl (IoError NotFound (OsMessage 2)), w)),
     st_set_read_timeout = (\<lambda>d w. (Inr (), w)), st_set_write_timeout = (\<lambda>d w. (Inr (), w)),
     st_read_timeout = (\<lambda>w. (Inr None, w)), st_read = (\<lambda>n w. (Inr [], w)),
     st_write_all = (\<lambda>bytes w. (Inr (), w)), st_clock = (\<lambda>w. (w, w)) \<rparr>"

interpretation unreachable: closing_stream unreachable "\<lambda>_. 0" "\<lambda>_. 0"
  by unfold_locales (auto simp: unreachable_def)

definition silent_manager :: "(unit, duration) notify_ops" where
  "silent_manager = \<lparr> nf_var_os = (\<lambda>name w. None), nf_unbound = (\<lambda>w. (Inr (), w)),
     nf_send_to_addr = (\<lambda>d text addr w. (Inr (length text), w)) \<rparr>"

lemma process_reconnects_witness:
  "\<exists>ws es delay. reconnecting (process rfc_ids (demo_pdus [] []) unreachable silent_manager
      (\<lambda>w. publication) (\<lambda>d w. w + d) default_config) 7 0 = Some (delay, ws ! 7) \<and>
    ws ! 7 = from_secs (1 + 2 + 4 + 8 + 16 + 30 + 30) \<and> length es = 7 \<and> schedule 0 es ! 0 \<le> from_secs 30"
proof -
  let ?run = "reconnecting (process rfc_ids (demo_pdus [] []) unreachable silent_manager
      (\<lambda>w. publication) (\<lambda>d w. w + d) default_config)"
  have "process_session rfc_ids (demo_pdus [] []) unreachable silent_manager (\<lambda>w. publication) default_config w =
      Some (Inl (IoError NotFound (OsMessage 2)), w)" for w
    by (simp add: process_session_def session_run_def open_session_def unreachable_def)
  then have "?run (Suc (Suc (Suc (Suc (Suc (Suc (Suc 0))))))) 0 =
      Some (from_secs 30, from_secs (1 + 2 + 4 + 8 + 16 + 30 + 30))"
    by (simp add: reconnecting_def reconnect_round_def process_def unreachable_def
        saturating_sub_def twice_def duration_defs)
  moreover have "Suc (Suc (Suc (Suc (Suc (Suc (Suc 0)))))) = 7" by simp
  ultimately have "?run 7 0 = Some (from_secs 30, from_secs (1 + 2 + 4 + 8 + 16 + 30 + 30))" by metis
  moreover obtain ws es delay where "?run 7 0 = Some (delay, ws ! 7)" "length es = 7"
      "\<forall>i<7. schedule 0 es ! i \<le> from_secs 30"
    using process_reconnects [OF rfc.agentx_ids_axioms demo.agentx_pdus_axioms unreachable.closing_stream_axioms,
      of "[]" "[]" silent_manager "\<lambda>w. publication" "\<lambda>d w. w + d" default_config 7 0]
    by blast
  ultimately show ?thesis by (intro exI [of _ ws] exI [of _ es] exI [of _ delay]) auto
qed

end
