(* ===== verification/Threads.thy ===== *)
theory Threads
  imports Supervisor
begin

text \<open>
  The two threads of the daemon, interleaved. \<open>thread_step\<close> lets either thread take its next
  step: an iteration of \<open>monitor::run\<close>, or the next part of a session, up to the points where it
  waits for the master or reads the published table. The cell is the only thing the threads
  share. A request reads it once, in the step that handles the request. An iteration changes it
  at most once, after its acquisition or after its failed wait, since an iteration that acquires
  does not wait; so each access of a schedule falls before or after that change, and every
  schedule of the threads is such an interleaving. Between steps the rest of the world may change
  the connection, as the relation \<open>env\<close> allows; the theorems hold for any.
\<close>

section \<open>The daemon\<close>

text \<open>
  \<open>dm_session\<close> is the identifier of the open session and \<open>dm_frame\<close> the frame received and not
  yet handled.
\<close>

record ('id, 's, 'w) daemon =
  dm_monitor :: "('id mib, 's) monitor"
  dm_world :: 'w
  dm_session :: "u32 option"
  dm_frame :: "(Header \<times> u8 list) option"

definition daemon_start :: "duration \<Rightarrow> 's \<Rightarrow> 'w \<Rightarrow> ('id, 's, 'w) daemon" where
  "daemon_start period source w =
     \<lparr> dm_monitor = monitor_start period publication source, dm_world = w, dm_session = None,
       dm_frame = None \<rparr>"

text \<open>The connection up to the registered table.\<close>

definition establish ::
    "'id id_ops \<Rightarrow> 'id pdu_ops \<Rightarrow> 'w stream_ops \<Rightarrow> Config \<Rightarrow> 'w \<Rightarrow> (Header io_result \<times> 'w) option" where
  "establish ids px st config w =
     try_call (open_session px st config w) (\<lambda>opened w.
     try_call (register_table ids px st config opened w) (\<lambda>_ w.
     Some (Inr opened, w)))"

definition handle_request ::
    "'id id_ops \<Rightarrow> 'id pdu_ops \<Rightarrow> 'w stream_ops \<Rightarrow> u32 \<Rightarrow> Header \<times> u8 list \<Rightarrow> ('id, 's, 'w) daemon \<Rightarrow>
     ('w, unit io_result \<times> 'w) control option" where
  "handle_request ids px st session_id request d =
     handle_frame ids px st (\<lambda>_. mon_cell (dm_monitor d)) session_id (fst request) (snd request) (dm_world d)"

inductive thread_step ::
    "'id id_ops \<Rightarrow> 's acquisition_ops \<Rightarrow> 'id pdu_ops \<Rightarrow> 'w stream_ops \<Rightarrow> Config \<Rightarrow> ('w \<Rightarrow> 'w) \<Rightarrow>
     ('w \<Rightarrow> 'w \<Rightarrow> bool) \<Rightarrow> ('id, 's, 'w) daemon \<Rightarrow> ('id, 's, 'w) daemon \<Rightarrow> bool"
  for ids A px st config registered env where
  iterate: "monitor_iteration ids A (dm_monitor d) = Some (Continue m) \<Longrightarrow>
    thread_step ids A px st config registered env d (d\<lparr> dm_monitor := m \<rparr>)"
| connect: "dm_session d = None \<Longrightarrow> establish ids px st config (dm_world d) = Some (Inr opened, w) \<Longrightarrow>
    thread_step ids A px st config registered env d
      (d\<lparr> dm_world := registered w, dm_session := Some (hdr_session_id opened), dm_frame := None \<rparr>)"
| refused: "dm_session d = None \<Longrightarrow> establish ids px st config (dm_world d) = Some (Inl e, w) \<Longrightarrow>
    thread_step ids A px st config registered env d (d\<lparr> dm_world := w \<rparr>)"
| arrive: "dm_session d = Some session_id \<Longrightarrow> dm_frame d = None \<Longrightarrow>
    receive px st IO_TIMEOUT (dm_world d) = Some (Inr request, w) \<Longrightarrow>
    thread_step ids A px st config registered env d (d\<lparr> dm_world := w, dm_frame := Some request \<rparr>)"
| lost: "dm_session d = Some session_id \<Longrightarrow> dm_frame d = None \<Longrightarrow>
    receive px st IO_TIMEOUT (dm_world d) = Some (Inl e, w) \<Longrightarrow>
    thread_step ids A px st config registered env d (d\<lparr> dm_world := w, dm_session := None \<rparr>)"
| reply: "dm_session d = Some session_id \<Longrightarrow> dm_frame d = Some request \<Longrightarrow>
    handle_request ids px st session_id request d = Some (Again w) \<Longrightarrow>
    thread_step ids A px st config registered env d (d\<lparr> dm_world := w, dm_frame := None \<rparr>)"
| leave: "dm_session d = Some session_id \<Longrightarrow> dm_frame d = Some request \<Longrightarrow>
    handle_request ids px st session_id request d = Some (Leave (r, w)) \<Longrightarrow>
    thread_step ids A px st config registered env d
      (d\<lparr> dm_world := w, dm_session := None, dm_frame := None \<rparr>)"
| elsewhere: "env (dm_world d) w \<Longrightarrow> thread_step ids A px st config registered env d (d\<lparr> dm_world := w \<rparr>)"

inductive_cases thread_step_cases: "thread_step ids A px st config registered env d d'"

text \<open>Only its own iterations change the monitor.\<close>

lemma thread_step_monitor:
  assumes "thread_step ids A px st config registered env d d'"
  shows "dm_monitor d' = dm_monitor d \<or> monitor_iteration ids A (dm_monitor d) = Some (Continue (dm_monitor d'))"
  using assms by cases auto

section \<open>Runs of the monitor, one after another\<close>

lemma monitor_run_later:
  "monitor_run ids A n m0 = Some (Continue m) \<Longrightarrow> monitor_run ids A (n + k) m0 = monitor_run ids A k m"
  by (induction n arbitrary: m0) (auto split: option.splits flow.splits)

lemma monitor_run_Suc:
  assumes "monitor_run ids A n m0 = Some (Continue m)" "monitor_iteration ids A m = Some flow"
  shows "monitor_run ids A (Suc n) m0 = Some flow"
  using monitor_run_later [OF assms(1), of 1] assms(2) by (cases flow) simp_all

lemma monitor_run_ok:
  assumes "monitor_run ids A n m = Some flow" "monitor_ok m"
  shows "monitor_ok (flow_end flow)"
  using assms by (rule monitor_run_preserves) (metis monitor_ok_iteration)

lemma monitor_run_serves:
  assumes "monitor_run ids A n m = Some flow" "monitor_ok m"
  shows "(service_step ids)\<^sup>*\<^sup>* (service m) (service (flow_end flow))"
proof -
  let ?P = "\<lambda>m'. monitor_ok m' \<and> (service_step ids)\<^sup>*\<^sup>* (service m) (service m')"
  from assms(1) have "?P (flow_end flow)"
  proof (rule monitor_run_preserves [where P = ?P])
    fix m' flow' assume P: "?P m'" and it: "monitor_iteration ids A m' = Some flow'"
    then obtain n where "(service_step ids ^^ n) (service m') (service (flow_end flow'))"
      using iteration_serves by blast
    then have "(service_step ids)\<^sup>*\<^sup>* (service m') (service (flow_end flow'))" by (rule relpowp_imp_rtranclp)
    then show "?P (flow_end flow')" using P it monitor_ok_iteration by (metis rtranclp_trans)
  qed (use assms(2) in simp)
  then show ?thesis by simp
qed

section \<open>The monitor of a reachable daemon\<close>

abbreviation reachable ::
    "'id id_ops \<Rightarrow> 's acquisition_ops \<Rightarrow> 'id pdu_ops \<Rightarrow> 'w stream_ops \<Rightarrow> Config \<Rightarrow> ('w \<Rightarrow> 'w) \<Rightarrow>
     ('w \<Rightarrow> 'w \<Rightarrow> bool) \<Rightarrow> duration \<Rightarrow> 's \<Rightarrow> 'w \<Rightarrow> ('id, 's, 'w) daemon \<Rightarrow> bool" where
  "reachable ids A px st config registered env period source w d \<equiv>
     (thread_step ids A px st config registered env)\<^sup>*\<^sup>* (daemon_start period source w) d"

lemma reachable_monitor:
  assumes "reachable ids A px st config registered env period source w d"
  obtains n where "monitor_run ids A n (monitor_start period publication source) = Some (Continue (dm_monitor d))"
  using assms
proof (induction arbitrary: thesis rule: rtranclp_induct)
  case base
  show ?case by (rule base [of 0]) (simp add: daemon_start_def)
next
  case (step d d')
  then obtain n where "monitor_run ids A n (monitor_start period publication source) = Some (Continue (dm_monitor d))"
    by blast
  then show ?case
    using thread_step_monitor [OF step.hyps(2)] step.prems [of n] step.prems [of "Suc n"] monitor_run_Suc by metis
qed

section \<open>A session in front of the abstract service\<close>

text \<open>
  The specification of the daemon as the master agent meets it: the monitor is replaced by the
  abstract service of \<open>service_step\<close>, an atomic cell that is attached, set and detached. A session
  answers each frame from what the service offers at one moment.
\<close>

record ('id, 'w) front =
  fr_service :: "'id mib service"
  fr_world :: 'w
  fr_session :: "u32 option"
  fr_frame :: "(Header \<times> u8 list) option"

inductive front_step ::
    "'id id_ops \<Rightarrow> 'id pdu_ops \<Rightarrow> 'w stream_ops \<Rightarrow> Config \<Rightarrow> ('w \<Rightarrow> 'w) \<Rightarrow> ('w \<Rightarrow> 'w \<Rightarrow> bool) \<Rightarrow>
     ('id, 'w) front \<Rightarrow> ('id, 'w) front \<Rightarrow> bool"
  for ids px st config registered env where
  serve: "service_step ids (fr_service f) v \<Longrightarrow>
    front_step ids px st config registered env f (f\<lparr> fr_service := v \<rparr>)"
| unopened: "fr_session f = None \<Longrightarrow> open_session px st config (fr_world f) = Some (Inl e, w) \<Longrightarrow>
    front_step ids px st config registered env f (f\<lparr> fr_world := w \<rparr>)"
| unregistered: "fr_session f = None \<Longrightarrow> open_session px st config (fr_world f) = Some (Inr opened, v) \<Longrightarrow>
    register_table ids px st config opened v = Some (Inl e, w) \<Longrightarrow>
    front_step ids px st config registered env f (f\<lparr> fr_world := w \<rparr>)"
| registered: "fr_session f = None \<Longrightarrow> open_session px st config (fr_world f) = Some (Inr opened, v) \<Longrightarrow>
    register_table ids px st config opened v = Some (Inr (), w) \<Longrightarrow>
    front_step ids px st config registered env f
      (f\<lparr> fr_world := registered w, fr_session := Some (hdr_session_id opened), fr_frame := None \<rparr>)"
| received: "fr_session f = Some session_id \<Longrightarrow> fr_frame f = None \<Longrightarrow>
    receive px st IO_TIMEOUT (fr_world f) = Some (Inr request, w) \<Longrightarrow>
    front_step ids px st config registered env f (f\<lparr> fr_world := w, fr_frame := Some request \<rparr>)"
| broken: "fr_session f = Some session_id \<Longrightarrow> fr_frame f = None \<Longrightarrow>
    receive px st IO_TIMEOUT (fr_world f) = Some (Inl e, w) \<Longrightarrow>
    front_step ids px st config registered env f (f\<lparr> fr_world := w, fr_session := None \<rparr>)"
| answered: "fr_session f = Some session_id \<Longrightarrow> fr_frame f = Some (header, bytes) \<Longrightarrow>
    fr_service f = (generation, active, cell) \<Longrightarrow>
    handle_frame ids px st (\<lambda>_. cell) session_id header bytes (fr_world f) = Some (Again w) \<Longrightarrow>
    front_step ids px st config registered env f (f\<lparr> fr_world := w, fr_frame := None \<rparr>)"
| finished: "fr_session f = Some session_id \<Longrightarrow> fr_frame f = Some (header, bytes) \<Longrightarrow>
    fr_service f = (generation, active, cell) \<Longrightarrow>
    handle_frame ids px st (\<lambda>_. cell) session_id header bytes (fr_world f) = Some (Leave (r, w)) \<Longrightarrow>
    front_step ids px st config registered env f (f\<lparr> fr_world := w, fr_session := None, fr_frame := None \<rparr>)"
| environment: "env (fr_world f) w \<Longrightarrow> front_step ids px st config registered env f (f\<lparr> fr_world := w \<rparr>)"

definition front_of :: "('id, 's, 'w) daemon \<Rightarrow> ('id, 'w) front" where
  "front_of d = \<lparr> fr_service = service (dm_monitor d), fr_world = dm_world d,
     fr_session = dm_session d, fr_frame = dm_frame d \<rparr>"

lemma front_of_update [simp]:
  "front_of (d\<lparr> dm_monitor := m \<rparr>) = (front_of d)\<lparr> fr_service := service m \<rparr>"
  "front_of (d\<lparr> dm_world := w \<rparr>) = (front_of d)\<lparr> fr_world := w \<rparr>"
  "front_of (d\<lparr> dm_session := i \<rparr>) = (front_of d)\<lparr> fr_session := i \<rparr>"
  "front_of (d\<lparr> dm_frame := r \<rparr>) = (front_of d)\<lparr> fr_frame := r \<rparr>"
  by (simp_all add: front_of_def)

lemma front_of_fields [simp]:
  "fr_service (front_of d) = service (dm_monitor d)" "fr_world (front_of d) = dm_world d"
  "fr_session (front_of d) = dm_session d" "fr_frame (front_of d) = dm_frame d"
  by (simp_all add: front_of_def)

lemma front_serves:
  assumes "(service_step ids)\<^sup>*\<^sup>* (fr_service f) v"
  shows "(front_step ids px st config registered env)\<^sup>*\<^sup>* f (f\<lparr> fr_service := v \<rparr>)"
  using assms
proof (induction rule: rtranclp_induct)
  case (step u v)
  have "front_step ids px st config registered env (f\<lparr> fr_service := u \<rparr>) (f\<lparr> fr_service := u, fr_service := v \<rparr>)"
    by (rule front_step.serve) (use step in simp)
  with step.IH show ?case by (simp add: rtranclp.rtrancl_into_rtrancl)
qed simp

lemma establish_cases:
  assumes "establish ids px st config w = Some (r, w')"
  obtains
    (unopened) e where "r = Inl e" "open_session px st config w = Some (Inl e, w')"
  | (unregistered) e opened v where "r = Inl e" "open_session px st config w = Some (Inr opened, v)"
      "register_table ids px st config opened v = Some (Inl e, w')"
  | (registered) opened v where "r = Inr opened" "open_session px st config w = Some (Inr opened, v)"
      "register_table ids px st config opened v = Some (Inr (), w')"
  using assms by (auto simp: establish_def try_call_def split: option.splits prod.splits sum.splits)

text \<open>One step of the threads is a sequence of steps of the specification.\<close>

lemma thread_step_front:
  assumes "thread_step ids A px st config registered env d d'" "monitor_ok (dm_monitor d)"
  shows "(front_step ids px st config registered env)\<^sup>*\<^sup>* (front_of d) (front_of d')"
  using assms(1)
proof cases
  case (iterate m)
  have "monitor_run ids A 1 (dm_monitor d) = Some (Continue m)" using iterate(2) by simp
  from monitor_run_serves [OF this assms(2)] show ?thesis by (simp add: iterate(1) front_serves)
next
  case (connect opened w)
  from connect(3) show ?thesis
    by (rule establish_cases)
      (use connect front_step.registered [of "front_of d" px st config opened _ ids w registered env] in auto)
next
  case (refused e w)
  from refused(3) show ?thesis
    by (rule establish_cases)
      (use refused front_step.unopened [of "front_of d" px st config e w ids registered env]
         front_step.unregistered [of "front_of d" px st config _ _ ids e w registered env] in auto)
next
  case (arrive session_id request w)
  from front_step.received [of "front_of d" session_id px st request w ids config registered env] arrive
  show ?thesis by auto
next
  case (lost session_id e w)
  from front_step.broken [of "front_of d" session_id px st e w ids config registered env] lost
  show ?thesis by auto
next
  case (reply session_id request w)
  have "front_step ids px st config registered env (front_of d) (front_of d')"
    using front_step.answered [of "front_of d" session_id "fst request" "snd request"] reply
    by (auto simp: handle_request_def service_def)
  then show ?thesis by blast
next
  case (leave session_id request r w)
  have "front_step ids px st config registered env (front_of d) (front_of d')"
    using front_step.finished [of "front_of d" session_id "fst request" "snd request"] leave
    by (auto simp: handle_request_def service_def)
  then show ?thesis by blast
next
  case (elsewhere w)
  show ?thesis
    using front_step.environment [of env "front_of d" w ids px st config registered] elsewhere by auto
qed

text \<open>
  C3. The daemon refines a session in front of the abstract service: whatever the schedule of the
  threads, the state that it reaches, with all that was done to the connection, is reached by a
  session whose frames are handled one after another, each from what the abstract service
  offers at one moment. So the answers linearize: no request sees a table half changed, or one
  that the service never offered.
\<close>

theorem answers_linearize:
  assumes "reachable ids A px st config registered env period source w d"
  shows "(front_step ids px st config registered env)\<^sup>*\<^sup>*
    \<lparr> fr_service = (0, False, None), fr_world = w, fr_session = None, fr_frame = None \<rparr>
    \<lparr> fr_service = (continuity (mon_state (dm_monitor d)), subscribed (mon_state (dm_monitor d)),
        mon_cell (dm_monitor d)),
      fr_world = dm_world d, fr_session = dm_session d, fr_frame = dm_frame d \<rparr>"
proof -
  have "(front_step ids px st config registered env)\<^sup>*\<^sup>* (front_of (daemon_start period source w)) (front_of d)"
    using assms
  proof (induction rule: rtranclp_induct)
    case (step d d')
    obtain n where "monitor_run ids A n (monitor_start period publication source) = Some (Continue (dm_monitor d))"
      by (rule reachable_monitor [OF step.hyps(1)])
    from monitor_run_ok [OF this] have "monitor_ok (dm_monitor d)" by simp
    from thread_step_front [OF step.hyps(2) this] step.IH show ?case by (rule rtranclp_trans [rotated])
  qed simp
  then show ?thesis
    by (simp add: front_of_def daemon_start_def service_def monitor_start_def new_state_def publication_def)
qed

section \<open>No interleaving panics\<close>

lemma reachable_monitor_ok:
  assumes "reachable ids A px st config registered env period source w d"
  shows "monitor_ok (dm_monitor d)"
proof -
  obtain n where "monitor_run ids A n (monitor_start period publication source) = Some (Continue (dm_monitor d))"
    by (rule reachable_monitor [OF assms])
  from monitor_run_ok [OF this] show ?thesis by simp
qed

lemma establish_returns:
  assumes "session_stream st patience"
  shows "\<exists>r. establish ids px st config w = Some r"
  unfolding establish_def
  by (intro try_call_returns open_session_returns [OF assms] register_table_returns [OF assms]) simp

text \<open>
  C4. No schedule panics: in every reachable state of the daemon the next iteration of the
  monitor returns, and so does the next part of the session: the opening and the registration,
  the reading of the next frame, or the answer to the frame at hand, whatever the master sends
  and whichever table is published.
\<close>

theorem threads_never_panic:
  assumes "agentx_ids ids subids" "agentx_pdus px" "session_stream st patience" "total_source A"
    and "reachable ids A px st config registered env period source w d"
  shows "(\<exists>flow. monitor_iteration ids A (dm_monitor d) = Some flow) \<and>
    (case (dm_session d, dm_frame d) of
       (None, _) \<Rightarrow> \<exists>r. establish ids px st config (dm_world d) = Some r
     | (Some session_id, None) \<Rightarrow> \<exists>r. receive px st IO_TIMEOUT (dm_world d) = Some r
     | (Some session_id, Some request) \<Rightarrow> \<exists>c. handle_request ids px st session_id request d = Some c)"
  using monitor_iteration_total [OF assms(1,4) reachable_monitor_ok [OF assms(5)]]
    establish_returns [OF assms(3)] session_stream.receive_returns [OF assms(3)]
    handle_frame_returns [OF assms(1,2)]
  by (auto simp: handle_request_def split: option.split simp del: split_paired_Ex)

section \<open>A session on its own\<close>

text \<open>
  While the monitor stands still, a session as \<open>session::run\<close> describes it is a run of the
  interleaving: the two models of the session agree.
\<close>

abbreviation (input) in_session ::
    "u32 option \<Rightarrow> 'w \<Rightarrow> ('id, 's, 'w) daemon \<Rightarrow> ('id, 's, 'w) daemon" where
  "in_session session_id w d \<equiv> \<lparr> dm_monitor = dm_monitor d, dm_world = w, dm_session = session_id,
     dm_frame = None \<rparr>"

lemma serve_round_steps:
  assumes "serve_round ids px st (\<lambda>_. mon_cell (dm_monitor d)) session_id v = Some c"
  shows "(thread_step ids A px st config registered env)\<^sup>*\<^sup>* (in_session (Some session_id) v d)
    (case c of Again v' \<Rightarrow> in_session (Some session_id) v' d
     | Leave (r, v') \<Rightarrow> in_session None v' d)"
proof -
  let ?step = "thread_step ids A px st config registered env"
  let ?d = "in_session (Some session_id) v d"
  obtain r v1 where rx: "receive px st IO_TIMEOUT v = Some (r, v1)"
    using assms by (auto simp: serve_round_def split: bind_splits)
  show ?thesis
  proof (cases r)
    case (Inl e)
    then have "c = Leave (Inl e, v1)" using assms rx by (simp add: serve_round_def)
    moreover have "?step ?d (?d\<lparr> dm_world := v1, dm_session := None \<rparr>)"
      by (rule thread_step.lost [where session_id = session_id and e = e]) (simp_all add: rx Inl)
    ultimately show ?thesis by (auto intro: r_into_rtranclp)
  next
    case (Inr request)
    let ?d1 = "?d\<lparr> dm_world := v1, dm_frame := Some request \<rparr>"
    have "?step ?d ?d1"
      by (rule thread_step.arrive [where session_id = session_id]) (simp_all add: rx Inr)
    moreover have c: "handle_request ids px st session_id request ?d1 = Some c"
      using assms rx by (simp add: serve_round_def handle_request_def Inr split: prod.splits)
    have "?step ?d1 (case c of Again v' \<Rightarrow> in_session (Some session_id) v' d
       | Leave (r, v') \<Rightarrow> in_session None v' d)"
    proof (cases c)
      case (Again v')
      from thread_step.reply [OF _ _ c [unfolded Again]] show ?thesis by (simp add: Again)
    next
      case (Leave rv)
      obtain r' v' where rv: "rv = (r', v')" by (cases rv)
      from thread_step.leave [OF _ _ c [unfolded Leave rv]] show ?thesis by (simp add: Leave rv)
    qed
    ultimately show ?thesis by (blast intro: rtranclp.rtrancl_into_rtrancl r_into_rtranclp)
  qed
qed

lemma session_loop_steps:
  assumes "loop (serve_round ids px st (\<lambda>_. mon_cell (dm_monitor d)) session_id) v = Some r"
  shows "(thread_step ids A px st config registered env)\<^sup>*\<^sup>* (in_session (Some session_id) v d) (in_session None (snd r) d)"
  using assms
proof (rule loop_invariant [where P = "\<lambda>u. (thread_step ids A px st config registered env)\<^sup>*\<^sup>*
    (in_session (Some session_id) v d) (in_session (Some session_id) u d)"])
  fix u u' assume "(thread_step ids A px st config registered env)\<^sup>*\<^sup>* (in_session (Some session_id) v d) (in_session (Some session_id) u d)"
    and "serve_round ids px st (\<lambda>_. mon_cell (dm_monitor d)) session_id u = Some (Again u')"
  then show "(thread_step ids A px st config registered env)\<^sup>*\<^sup>* (in_session (Some session_id) v d) (in_session (Some session_id) u' d)"
    using serve_round_steps [of ids px st d session_id u "Again u'" A config registered env] by simp
next
  fix u r' assume "(thread_step ids A px st config registered env)\<^sup>*\<^sup>* (in_session (Some session_id) v d) (in_session (Some session_id) u d)"
    and "serve_round ids px st (\<lambda>_. mon_cell (dm_monitor d)) session_id u = Some (Leave r')"
  then show "(thread_step ids A px st config registered env)\<^sup>*\<^sup>* (in_session (Some session_id) v d) (in_session None (snd r') d)"
    using serve_round_steps [of ids px st d session_id u "Leave r'" A config registered env] by (cases r') simp
qed simp

theorem session_run_steps:
  assumes "session_run ids px st config (\<lambda>_. mon_cell (dm_monitor d)) registered (dm_world d) = Some (r, w)"
    and "dm_session d = None" "dm_frame d = None"
  shows "\<exists>d'. (thread_step ids A px st config registered env)\<^sup>*\<^sup>* d d' \<and> dm_monitor d' = dm_monitor d \<and>
    dm_world d' = w \<and> dm_session d' = None \<and> dm_frame d' = None"
proof (cases "establish ids px st config (dm_world d)")
  case None
  then show ?thesis using assms(1)
    by (auto simp: session_run_def establish_def try_call_def split: option.splits prod.splits sum.splits)
next
  case (Some x)
  obtain q v where x: "x = (q, v)" by (cases x)
  show ?thesis
  proof (cases q)
    case (Inl e)
    have "thread_step ids A px st config registered env d (d\<lparr> dm_world := v \<rparr>)"
      by (rule thread_step.refused [OF assms(2)]) (simp add: Some x Inl)
    moreover have "v = w"
      using assms(1) Some x Inl
      by (auto simp: session_run_def establish_def try_call_def split: option.splits prod.splits sum.splits)
    ultimately show ?thesis using assms(2,3) by (intro exI [of _ "d\<lparr> dm_world := v \<rparr>"]) auto
  next
    case (Inr opened)
    have connect: "thread_step ids A px st config registered env d
        (in_session (Some (hdr_session_id opened)) (registered v) d)"
      using thread_step.connect [OF assms(2), of ids px st config opened v A registered env] Some x Inr by (cases d) simp
    have "loop (serve_round ids px st (\<lambda>_. mon_cell (dm_monitor d)) (hdr_session_id opened)) (registered v) =
        Some (r, w)"
      using assms(1) Some x Inr
      by (auto simp: session_run_def establish_def try_call_def split: option.splits prod.splits sum.splits)
    from session_loop_steps [OF this, of A config registered env]
    have "(thread_step ids A px st config registered env)\<^sup>*\<^sup>*
         (in_session (Some (hdr_session_id opened)) (registered v) d) (in_session None w d)"
      by simp
    with connect have "(thread_step ids A px st config registered env)\<^sup>*\<^sup>* d (in_session None w d)"
      by (rule converse_rtranclp_into_rtranclp)
    then show ?thesis by (intro exI [of _ "in_session None w d"]) simp
  qed
qed

section \<open>A daemon at work\<close>

text \<open>
  For the witnesses: a master that acknowledges the two administrative requests and sends a GET,
  and a daemon that handles it after some iterations of its monitor.
\<close>

definition demo_ack :: "u8 \<Rightarrow> u8 list" where
  "demo_ack packet = [1, 18, 16, 0, 0, 0, 0, 7, 0, 0, 0, 3, 0, 0, 0, packet, 0, 0, 0, 8] @ replicate 8 0"

definition demo_get :: "u8 list" where
  "demo_get = [1, 5, 16, 0, 0, 0, 0, 7, 0, 0, 0, 3, 0, 0, 0, 4, 0, 0, 0, 0]"

definition demo_get_header :: Header where
  "demo_get_header = (demo_header TyGet)\<lparr> hdr_payload_length := 0 \<rparr>"

definition demo_master :: "u8 list" where
  "demo_master = demo_ack 1 @ demo_ack 2 @ demo_get"

lemma byte_stream_calls:
  "st_connect byte_stream path w = (Inr (), w)" "st_read_timeout byte_stream w = (Inr None, w)"
  "st_set_read_timeout byte_stream t w = (Inr (), w)" "st_set_write_timeout byte_stream t w = (Inr (), w)"
  "st_write_all byte_stream bytes w = (Inr (), w)" "st_clock byte_stream w = (0, w)"
  by (simp_all add: byte_stream_def)


lemmas demo_reading = receive_def byte_stream_read_exact [of "Suc 0"] byte_stream_read_before byte_stream_calls
  IO_TIMEOUT_def duration_defs MAX_PAYLOAD_def rfc_header_def u32_from_be_bytes_def

lemma demo_px:
  "px_header (demo_pdus rs vbs) = rfc_header" 
  "px_res_error (demo_pdus rs vbs) [0, 0] BigEndian = Inr NoAgentXError"
  "px_open_new (demo_pdus rs vbs) oid descr = \<lparr> op_header = demo_header TyOpen, op_timeout = 0, op_id = oid, op_descr = descr \<rparr>"
  "px_open_bytes (demo_pdus rs vbs) pdu = Inr (replicate 28 0, pdu)"
  "px_register_new (demo_pdus rs vbs) oid = \<lparr> rg_header = demo_header TyRegister, rg_priority = 127, rg_subtree = oid \<rparr>"
  "px_register_bytes (demo_pdus rs vbs) reg = Inr (replicate 28 0, reg)"
  by (simp_all add: demo_pdus_def)

lemma demo_acknowledge:
  assumes "hdr_transaction_id request = 3" "hdr_packet_id request = ucast packet"
    "hdr_ty request \<noteq> TyOpen \<longrightarrow> hdr_session_id request = 7" "packet \<in> {1, 2}"
  shows "acknowledge (demo_pdus rs vbs) byte_stream request (demo_ack packet @ rest) =
    Some (Inr ((demo_header TyResponse)\<lparr> hdr_packet_id := ucast packet \<rparr>), rest)"
proof -
  have field: "replicate 2 0 = [0, 0 :: u8]" by (simp add: numeral_2_eq_2)
  show ?thesis using assms
   by (auto simp: acknowledge_def demo_reading demo_ack_def demo_px check_acknowledgement_def slice_def
        NETWORK_ORDER_def NETWORK_BYTE_ORDER_def field demo_header_def)
qed

lemma demo_establish:
  "establish rfc_ids (demo_pdus rs vbs) byte_stream default_config demo_master =
     Some (Inr ((demo_header TyResponse)\<lparr> hdr_packet_id := 1 \<rparr>), demo_get)"
  by (simp add: establish_def open_session_def register_table_def demo_px demo_master_def byte_stream_calls
     demo_acknowledge [of _ 1, simplified] demo_acknowledge [of _ 2, simplified] demo_header_def rfc_ids_def TABLE_def)

lemma demo_receive:
  "receive (demo_pdus rs vbs) byte_stream IO_TIMEOUT demo_get = Some (Inr (demo_get_header, demo_get), [])"
  by (simp add: demo_reading demo_px demo_get_def demo_get_header_def demo_header_def)

text \<open>Iterations of the monitor, then a session up to its first request.\<close>

lemma reachable_iterations:
  assumes "monitor_run ids A n (monitor_start period publication source) = Some (Continue m)"
  shows "reachable ids A px st config registered env period source w
    ((daemon_start period source w)\<lparr> dm_monitor := m \<rparr>)"
proof -
  have "(thread_step ids A px st config registered env)\<^sup>*\<^sup>* d (d\<lparr> dm_monitor := m \<rparr>)"
    if "monitor_run ids A n (dm_monitor d) = Some (Continue m)" for d
    using that
  proof (induction n arbitrary: d)
    case (Suc n)
    then obtain m1 where "monitor_iteration ids A (dm_monitor d) = Some (Continue m1)"
        "monitor_run ids A n m1 = Some (Continue m)"
      by (auto split: option.splits flow.splits)
    then show ?case
      using thread_step.iterate [of ids A d m1 px st config registered env] Suc.IH [of "d\<lparr> dm_monitor := m1 \<rparr>"]
      by (simp add: converse_rtranclp_into_rtranclp)
  qed auto
  from this [of "daemon_start period source w"] show ?thesis using assms by (simp add: daemon_start_def)
qed

lemma demo_reachable:
  assumes "monitor_run rfc_ids A n (monitor_start period publication source) = Some (Continue m)"
  obtains d where
    "reachable rfc_ids A (demo_pdus rs vbs) byte_stream default_config id (=) period source demo_master d"
    "dm_monitor d = m" "dm_world d = []" "dm_session d = Some 7" "dm_frame d = Some (demo_get_header, demo_get)"
proof -
  let ?step = "thread_step rfc_ids A (demo_pdus rs vbs) byte_stream default_config id (=)"
  let ?at = "\<lambda>w session_id request. \<lparr> dm_monitor = m, dm_world = w, dm_session = session_id, dm_frame = request \<rparr>"
  have start: "?step\<^sup>*\<^sup>* (daemon_start period source demo_master) (?at demo_master None None)"
    using reachable_iterations [OF assms, of "demo_pdus rs vbs" byte_stream default_config id "(=)" demo_master]
    by (simp add: daemon_start_def)
  have "?step (?at demo_master None None) (?at demo_get (Some 7) None)"
    using thread_step.connect [of "?at demo_master None None" rfc_ids "demo_pdus rs vbs" byte_stream
        default_config "(demo_header TyResponse)\<lparr> hdr_packet_id := 1 \<rparr>" demo_get A id "(=)"]
    by (simp add: demo_establish) (simp add: demo_header_def)
  moreover have "?step (?at demo_get (Some 7) None) (?at [] (Some 7) (Some (demo_get_header, demo_get)))"
    using thread_step.arrive [of "?at demo_get (Some 7) None" 7 "demo_pdus rs vbs" byte_stream
        "(demo_get_header, demo_get)" "[]" rfc_ids A default_config id "(=)"]
    by (simp add: demo_receive)
  ultimately have "?step\<^sup>*\<^sup>* (daemon_start period source demo_master)
      (?at [] (Some 7) (Some (demo_get_header, demo_get)))"
    using start by (meson rtranclp.rtrancl_into_rtrancl)
  then show thesis by (rule that) simp_all
qed

lemma answers_linearize_witness:
  "\<exists>m :: (rfc_id mib, script) monitor. mon_cell m \<noteq> None \<and>
     (front_step rfc_ids (demo_pdus [] []) byte_stream default_config id (=))\<^sup>*\<^sup>*
       \<lparr> fr_service = (0, False, None), fr_world = demo_master, fr_session = None, fr_frame = None \<rparr>
       \<lparr> fr_service = service m, fr_world = [], fr_session = Some 7,
         fr_frame = Some (demo_get_header, demo_get) \<rparr>"
proof -
  obtain m where it: "monitor_iteration rfc_ids script_ops boot = Some (Continue m)" "mon_cell m \<noteq> None"
    by (rule boot_publishes)
  then have "monitor_run rfc_ids script_ops 1 boot = Some (Continue m)" by simp
  then obtain d where
    reach: "reachable rfc_ids script_ops (demo_pdus [] []) byte_stream default_config id (=) (from_secs 300)
      (mon_source boot) demo_master d"
    and d: "dm_monitor d = m" "dm_world d = []" "dm_session d = Some 7" "dm_frame d = Some (demo_get_header, demo_get)"
    using demo_reachable [of script_ops 1 "from_secs 300" "mon_source boot" m "[]" "[]"]
    by (auto simp: boot_def monitor_start_def)
  show ?thesis using answers_linearize [OF reach] it(2) unfolding d service_def by blast
qed

lemma threads_never_panic_witness:
  "\<exists>d :: (rfc_id, script, u8 list) daemon. dm_frame d = Some (demo_get_header, demo_get) \<and>
     (\<exists>flow. monitor_iteration rfc_ids script_ops (dm_monitor d) = Some flow) \<and>
     (\<exists>c. handle_request rfc_ids (demo_pdus [] []) byte_stream 7 (demo_get_header, demo_get) d = Some c)"
proof -
  have "monitor_run rfc_ids script_ops 0 boot = Some (Continue boot)" by simp
  then obtain d where
    reach: "reachable rfc_ids script_ops (demo_pdus [] []) byte_stream default_config id (=) (from_secs 300)
      (mon_source boot) demo_master d"
    and d: "dm_session d = Some 7" "dm_frame d = Some (demo_get_header, demo_get)"
    using demo_reachable [of script_ops 0 "from_secs 300" "mon_source boot" boot "[]" "[]"]
    by (auto simp: boot_def monitor_start_def)
  from threads_never_panic [OF rfc.agentx_ids_axioms demo.agentx_pdus_axioms bytes.session_stream_axioms
      script_total reach] d
  show ?thesis by auto
qed

end
