(* ===== verification/Refresh.thy ===== *)
theory Refresh
  imports Threads
begin

text \<open>
  The table follows the kernel: while the monitor is subscribed it asks for another inventory
  within finitely many iterations, whatever notifications arrive, as soon as the deadline of its
  scheduling state has passed. \<open>timely_source\<close> is what that takes of a source: its clock, and that
  a wait takes time. The source over netlink sockets keeps this contract.
\<close>

section \<open>The deadline of the scheduling state\<close>

lemma due_deadline:
  assumes "state_ok s"
  shows "due s t \<longleftrightarrow> next_deadline s 0 \<le> t"
  using due_exact [OF assms, of 0 t] by (simp add: saturating_sub_def)

text \<open>A further event does not postpone it, and an event deadline is kept.\<close>

lemma deadline_record_event:
  "next_deadline (record_event at s) 0 \<le> next_deadline s 0"
proof (cases "event_deadline s")
  case None
  then show ?thesis
    by (auto simp: next_deadline_def Let_def record_event_def saturating_add_def split: option.splits)
next
  case (Some deadline)
  then have "event_deadline (record_event at s) = Some deadline" by (simp add: record_event_def Let_def)
  then show ?thesis
    by (cases "retry_not_before s"; cases "last_success s") (simp_all add: next_deadline_def Some)
qed

lemma event_bounds_deadline:
  assumes "event_deadline s = Some deadline" "retry_not_before s = None"
  shows "next_deadline s 0 \<le> deadline"
  using assms by (simp add: next_deadline_def)

section \<open>Sources on which time passes\<close>

text \<open>
  \<open>time\<close> is the clock of the machine; the clock of the source counts from \<open>origin\<close>.
\<close>

locale timely_source =
  fixes A :: "'s acquisition_ops" and time :: "'s \<Rightarrow> nat" and origin :: "'s \<Rightarrow> nat"
  assumes now_time: "acq_now A src = (t, src') \<Longrightarrow>
      time src \<le> t + origin src \<and> time src \<le> time src' \<and> origin src' = origin src"
    and wait_time: "acq_wait A d src = Some (r, src') \<Longrightarrow>
      r \<noteq> Inr Shutdown \<and> (0 < d \<longrightarrow> time src < time src') \<and> origin src' = origin src"
begin

text \<open>An iteration under a subscription asks for an inventory, loses continuity, or waits.\<close>

lemma iteration_refreshes:
  assumes it: "monitor_iteration ids A m = Some flow" and ok: "monitor_ok m" and sub: "subscribed (mon_state m)"
  obtains
    (asked) src m' where "flow = Continue m'" "time (mon_source m) \<le> time src"
      "src = snd (acq_now A (snd (acq_now A (mon_source m))))"
      "acquisition_phase ids A (mon_state m) (mon_cell m) src = Some m'"
  | (lost) m' where "flow = Continue m'" "mon_cell m' = None" "\<not> subscribed (mon_state m')"
      "continuity (mon_state m') = continuity (mon_state m) + 1"
  | (waited) m' where "flow = Continue m'" "mon_cell m' = mon_cell m"
      "mon_state m' = mon_state m \<or> (\<exists>at. mon_state m' = record_event at (mon_state m))"
      "time (mon_source m) < time (mon_source m')" "origin (mon_source m') = origin (mon_source m)"
      "time (mon_source m) < origin (mon_source m) + next_deadline (mon_state m) 0"
proof -
  obtain t0 src0 where n0: "acq_now A (mon_source m) = (t0, src0)" by (cases "acq_now A (mon_source m)")
  obtain t src where n1: "acq_now A src0 = (t, src)" by (cases "acq_now A src0")
  note clock = now_time [OF n0] now_time [OF n1]
  have s: "state_ok (mon_state m)" using ok by (simp add: monitor_ok_def)
  have body: "(if acquisition_ready (mon_state m) t
       then map_option Continue (acquisition_phase ids A (mon_state m) (mon_cell m) src)
       else wait_phase A t (mon_state m) (mon_cell m) src) = Some flow"
    using it sub by (auto simp: monitor_iteration_def n0 n1 subscription_phase_def split: bind_splits)
  show thesis
  proof (cases "acquisition_ready (mon_state m) t")
    case True
    with body obtain m' where "flow = Continue m'"
        "acquisition_phase ids A (mon_state m) (mon_cell m) src = Some m'" by auto
    then show thesis using clock by (intro asked [of m' src]) (auto simp: n0 n1)
  next
    case False
    then have wait: "wait_phase A t (mon_state m) (mon_cell m) src = Some flow" using body by simp
    have early: "\<not> due (mon_state m) t" using False sub by (simp add: due_def)
    then have timeout: "0 < saturating_sub (next_deadline (mon_state m) t) t"
      using due_exact [OF s, of t 0] by simp
    obtain r src1 where r: "acq_wait A (saturating_sub (next_deadline (mon_state m) t) t) src = Some (r, src1)"
      using wait by (auto simp: wait_phase_def Let_def split: bind_splits)
    note passed = wait_time [OF r] timeout
    show thesis
    proof (cases r)
      case (Inl e)
      obtain t2 src2 where n2: "acq_now A src1 = (t2, src2)" by (cases "acq_now A src1")
      obtain s2 where "lose_continuity t2 (mon_state m) (mon_cell m) = Some (s2, None)" "\<not> subscribed s2"
          "continuity s2 = continuity (mon_state m) + 1"
        using lose_continuity_ok [OF state_ok_delays [OF s], of t2 "mon_cell m"] by auto
      with wait show thesis by (intro lost) (auto simp: wait_phase_def r Inl n2)
    next
      case (Inr what)
      have "time (mon_source m) < origin (mon_source m) + next_deadline (mon_state m) 0"
        using early due_deadline [OF s, of t] clock by simp
      moreover have "time (mon_source m) < time src1" "origin src1 = origin (mon_source m)"
        using clock passed by auto
      moreover obtain m' where "flow = Continue m'" "mon_cell m' = mon_cell m" "mon_source m' = src1"
          "mon_state m' = mon_state m \<or> (\<exists>at. mon_state m' = record_event at (mon_state m))"
      proof (cases what)
        case Deadline
        then show thesis using wait that by (auto simp: wait_phase_def r Inr)
      next
        case (LinkChanged at)
        with wait have flow: "flow = Continue \<lparr> mon_state = record_event at (mon_state m),
            mon_cell = mon_cell m, mon_source = src1 \<rparr>" by (simp add: wait_phase_def r Inr)
        show thesis by (rule that [OF flow]) auto
      next
        case Shutdown
        then show thesis using passed(1) Inr by simp
      qed
      ultimately show thesis by (intro waited [of m']) auto
    qed
  qed
qed

text \<open>
  Waiting ends: the waits all begin before the deadline, and each takes time.
\<close>

lemma refresh:
  assumes total: "agentx_ids ids subids" "total_source A"
    and "monitor_ok m" "subscribed (mon_state m)"
    and "origin (mon_source m) + next_deadline (mon_state m) 0 \<le> deadline"
  shows "\<exists>k m1 m2. monitor_run ids A k m = Some (Continue m1) \<and> monitor_iteration ids A m1 = Some (Continue m2) \<and>
    monitor_ok m1 \<and> mon_cell m1 = mon_cell m \<and> subscribed (mon_state m1) \<and>
    continuity (mon_state m1) = continuity (mon_state m) \<and>
    time (mon_source m) \<le> time (mon_source m1) \<and>
    (\<forall>j<k. \<exists>mj. monitor_run ids A j m = Some (Continue mj) \<and> time (mon_source mj) < deadline) \<and>
    (mon_cell m2 = None \<and> \<not> subscribed (mon_state m2) \<and>
       continuity (mon_state m2) = continuity (mon_state m1) + 1 \<or>
     (\<exists>src. src = snd (acq_now A (snd (acq_now A (mon_source m1)))) \<and> time (mon_source m1) \<le> time src \<and>
       acquisition_phase ids A (mon_state m1) (mon_cell m1) src = Some m2))"
  using assms(3-5)
proof (induction "deadline - time (mon_source m)" arbitrary: m rule: less_induct)
  case less
  obtain flow where it: "monitor_iteration ids A m = Some flow"
    using monitor_iteration_total [OF total less.prems(1)] by blast
  from it less.prems(1,2) show ?case
  proof (cases rule: iteration_refreshes)
    case (asked src m')
    then show ?thesis using it less.prems by (intro exI [of _ 0]) auto
  next
    case (lost m')
    then show ?thesis using it less.prems by (intro exI [of _ 0]) auto
  next
    case (waited m')
    have early: "time (mon_source m) < deadline" using waited(6) less.prems(3) by simp
    have "monitor_ok m'" using monitor_ok_iteration [OF less.prems(1) it] waited(1) by simp
    moreover have "subscribed (mon_state m')" using waited(3) less.prems(2) by auto
    moreover have "next_deadline (mon_state m') 0 \<le> next_deadline (mon_state m) 0"
      using waited(3) deadline_record_event by auto
    then have "origin (mon_source m') + next_deadline (mon_state m') 0 \<le> deadline"
      using waited(5) less.prems(3) by simp
    moreover have "deadline - time (mon_source m') < deadline - time (mon_source m)"
      using waited(4) early by simp
    ultimately obtain k m1 m2 where ih: "monitor_run ids A k m' = Some (Continue m1)"
        "monitor_iteration ids A m1 = Some (Continue m2)" "monitor_ok m1" "mon_cell m1 = mon_cell m'"
        "subscribed (mon_state m1)" "time (mon_source m') \<le> time (mon_source m1)"
        "continuity (mon_state m1) = continuity (mon_state m')"
        "\<forall>j<k. \<exists>mj. monitor_run ids A j m' = Some (Continue mj) \<and> time (mon_source mj) < deadline"
        "mon_cell m2 = None \<and> \<not> subscribed (mon_state m2) \<and>
           continuity (mon_state m2) = continuity (mon_state m1) + 1 \<or>
         (\<exists>src. src = snd (acq_now A (snd (acq_now A (mon_source m1)))) \<and> time (mon_source m1) \<le> time src \<and>
           acquisition_phase ids A (mon_state m1) (mon_cell m1) src = Some m2)"
      using less.hyps [of m'] by blast
    have "continuity (mon_state m') = continuity (mon_state m)"
      using waited(3) by (auto simp: record_event_def Let_def split: option.split)
    moreover have "\<exists>mj. monitor_run ids A j m = Some (Continue mj) \<and> time (mon_source mj) < deadline"
      if "j < Suc k" for j
      using that ih(8) early it waited(1) by (cases j) auto
    ultimately show ?thesis
      using ih it waited by (intro exI [of _ "Suc k"] exI [of _ m1] exI [of _ m2]) auto
  qed
qed

end

section \<open>The source over netlink sockets\<close>

context datagram_io
begin

lemma source_now_time:
  assumes "source_now io src = (t, src')"
  shows "time (ns_world src) \<le> t + ns_origin src \<and> time (ns_world src) \<le> time (ns_world src') \<and>
    ns_origin src' = ns_origin src"
proof -
  obtain c w where clock: "io_clock io (ns_world src) = (c, w)" by (cases "io_clock io (ns_world src)")
  show ?thesis
    using assms clock_law [OF clock] by (auto simp: source_now_def clock saturating_sub_def)
qed

lemma receive_notification_origin:
  assumes "receive_notification nl io src = Some (r, src')"
  shows "ns_origin src' = ns_origin src"
  using assms source_now_frame(2) [of io]
  by (auto simp: receive_notification_def source_now_def Let_def split: option.splits bind_splits
      sum.splits prod.splits if_splits)

lemma source_wait_time:
  assumes wait: "source_wait nl io d src = Some (r, src')"
  shows "r \<noteq> Inr Shutdown \<and> (0 < d \<longrightarrow> time (ns_world src) < time (ns_world src')) \<and>
    ns_origin src' = ns_origin src"
proof (cases "ns_notification src")
  case None
  then show ?thesis using wait sleep_law [of "ns_world src" d] by (auto simp: source_wait_def)
next
  case (Some k)
  obtain x w where x: "io_wait io k None d (ns_world src) = Some (x, w)" "time (ns_world src) < time w"
    using wait_law by blast
  let ?src = "src\<lparr> ns_world := w \<rparr>"
  have closed: "time (ns_world s) \<le> time (ns_world (set_notification io None s))" for s
    using drop_law by (simp add: set_notification_def split: option.split)
  obtain at src1 where rn: "receive_notification nl io ?src = Some (at, src1)"
      "time w \<le> time (ns_world src1)"
    using receive_notification_law [of nl ?src] by auto
  have "ns_origin src1 = ns_origin src" using receive_notification_origin [OF rn(1)] by simp
  then show ?thesis
    using wait x(2) rn(2) closed [of ?src] closed [of src1]
    by (cases x) (auto simp: source_wait_def Some x(1) rn(1) Let_def split: if_splits sum.splits option.splits)
qed

end

sublocale datagram_io \<subseteq> timely: timely_source "netlink_source nl io" "\<lambda>src. time (ns_world src)" ns_origin for nl
  by unfold_locales (use source_now_time source_wait_time in \<open>simp_all add: netlink_source_def\<close>)

context system_calls
begin

lemma timely_promise: "timely_source (netlink_source nl (socket_io sys)) (\<lambda>src. time (ns_world src)) ns_origin"
  by (rule socket.timely.timely_source_axioms)

end

section \<open>The table follows the kernel\<close>

text \<open>
  What an attempt of the monitor \<open>m\<close> over netlink sockets, from the state \<open>src\<close> of the source on,
  leaves in \<open>m'\<close>, by the result of \<open>inventory\<close>: a table withdrawn, a retry, or a table that serves
  the links of one dump that began with this attempt.
\<close>

definition attempted ::
    "'id id_ops \<Rightarrow> ('id \<Rightarrow> u32 list) \<Rightarrow> netlink_ops \<Rightarrow> ('k, 'w) io_ops \<Rightarrow> ('k, 'w) NetlinkSource \<Rightarrow>
     ('id mib, ('k, 'w) NetlinkSource) monitor \<Rightarrow> ('id mib, ('k, 'w) NetlinkSource) monitor \<Rightarrow> bool" where
  "attempted ids subids nl io src m m' \<longleftrightarrow> (\<exists>r src'.
     source_inventory nl io (Attempt (continuity (mon_state m))) src = Some (r, src') \<and>
     (case r of
        Inl (Lost e events) \<Rightarrow> mon_cell m' = None \<and> \<not> subscribed (mon_state m') \<and>
          continuity (mon_state m') = continuity (mon_state m) + 1
      | Inl (Ordinary e events) \<Rightarrow> mon_cell m' = mon_cell m \<and> retried (netlink_source nl io) src' m'
      | Inr iv \<Rightarrow>
          if batch_ok (inv_events iv) \<and> coherent (inv_links iv) then
            \<exists>mib k dump sequence ds v. mon_cell m' = Some mib \<and>
              dump_exchange nl io k dump sequence (ns_world src) ds v \<and>
              whole_dump nl sequence ds (inv_links iv) \<and>
              serves ids subids mib (table_rows (topology_of (inv_links iv)))
          else mon_cell m' = mon_cell m \<and> retried (netlink_source nl io) src' m'))"

lemma acquisition_attempted:
  assumes ids: "agentx_ids ids subids"
    and phase: "acquisition_phase ids (netlink_source nl io) (mon_state m) (mon_cell m) src = Some m'"
      "delays_ok (mon_state m)" "subscribed (mon_state m)"
  shows "attempted ids subids nl io src m m'"
proof -
  obtain r src1 where r: "source_inventory nl io (Attempt (continuity (mon_state m))) src = Some (r, src1)"
    and lost: "is_lost r \<Longrightarrow> mon_cell m' = None \<and> \<not> subscribed (mon_state m') \<and>
      continuity (mon_state m') = continuity (mon_state m) + 1"
    and accepted: "\<And>iv. r = Inr iv \<Longrightarrow> acceptable (mon_state m) iv \<Longrightarrow>
      \<exists>mib. from_topology ids (topology_of (inv_links iv)) = Some mib \<and> mon_cell m' = Some mib"
    and failed: "\<not> is_lost r \<Longrightarrow> (\<And>iv. r = Inr iv \<Longrightarrow> \<not> acceptable (mon_state m) iv) \<Longrightarrow>
      mon_cell m' = mon_cell m \<and> retried (netlink_source nl io) src1 m'"
    using acquisition_phase_attempt [OF phase] by (auto simp: netlink_source_def)
  have acceptable: "acceptable (mon_state m) iv \<longleftrightarrow> batch_ok (inv_events iv) \<and> coherent (inv_links iv)"
    if "r = Inr iv" for iv
    using source_inventory_attempt [OF r [unfolded that]] by (simp add: acceptable_def)
  have table: "\<exists>mib k dump sequence ds v. mon_cell m' = Some mib \<and>
      dump_exchange nl io k dump sequence (ns_world src) ds v \<and> whole_dump nl sequence ds (inv_links iv) \<and>
      serves ids subids mib (table_rows (topology_of (inv_links iv)))"
    if iv: "r = Inr iv" "acceptable (mon_state m) iv" for iv
  proof -
    obtain mib where mib: "from_topology ids (topology_of (inv_links iv)) = Some mib" "mon_cell m' = Some mib"
      using accepted [OF iv] by blast
    then have "serves ids subids mib (table_rows (topology_of (inv_links iv)))"
      using agentx_ids.from_rows_serves [OF ids, of "topology_rows (topology_of (inv_links iv))"]
      by (auto simp: from_topology_def set_topology_rows)
    then show ?thesis using inventory_dumped [OF r [unfolded iv(1)]] mib(2) by blast
  qed
  show ?thesis
    unfolding attempted_def
    using r lost failed acceptable table
    by (intro exI [of _ r] exI [of _ src1] conjI) (auto split: sum.split AcquisitionError.split)
qed

text \<open>
  C5. The table follows the kernel. From any moment at which the monitor is subscribed it asks the
  kernel for another dump after finitely many iterations, whatever notifications arrive: before
  that it only waits, with the table in place, and begins no wait at or after the deadline of its
  state (that of the retry, if one is pending, and otherwise the earlier one of the pending event
  and the periodic reconciliation). The next iteration then requests a dump, unless its
  notifications are lost, which withdraws the table with a new generation. If that attempt
  succeeds, the table is replaced by the one of the links of this dump; if it fails, the table is
  kept and another attempt is due between one second and thirty after the failure was noticed.
\<close>

theorem table_refreshed:
  assumes "agentx_ids ids subids" "system_calls sys time held patience"
    and "monitor_thread ids nl sys config n w = Some (Continue m)" "subscribed (mon_state m)"
  shows "\<exists>i m1 m2. monitor_thread ids nl sys config (n + i) w = Some (Continue m1) \<and>
    monitor_thread ids nl sys config (Suc (n + i)) w = Some (Continue m2) \<and>
    mon_cell m1 = mon_cell m \<and> continuity (mon_state m1) = continuity (mon_state m) \<and>
    (\<forall>j<i. \<exists>mj. monitor_thread ids nl sys config (n + j) w = Some (Continue mj) \<and>
       time (ns_world (mon_source mj)) < ns_origin (mon_source m) + next_deadline (mon_state m) 0) \<and>
    (mon_cell m2 = None \<and> \<not> subscribed (mon_state m2) \<and>
       continuity (mon_state m2) = continuity (mon_state m) + 1 \<or>
     (\<exists>src. src = snd (source_now (socket_io sys) (snd (source_now (socket_io sys) (mon_source m1)))) \<and>
       time (ns_world (mon_source m)) \<le> time (ns_world src) \<and>
       attempted ids subids nl (socket_io sys) src m1 m2))"
proof -
  let ?A = "netlink_source nl (socket_io sys)" and ?time = "\<lambda>src. time (ns_world src)"
  note run = assms(3) [unfolded monitor_thread_def]
  have later: "monitor_thread ids nl sys config (n + j) w = monitor_run ids ?A j m" for j
    unfolding monitor_thread_def by (rule monitor_run_later [OF run])
  have now: "acq_now ?A = source_now (socket_io sys)" by (simp add: netlink_source_def)
  have ok: "monitor_ok m" using monitor_run_ok [OF run monitor_ok_start] by simp
  obtain i m1 m2 where r: "monitor_run ids ?A i m = Some (Continue m1)"
      "monitor_iteration ids ?A m1 = Some (Continue m2)" "monitor_ok m1" "mon_cell m1 = mon_cell m"
      "subscribed (mon_state m1)" "continuity (mon_state m1) = continuity (mon_state m)"
      "?time (mon_source m) \<le> ?time (mon_source m1)"
      "\<forall>j<i. \<exists>mj. monitor_run ids ?A j m = Some (Continue mj) \<and>
         ?time (mon_source mj) < ns_origin (mon_source m) + next_deadline (mon_state m) 0"
      "mon_cell m2 = None \<and> \<not> subscribed (mon_state m2) \<and>
         continuity (mon_state m2) = continuity (mon_state m1) + 1 \<or>
       (\<exists>src. src = snd (acq_now ?A (snd (acq_now ?A (mon_source m1)))) \<and> ?time (mon_source m1) \<le> ?time src \<and>
         acquisition_phase ids ?A (mon_state m1) (mon_cell m1) src = Some m2)"
    using timely_source.refresh [OF system_calls.timely_promise [OF assms(2), of nl] assms(1)
        system_calls.total_promise [OF assms(2), of nl] ok assms(4) order_refl]
    by (elim exE conjE) (rule that, assumption+)
  have runs: "monitor_thread ids nl sys config (n + i) w = Some (Continue m1)"
      "monitor_thread ids nl sys config (Suc (n + i)) w = Some (Continue m2)"
    using later [of i] later [of "Suc i"] r(1) monitor_run_Suc [OF r(1,2)] by simp_all
  have "delays_ok (mon_state m1)" using r(3) by (auto simp: monitor_ok_def)
  then have "attempted ids subids nl (socket_io sys) src m1 m2"
    if "acquisition_phase ids ?A (mon_state m1) (mon_cell m1) src = Some m2" for src
    by (intro acquisition_attempted [OF assms(1) that _ r(5)])
  with r(9) have outcome: "mon_cell m2 = None \<and> \<not> subscribed (mon_state m2) \<and>
       continuity (mon_state m2) = continuity (mon_state m) + 1 \<or>
     (\<exists>src. src = snd (source_now (socket_io sys) (snd (source_now (socket_io sys) (mon_source m1)))) \<and>
       ?time (mon_source m) \<le> ?time src \<and> attempted ids subids nl (socket_io sys) src m1 m2)"
    unfolding now r(6) using order_trans [OF r(7)] by blast
  show ?thesis using runs r(4,6,8) outcome unfolding later by blast
qed

section \<open>A kernel with one interface\<close>

text \<open>
  For the witnesses: a kernel that answers the first dump with one interface. After its first
  iteration the monitor is subscribed and serves the table of that interface.
\<close>

definition demo_live_kernel :: kernel where
  "demo_live_kernel = \<lparr> kn_time = 0, kn_held = {#}, kn_next = 3, kn_inbox = [dg_bytes demo_datagram] \<rparr>"

lemma kernel_calls:
  "io_open (socket_io kernel_sys) g w = (Inr (kn_next w),
     w\<lparr> kn_next := kn_next w + 1, kn_held := add_mset (kn_next w) (kn_held w) \<rparr>)"
  "io_send (socket_io kernel_sys) k bytes w = Some (Inr (), w)"
  "io_clock (socket_io kernel_sys) w = (kn_time w, w)"
  "io_drop (socket_io kernel_sys) k w = w\<lparr> kn_held := kn_held w - {#k#} \<rparr>"
  by (simp_all add: socket_io_def kernel_sys_def socket_open_def socket_send_def send_round_def loop_leaves)

lemma kernel_dump_ready:
  "kn_inbox w \<noteq> [] \<Longrightarrow> io_wait (socket_io kernel_sys) k (Some dump) timeout w =
     Some (Inr \<lparr> rd_notification = False, rd_dump = True, rd_notification_failed = False,
       rd_dump_failed = False \<rparr>, w\<lparr> kn_time := Suc (kn_time w + poll_millis timeout) \<rparr>)"
  by (simp add: socket_io_def kernel_sys_def socket_wait_def poll_round_def loop_leaves saturating_sub_def
      ready_of_def revents_at_def POLLIN_def POLLERR_def POLLHUP_def POLLNVAL_def)

lemma kernel_delivers:
  "io_receive (socket_io kernel_sys) k (w\<lparr> kn_inbox := [dg_bytes demo_datagram] \<rparr>) =
     Some (Inr demo_datagram, w\<lparr> kn_inbox := [] \<rparr>)"
proof -
  have "socket_receive kernel_sys k (w\<lparr> kn_inbox := [dg_bytes demo_datagram] \<rparr>) =
      Some (Inr \<lparr> dg_bytes = dg_bytes demo_datagram, dg_from_kernel = True, dg_truncated = False \<rparr>,
        w\<lparr> kn_inbox := [] \<rparr>)"
    using socket_receive_whole [of kernel_sys k "w\<lparr> kn_inbox := [dg_bytes demo_datagram] \<rparr>"
        "length (dg_bytes demo_datagram)" 0 "dg_bytes demo_datagram" "w\<lparr> kn_inbox := [] \<rparr>"]
    by (simp add: kernel_sys_def demo_datagram_def demo_frame_def MAX_DATAGRAM_def)
  then show ?thesis by (simp add: socket_io_def demo_datagram_def)
qed

lemma demo_live_publishes:
  obtains m mib where
    "monitor_thread rfc_ids demo_codec kernel_sys default_config 1 demo_live_kernel = Some (Continue m)"
    "subscribed (mon_state m)" "mon_cell m = Some mib"
    "serves rfc_ids rfc_subids mib (table_rows (topology_of [plain 7 ''eth0'']))"
proof -
  let ?A = "netlink_source demo_codec (socket_io kernel_sys)"
  let ?src = "with_io (socket_io kernel_sys) demo_live_kernel"
  let ?m = "monitor_start (from_secs (unat (cfg_reconcile default_config))) publication ?src :: (rfc_id mib, _) monitor"
  let ?w = "demo_live_kernel\<lparr> kn_next := 4, kn_held := {#3#} \<rparr>"
  let ?src1 = "?src\<lparr> ns_notification := Some 3, ns_world := ?w \<rparr>"
  let ?iv = "\<lparr> inv_attempt = Attempt 0, inv_links = [plain 7 ''eth0''], inv_events = no_events \<rparr>"
  have n: "fst (next_sequence ?src1) = 1" by (simp add: next_sequence_def with_io_def kernel_calls)
  let ?opened = "?w\<lparr> kn_next := 5, kn_held := {#4, 3#} \<rparr>"
  let ?waited = "\<lambda>d. ?opened\<lparr> kn_time := Suc (poll_millis d) \<rparr>"
  have inbox: "?waited d = (?waited d)\<lparr> kn_inbox := [dg_bytes demo_datagram] \<rparr>" for d
    by (simp add: demo_live_kernel_def)
  obtain src2 where inv:
    "source_inventory demo_codec (socket_io kernel_sys) (Attempt 0) ?src1 = Some (Inr ?iv, src2)"
  proof
    show "source_inventory demo_codec (socket_io kernel_sys) (Attempt 0) ?src1 = Some (Inr ?iv,
        (snd (next_sequence ?src1))\<lparr> ns_world := io_drop (socket_io kernel_sys) 4
          ((?waited INVENTORY_TIMEOUT)\<lparr> kn_inbox := [] \<rparr>) \<rparr>)"
    proof (rule inventory_answered [where ?w1.0 = ?opened and ?w2.0 = ?opened])
      show "io_receive (socket_io kernel_sys) 4 (?waited INVENTORY_TIMEOUT) =
          Some (Inr demo_datagram, (?waited INVENTORY_TIMEOUT)\<lparr> kn_inbox := [] \<rparr>)"
        by (subst inbox) (rule kernel_delivers)
      show "dump_datagram demo_codec (fst (next_sequence ?src1)) demo_datagram [plain 7 ''eth0''] True"
        unfolding n by (rule demo_dump_datagram)
      show "io_open (socket_io kernel_sys) 0 (ns_world ?src1) = (Inr 4, ?opened)"
        by (simp add: kernel_calls)
      show "io_wait (socket_io kernel_sys) 3 (Some 4) (0 + INVENTORY_TIMEOUT - 0) ?opened = Some (Inr
          \<lparr> rd_notification = False, rd_dump = True, rd_notification_failed = False, rd_dump_failed = False \<rparr>,
          ?waited INVENTORY_TIMEOUT)"
        by (subst kernel_dump_ready) (simp_all add: demo_live_kernel_def)
    qed (simp_all add: kernel_calls demo_live_kernel_def demo_datagram_def demo_frame_def
      MAX_INVENTORY_BYTES_def INVENTORY_TIMEOUT_def duration_defs)
  qed
  have calls: "retry_ready (mon_state ?m) 0" "acq_now ?A (mon_source ?m) = (0, ?src)"
      "acq_now ?A ?src1 = (0, ?src1)"
      "if subscribed (mon_state ?m) then ?src1 = ?src \<and> acquisition_ready (mon_state ?m) 0
       else acq_subscribe ?A ?src = Some (Inr (), ?src1)"
      "acq_inventory ?A (Attempt (continuity (mon_state ?m))) ?src1 = Some (Inr ?iv, src2)"
    using inv by (simp_all add: netlink_source_def monitor_start_def new_state_def retry_ready_def source_now_def
        with_io_def kernel_calls saturating_sub_def source_subscribe_def set_notification_def demo_live_kernel_def)
  have "from_observed [plain 7 ''eth0''] = Inr \<lparr> interfaces = [7], relationships = [] \<rparr>" by code_simp
  then have "acceptable (mon_state ?m) ?iv"
    by (simp add: acceptable_def monitor_start_def new_state_def batch_ok_def no_events_def from_observed_iff)
  with calls inv show thesis
    by (elim monitor_iteration_publishes [OF rfc.agentx_ids_axioms monitor_ok_start calls(1-3) order_refl calls(4,5)])
      (rule that, simp_all add: monitor_thread_def)
qed

lemma table_refreshed_witness:
  "\<exists>m i m1 m2 src. monitor_thread rfc_ids demo_codec kernel_sys default_config 1 demo_live_kernel = Some (Continue m) \<and>
     mon_cell m \<noteq> None \<and>
     monitor_thread rfc_ids demo_codec kernel_sys default_config (Suc (1 + i)) demo_live_kernel = Some (Continue m2) \<and>
     (mon_cell m2 = None \<and> continuity (mon_state m2) = continuity (mon_state m) + 1 \<or>
      attempted rfc_ids rfc_subids demo_codec (socket_io kernel_sys) src m1 m2)"
proof -
  obtain m mib where
    m: "monitor_thread rfc_ids demo_codec kernel_sys default_config 1 demo_live_kernel = Some (Continue m)"
      "subscribed (mon_state m)" "mon_cell m = Some mib"
    by (rule demo_live_publishes)
  then have "mon_cell m \<noteq> None" by simp
  with table_refreshed [OF rfc.agentx_ids_axioms kernel.system_calls_axioms m(1,2)] m(1)
  show ?thesis by blast
qed

end
