(* ===== verification/Transcript.thy ===== *)
theory Transcript
  imports Threads
begin

text \<open>
  What the process does to the outside, in order: connecting, the PDUs it writes, the bytes it
  reads, the datagram that reports readiness to the service manager, and sleeping. \<open>observed\<close> is
  the contract of an observer: what succeeds is seen, and nothing else. \<open>registration\<close>, \<open>serving\<close>
  and \<open>process_log\<close> specify the transcripts of a handshake, of an open session and of the process.
\<close>

datatype event =
    Connected string | Wrote "u8 list" | Got u8 | Announced "u8 list" SocketAddr | Slept duration

locale observed =
  fixes st :: "'w stream_ops" and nf :: "('d, 'w) notify_ops" and events :: "'w \<Rightarrow> event list"
    and env :: "string \<Rightarrow> u8 list option"
  assumes connect_seen: "st_connect st path w = (u, w') \<Longrightarrow>
      events w' = events w @ (case u of Inr _ \<Rightarrow> [Connected path] | Inl _ \<Rightarrow> [])"
    and set_read_seen: "st_set_read_timeout st d w = (u, w') \<Longrightarrow> events w' = events w"
    and set_write_seen: "st_set_write_timeout st d w = (u, w') \<Longrightarrow> events w' = events w"
    and timeout_seen: "st_read_timeout st w = (d', w') \<Longrightarrow> events w' = events w"
    and clock_seen: "st_clock st w = (t, w') \<Longrightarrow> events w' = events w"
    and read_seen: "st_read st n w = (b, w') \<Longrightarrow>
      events w' = events w @ (case b of Inr bytes \<Rightarrow> map Got bytes | Inl _ \<Rightarrow> [])"
    and write_seen: "st_write_all st bytes w = (u, w') \<Longrightarrow>
      events w' = events w @ (case u of Inr _ \<Rightarrow> [Wrote bytes] | Inl _ \<Rightarrow> [])"
    and unbound_seen: "nf_unbound nf w = (o', w') \<Longrightarrow> events w' = events w"
    and send_seen: "nf_send_to_addr nf datagram text addr w = (n', w') \<Longrightarrow>
      events w' = events w @ (case n' of Inr _ \<Rightarrow> [Announced text addr] | Inl _ \<Rightarrow> [])"
    and env_law: "nf_var_os nf name w = env name"

text \<open>
  A call does events from \<open>es\<close> on: \<open>F\<close> says which, where it fails, and \<open>S\<close> which, where it succeeds
  with a result.
\<close>

definition does ::
    "('w \<Rightarrow> event list) \<Rightarrow> event list \<Rightarrow> (event list \<Rightarrow> bool) \<Rightarrow> ('a \<Rightarrow> event list \<Rightarrow> bool) \<Rightarrow>
     ('a io_result \<times> 'w) option \<Rightarrow> bool" where
  "does events es F S c \<longleftrightarrow> (\<forall>r w. c = Some (r, w) \<longrightarrow>
     (\<exists>fs. events w = es @ fs \<and> (case r of Inl _ \<Rightarrow> F fs | Inr x \<Rightarrow> S x fs)))"

lemma does_error: "events w = es @ fs \<Longrightarrow> F fs \<Longrightarrow> does events es F S (Some (Inl e, w))"
  by (simp add: does_def)

lemma does_ok: "events w = es @ fs \<Longrightarrow> S x fs \<Longrightarrow> does events es F S (Some (Inr x, w))"
  by (simp add: does_def)

lemma does_mono:
  assumes "does events es F S c" "\<And>fs. F fs \<Longrightarrow> F' fs" "\<And>x fs. S x fs \<Longrightarrow> S' x fs"
  shows "does events es F' S' c"
  unfolding does_def
proof (intro allI impI)
  fix r w assume "c = Some (r, w)"
  then obtain fs where "events w = es @ fs" "case r of Inl _ \<Rightarrow> F fs | Inr x \<Rightarrow> S x fs"
    using assms(1) unfolding does_def by blast
  then show "\<exists>fs. events w = es @ fs \<and> (case r of Inl _ \<Rightarrow> F' fs | Inr x \<Rightarrow> S' x fs)"
    using assms(2,3) by (intro exI [of _ fs]) (cases r, auto)
qed

lemma does_then:
  assumes "does events es F1 S1 m" "\<And>fs. F1 fs \<Longrightarrow> F fs"
    and "\<And>x v fs. m = Some (Inr x, v) \<Longrightarrow> S1 x fs \<Longrightarrow> events v = es @ fs \<Longrightarrow> does events es F S (f x v)"
  shows "does events es F S (try_call m f)"
proof (cases m)
  case (Some y)
  obtain r v where y: "y = (r, v)" by (cases y)
  obtain fs where fs: "events v = es @ fs" "case r of Inl _ \<Rightarrow> F1 fs | Inr x \<Rightarrow> S1 x fs"
    using assms(1) by (auto simp: does_def Some y)
  then show ?thesis
    using assms(2) assms(3) [of _ v fs] by (cases r) (auto simp: Some y intro: does_error)
qed (simp add: does_def)

lemma does_quiet:
  assumes "\<And>u v. call = (u, v) \<Longrightarrow> events v = es @ fs" "F fs"
    and "\<And>x v. call = (Inr x, v) \<Longrightarrow> events v = es @ fs \<Longrightarrow> does events es F S (f x v)"
  shows "does events es F S (try_call (Some call) f)"
proof (rule does_then [where ?F1.0 = "\<lambda>gs. gs = fs" and ?S1.0 = "\<lambda>_ gs. gs = fs"])
  show "does events es (\<lambda>gs. gs = fs) (\<lambda>_ gs. gs = fs) (Some call)"
    using assms(1) by (cases call) (auto simp: does_def split: sum.split)
qed (use assms(2,3) in auto)

section \<open>What the two sides say\<close>

text \<open>The two administrative requests, with the headers the acknowledgements are checked against.\<close>

definition open_sent :: "'id pdu_ops \<Rightarrow> u8 list \<Rightarrow> Header \<Rightarrow> bool" where
  "open_sent px bytes request \<longleftrightarrow> (\<exists>pdu sent. px_open_bytes px pdu = Inr (bytes, sent) \<and> request = op_header sent \<and>
     pdu = (let new = px_open_new px (px_default_id px) ''agentx-ifstack''
       in new\<lparr> op_timeout := from_secs 5, op_header := (op_header new)\<lparr> hdr_flags := 16, hdr_packet_id := 1 \<rparr> \<rparr>))"

definition register_sent ::
    "'id id_ops \<Rightarrow> 'id pdu_ops \<Rightarrow> Config \<Rightarrow> Header \<Rightarrow> u8 list \<Rightarrow> Header \<Rightarrow> bool" where
  "register_sent ids px config opened bytes request \<longleftrightarrow> (\<exists>subtree pdu sent.
     id_try_from ids [1, 3, 6, 1, 2, 1, 31, 1, 2] = Inr subtree \<and>
     px_register_bytes px pdu = Inr (bytes, sent) \<and> request = rg_header sent \<and>
     pdu = (let new = px_register_new px subtree
       in new\<lparr> rg_priority := cfg_priority config, rg_header := (rg_header new)
         \<lparr> hdr_session_id := hdr_session_id opened, hdr_flags := hdr_flags opened AND 16, hdr_packet_id := 2 \<rparr> \<rparr>))"

text \<open>A whole frame, by its header.\<close>

definition framed_as :: "'id pdu_ops \<Rightarrow> u8 list \<Rightarrow> Header \<Rightarrow> bool" where
  "framed_as px packet header \<longleftrightarrow> px_header px (take 20 packet) = Inr header \<and> hdr_version header = 1 \<and>
     length packet = 20 + unat (hdr_payload_length header)"

text \<open>A frame that acknowledges a request: a response to it, without an error.\<close>

definition acknowledged :: "'id pdu_ops \<Rightarrow> Header \<Rightarrow> u8 list \<Rightarrow> Header \<Rightarrow> bool" where
  "acknowledged px request packet header \<longleftrightarrow> framed_as px packet header \<and>
     hdr_ty header = TyResponse \<and> 8 \<le> unat (hdr_payload_length header) \<and>
     hdr_packet_id header = hdr_packet_id request \<and> hdr_transaction_id header = hdr_transaction_id request \<and>
     (hdr_ty request = TyOpen \<or> hdr_session_id header = hdr_session_id request) \<and>
     px_res_error px [packet ! 24, packet ! 25]
       (if hdr_flags header AND 16 \<noteq> 0 then BigEndian else LittleEndian) = Inr NoAgentXError \<and>
     packet ! 26 = 0 \<and> packet ! 27 = 0"

text \<open>
  The bytes of a response to a request: the encoding of a response with its identifiers and its
  byte order, up to the two bytes of the error field.
\<close>

definition response_to :: "'id pdu_ops \<Rightarrow> Header \<Rightarrow> u8 list \<Rightarrow> bool" where
  "response_to px header bytes \<longleftrightarrow> (\<exists>response plain sent. px_response_bytes px response = Inr (plain, sent) \<and>
     hdr_ty (rs_header response) = TyResponse \<and> hdr_session_id (rs_header response) = hdr_session_id header \<and>
     hdr_transaction_id (rs_header response) = hdr_transaction_id header \<and>
     hdr_packet_id (rs_header response) = hdr_packet_id header \<and>
     hdr_flags (rs_header response) = hdr_flags header AND 16 \<and>
     length bytes = length plain \<and> take 24 bytes = take 24 plain \<and> drop 26 bytes = drop 26 plain)"

section \<open>Transcripts\<close>

text \<open>
  The handshake. \<open>open_log\<close> and \<open>register_log\<close> are the transcripts of its two halves, each a request
  and then the frame that acknowledges it; \<open>open_failed\<close> and \<open>register_failed\<close> are those of the halves
  that fail, which may have got bytes that acknowledge nothing.
\<close>

definition open_log :: "'id pdu_ops \<Rightarrow> Config \<Rightarrow> Header \<Rightarrow> event list \<Rightarrow> bool" where
  "open_log px config opened es \<longleftrightarrow> (\<exists>bytes request packet.
     es = Connected (cfg_socket config) # Wrote bytes # map Got packet \<and>
     open_sent px bytes request \<and> acknowledged px request packet opened)"

definition open_failed :: "'id pdu_ops \<Rightarrow> Config \<Rightarrow> event list \<Rightarrow> bool" where
  "open_failed px config es \<longleftrightarrow> es = [] \<or> es = [Connected (cfg_socket config)] \<or>
     (\<exists>bytes request got. es = Connected (cfg_socket config) # Wrote bytes # map Got got \<and> open_sent px bytes request)"

definition register_log :: "'id id_ops \<Rightarrow> 'id pdu_ops \<Rightarrow> Config \<Rightarrow> Header \<Rightarrow> event list \<Rightarrow> bool" where
  "register_log ids px config opened es \<longleftrightarrow> (\<exists>bytes request packet header. es = Wrote bytes # map Got packet \<and>
     register_sent ids px config opened bytes request \<and> acknowledged px request packet header)"

definition register_failed :: "'id id_ops \<Rightarrow> 'id pdu_ops \<Rightarrow> Config \<Rightarrow> Header \<Rightarrow> event list \<Rightarrow> bool" where
  "register_failed ids px config opened es \<longleftrightarrow> es = [] \<or> (\<exists>bytes request got. es = Wrote bytes # map Got got \<and>
     register_sent ids px config opened bytes request)"

definition registration :: "'id id_ops \<Rightarrow> 'id pdu_ops \<Rightarrow> Config \<Rightarrow> Header \<Rightarrow> event list \<Rightarrow> bool" where
  "registration ids px config opened es \<longleftrightarrow> (\<exists>as bs. es = as @ bs \<and>
     open_log px config opened as \<and> register_log ids px config opened bs)"

definition unregistered :: "'id id_ops \<Rightarrow> 'id pdu_ops \<Rightarrow> Config \<Rightarrow> event list \<Rightarrow> bool" where
  "unregistered ids px config es \<longleftrightarrow> open_failed px config es \<or> (\<exists>opened as bs. es = as @ bs \<and>
     open_log px config opened as \<and> register_failed ids px config opened bs)"

text \<open>
  The open session: every frame is followed by one response to it before the next is read, but
  for a \<open>CleanupSet\<close> of this session, which has none.
\<close>

inductive serving :: "'id pdu_ops \<Rightarrow> u32 \<Rightarrow> event list \<Rightarrow> bool" for px session_id where
  idle: "serving px session_id []"
| answered: "serving px session_id es \<Longrightarrow> framed_as px packet header \<Longrightarrow> response_to px header bytes \<Longrightarrow>
    serving px session_id (es @ map Got packet @ [Wrote bytes])"
| silent: "serving px session_id es \<Longrightarrow> framed_as px packet header \<Longrightarrow> hdr_session_id header = session_id \<Longrightarrow>
    hdr_ty header = TyCleanupSet \<Longrightarrow> serving px session_id (es @ map Got packet)"

text \<open>The report of readiness, where the service manager asked for it and can be reached.\<close>

definition announcement :: "('d, 'w) notify_ops \<Rightarrow> 'w \<Rightarrow> event list" where
  "announcement nf w =
     (case nf_var_os nf SOCKET w of
        None \<Rightarrow> []
      | Some socket \<Rightarrow>
          (case (nf_unbound nf w, address socket) of
             ((Inr datagram, w), Inr addr) \<Rightarrow>
               (case nf_send_to_addr nf datagram READY addr w of
                  (Inr _, _) \<Rightarrow> [Announced READY addr]
                | (Inl _, _) \<Rightarrow> [])
           | _ \<Rightarrow> []))"

section \<open>Calls\<close>

abbreviation gets :: "event list \<Rightarrow> event list \<Rightarrow> bool" where
  "gets fs gs \<equiv> \<exists>got. gs = fs @ map Got got"

lemma NETWORK_ORDER_16: "NETWORK_ORDER = 16"
  by (simp add: NETWORK_ORDER_def NETWORK_BYTE_ORDER_def)

lemma gets_simps:
  "gets fs fs" "gets fs (fs @ map Got as)" "gets fs (fs @ map Got as @ map Got bs)"
  "gets fs (fs @ map Got as @ map Got bs @ map Got cs)" "\<exists>got. map Got as @ map Got bs = map Got got"
  "\<exists>got. map Got as @ map Got bs @ map Got cs = map Got got"
  by (auto simp flip: map_append)

context observed
begin

lemma ready_announces: "events (ready nf w) = events w @ announcement nf w"
proof (cases "nf_var_os nf SOCKET w")
  case None
  then show ?thesis by (simp add: ready_def announcement_def)
next
  case (Some socket)
  note defs = ready_def announcement_def notify_send_def Some
  obtain o' w1 where o: "nf_unbound nf w = (o', w1)" by (cases "nf_unbound nf w")
  show ?thesis
  proof (cases o')
    case (Inl e)
    then show ?thesis using unbound_seen [OF o] by (simp add: defs o)
  next
    case (Inr datagram)
    show ?thesis
    proof (cases "address socket")
      case (Inl e)
      then show ?thesis using unbound_seen [OF o] Inr by (simp add: defs o)
    next
      case addr: (Inr addr)
      obtain n' w2 where s: "nf_send_to_addr nf datagram READY addr w1 = (n', w2)"
        by (cases "nf_send_to_addr nf datagram READY addr w1")
      show ?thesis
        using unbound_seen [OF o] send_seen [OF s] Inr addr by (cases n') (simp_all add: defs o s)
    qed
  qed
qed

lemma read_exact_does:
  assumes "events w = es @ fs"
  shows "does events es (gets fs) (\<lambda>bytes gs. gs = fs @ map Got bytes) (read_exact st n w)"
  unfolding does_def
proof (intro allI impI)
  fix r w' assume run: "read_exact st n w = Some (r, w')"
  have "\<exists>gs. events (snd (r, w')) = es @ gs \<and>
      (case fst (r, w') of Inl _ \<Rightarrow> gets fs gs | Inr bytes \<Rightarrow> gs = fs @ map Got bytes)"
    using run unfolding read_exact_def
  proof (rule loop_invariant [where P = "\<lambda>(got, v). events v = es @ fs @ map Got got"])
    fix s s' assume P: "case s of (got, v) \<Rightarrow> events v = es @ fs @ map Got got"
      and step: "read_exact_round st n s = Some (Again s')"
    obtain got v where s: "s = (got, v)" by (cases s)
    obtain b v' where b: "st_read st (n - length got) v = (b, v')" by (cases "st_read st (n - length got) v")
    show "case s' of (got, v) \<Rightarrow> events v = es @ fs @ map Got got"
      using P step read_seen [OF b] by (auto simp: read_exact_round_def s b split: if_splits sum.splits)
  next
    fix s x assume P: "case s of (got, v) \<Rightarrow> events v = es @ fs @ map Got got"
      and step: "read_exact_round st n s = Some (Leave x)"
    obtain got v where s: "s = (got, v)" by (cases s)
    obtain b v' where b: "st_read st (n - length got) v = (b, v')" by (cases "st_read st (n - length got) v")
    show "\<exists>gs. events (snd x) = es @ gs \<and>
        (case fst x of Inl _ \<Rightarrow> gets fs gs | Inr bytes \<Rightarrow> gs = fs @ map Got bytes)"
      using P step read_seen [OF b] by (auto simp: read_exact_round_def s b split: if_splits sum.splits)
  qed (simp add: assms)
  then show "\<exists>gs. events w' = es @ gs \<and> (case r of Inl _ \<Rightarrow> gets fs gs | Inr bytes \<Rightarrow> gs = fs @ map Got bytes)"
    by simp
qed

lemma read_before_round_does:
  assumes "read_before_round st n deadline (got, v) = Some c" "events v = es @ fs @ map Got got"
  shows "case c of Again (got', v') \<Rightarrow> events v' = es @ fs @ map Got got'
    | Leave (r, v') \<Rightarrow> \<exists>gs. events v' = es @ gs \<and>
        (case r of Inl _ \<Rightarrow> gets fs gs | Inr bytes \<Rightarrow> gs = fs @ map Got bytes)"
proof -
  obtain t v1 where clock: "st_clock st v = (t, v1)" by (cases "st_clock st v")
  let ?d = "Some (saturating_sub deadline t)"
  obtain u v2 where set: "st_set_read_timeout st ?d v1 = (u, v2)" by (cases "st_set_read_timeout st ?d v1")
  obtain b v3 where b: "st_read st (n - length got) v2 = (b, v3)" by (cases "st_read st (n - length got) v2")
  show ?thesis
    using assms clock_seen [OF clock] set_read_seen [OF set] read_seen [OF b]
    by (auto simp: read_before_round_def Let_def clock set b split: if_splits sum.splits)
qed

lemma read_before_does:
  assumes "events w = es @ fs"
  shows "does events es (gets fs) (\<lambda>bytes gs. gs = fs @ map Got bytes) (read_before st n deadline w)"
  unfolding does_def
proof (intro allI impI)
  fix r w' assume run: "read_before st n deadline w = Some (r, w')"
  have "case (r, w') of (r, w') \<Rightarrow> \<exists>gs. events w' = es @ gs \<and>
      (case r of Inl _ \<Rightarrow> gets fs gs | Inr bytes \<Rightarrow> gs = fs @ map Got bytes)"
    using run unfolding read_before_def
    by (rule loop_invariant [where P = "\<lambda>(got, v). events v = es @ fs @ map Got got"])
      (use assms in \<open>auto dest!: read_before_round_does [where es = es and fs = fs]\<close>)
  then show "\<exists>gs. events w' = es @ gs \<and> (case r of Inl _ \<Rightarrow> gets fs gs | Inr bytes \<Rightarrow> gs = fs @ map Got bytes)"
    by simp
qed

text \<open>The rules for the calls, each with the events that were done before it.\<close>

lemma does_read_exact:
  assumes "events w = es @ fs" "\<And>got. F (fs @ map Got got)"
    and "\<And>bytes v. events v = es @ fs @ map Got bytes \<Longrightarrow> does events es F S (f bytes v)"
  shows "does events es F S (try_call (read_exact st n w) f)"
  by (rule does_then [OF read_exact_does [OF assms(1)]]) (use assms(2,3) in auto)

lemma does_read_before:
  assumes "events w = es @ fs" "\<And>got. F (fs @ map Got got)"
    and "\<And>bytes v. events v = es @ fs @ map Got bytes \<Longrightarrow> does events es F S (f bytes v)"
  shows "does events es F S (try_call (read_before st n deadline w) f)"
  by (rule does_then [OF read_before_does [OF assms(1)]]) (use assms(2,3) in auto)

lemma does_idle:
  assumes "events w = es @ fs" "F fs" "\<And>x v. events v = es @ fs \<Longrightarrow> does events es F S (f x v)"
  shows "does events es F S (try_call (Some (st_read_timeout st w)) f)"
  by (rule does_quiet [where fs = fs]) (use assms timeout_seen in metis)+

lemma does_set_read:
  assumes "events w = es @ fs" "F fs" "\<And>x v. events v = es @ fs \<Longrightarrow> does events es F S (f x v)"
  shows "does events es F S (try_call (Some (st_set_read_timeout st d w)) f)"
  by (rule does_quiet [where fs = fs]) (use assms set_read_seen in metis)+

lemma does_set_write:
  assumes "events w = es @ fs" "F fs" "\<And>x v. events v = es @ fs \<Longrightarrow> does events es F S (f x v)"
  shows "does events es F S (try_call (Some (st_set_write_timeout st d w)) f)"
  by (rule does_quiet [where fs = fs]) (use assms set_write_seen in metis)+

lemma does_clock:
  assumes "events w = es @ fs" "\<And>t v. events v = es @ fs \<Longrightarrow> does events es F S (f t v)"
  shows "does events es F S (case st_clock st w of (t, v) \<Rightarrow> f t v)"
  using assms clock_seen [of w] by (cases "st_clock st w") simp

lemma does_write:
  assumes "events w = es @ fs" "F fs" "\<And>v. events v = es @ fs @ [Wrote bytes] \<Longrightarrow> does events es F S (f () v)"
  shows "does events es F S (try_call (Some (st_write_all st bytes w)) f)"
proof (rule does_then [where ?F1.0 = "\<lambda>gs. gs = fs" and ?S1.0 = "\<lambda>_ gs. gs = fs @ [Wrote bytes]"])
  show "does events es (\<lambda>gs. gs = fs) (\<lambda>_ gs. gs = fs @ [Wrote bytes]) (Some (st_write_all st bytes w))"
    using assms(1) write_seen [of bytes w] by (cases "st_write_all st bytes w") (auto simp: does_def split: sum.splits)
qed (use assms(2,3) in auto)

lemma does_connect:
  assumes "events w = es @ fs" "F fs" "\<And>v. events v = es @ fs @ [Connected path] \<Longrightarrow> does events es F S (f () v)"
  shows "does events es F S (try_call (Some (st_connect st path w)) f)"
proof (rule does_then [where ?F1.0 = "\<lambda>gs. gs = fs" and ?S1.0 = "\<lambda>_ gs. gs = fs @ [Connected path]"])
  show "does events es (\<lambda>gs. gs = fs) (\<lambda>_ gs. gs = fs @ [Connected path]) (Some (st_connect st path w))"
    using assms(1) connect_seen [of path w] by (cases "st_connect st path w") (auto simp: does_def split: sum.splits)
qed (use assms(2,3) in auto)

lemma receive_does:
  assumes "events w = es @ fs"
  shows "does events es (gets fs) (\<lambda>(header, packet) gs. gs = fs @ map Got packet) (receive px st budget w)"
    (is "does _ _ _ ?S _")
  unfolding receive_def Let_def
proof (rule does_read_exact [OF assms], rule gets_simps, erule does_idle, rule gets_simps, erule does_clock,
    erule does_read_before)
  fix lead rest :: "u8 list" and idle and t :: duration and v
  assume v: "events v = es @ (fs @ map Got lead) @ map Got rest"
  show "does events es (gets fs) ?S (case px_header px (lead @ rest) of
       Inl e \<Rightarrow> Some (Inl e, v)
     | Inr header \<Rightarrow>
         if hdr_version header \<noteq> 1 \<or> MAX_PAYLOAD < hdr_payload_length header \<or>
            hdr_payload_length header mod 4 \<noteq> 0
         then Some (Inl (session_invalid ''invalid AgentX version or payload length''), v)
         else
           try_call (read_before st (unat (hdr_payload_length header)) (t + budget) v) (\<lambda>payload w.
           try_call (Some (st_set_read_timeout st idle w)) (\<lambda>_ w.
           Some (Inr (header, lead @ rest @ payload), w))))" (is "does _ _ ?F _ _")
  proof -
    have "does events es ?F ?S (Some (Inl e, v))" for e
      using v by (rule does_error) (simp add: gets_simps)
    moreover have "does events es ?F ?S (try_call (read_before st n deadline v) (\<lambda>payload w.
        try_call (Some (st_set_read_timeout st idle w)) (\<lambda>_ w. Some (Inr (header, lead @ rest @ payload), w))))"
      for n deadline header
      using v by (rule does_read_before, simp add: gets_simps, elim does_set_read)
        (auto simp: gets_simps intro!: does_ok)
    ultimately show ?thesis by (auto split: sum.split)
  qed
qed (simp_all add: gets_simps)

section \<open>The handshake\<close>

lemma check_acknowledgement_header:
  "check_acknowledgement px request header bytes = Some r \<Longrightarrow> r = Inr h \<Longrightarrow> h = header"
  by (auto simp: check_acknowledgement_def Let_def split: if_splits bind_splits sum.splits)

lemma acknowledge_does:
  assumes "events w = es @ fs"
  shows "does events es (gets fs) (\<lambda>header gs. \<exists>packet. gs = fs @ map Got packet \<and>
    acknowledged px request packet header) (acknowledge px st request w)" (is "does _ _ ?F ?S _")
  unfolding acknowledge_def
proof (rule does_then [OF receive_does [OF assms]])
  fix x v gs
  assume rx: "receive px st IO_TIMEOUT w = Some (Inr x, v)"
    and gs: "(\<lambda>(header, packet) gs. gs = fs @ map Got packet) x gs" and v: "events v = es @ gs"
  obtain header packet where x: "x = (header, packet)" by (cases x)
  have "does events es ?F ?S (do { r \<leftarrow> check_acknowledgement px request header packet; Some (r, v) })"
  proof (cases "check_acknowledgement px request header packet")
    case None
    then show ?thesis by (simp add: does_def)
  next
    case (Some r)
    show ?thesis
    proof (cases r)
      case (Inl e)
      then show ?thesis using Some v gs x by (auto intro!: does_error)
    next
      case (Inr h)
      have "h = header" using Some Inr by (rule check_acknowledgement_header)
      then have "acknowledged px request packet h"
        using receive_frame [OF rx [unfolded x]] Some Inr acknowledgement_accepted [of packet header px request]
        by (simp add: acknowledged_def framed_as_def NETWORK_ORDER_16)
      then show ?thesis using Some Inr v gs x by (auto intro!: does_ok)
    qed
  qed
  then show "does events es ?F ?S ((\<lambda>(header, bytes) w. do {
      r \<leftarrow> check_acknowledgement px request header bytes; Some (r, w) }) x v)"
    by (simp add: x)
qed auto

lemma open_session_does:
  assumes "events w = es"
  shows "does events es (open_failed px config) (open_log px config) (open_session px st config w)"
    (is "does _ _ ?F ?S _")
proof -
  have connected: "?F [Connected (cfg_socket config)]" "?F []" by (simp_all add: open_failed_def)
  let ?new = "px_open_new px (px_default_id px) ''agentx-ifstack''"
  let ?pdu = "?new\<lparr> op_timeout := IO_TIMEOUT,
    op_header := (op_header ?new)\<lparr> hdr_flags := NETWORK_ORDER, hdr_packet_id := 1 \<rparr> \<rparr>"
  have written: "does events es ?F ?S (case px_open_bytes px ?pdu of
       Inl e \<Rightarrow> Some (Inl e, v)
     | Inr (bytes, pdu) \<Rightarrow> try_call (Some (st_write_all st bytes v)) (\<lambda>_ v. acknowledge px st (op_header pdu) v))"
    if v: "events v = es @ [] @ [Connected (cfg_socket config)]" for v
  proof (cases "px_open_bytes px ?pdu")
    case (Inl e)
    have "does events es ?F ?S (Some (Inl e, v))"
      by (rule does_error [where fs = "[Connected (cfg_socket config)]"]) (use v connected in simp_all)
    then show ?thesis by (simp add: Inl)
  next
    case (Inr y)
    obtain bytes sent where y: "y = (bytes, sent)" by (cases y)
    have sent: "open_sent px bytes (op_header sent)"
      using Inr by (auto simp: open_sent_def y IO_TIMEOUT_def NETWORK_ORDER_16 Let_def)
    have "does events es ?F ?S (try_call (Some (st_write_all st bytes v)) (\<lambda>_ v. acknowledge px st (op_header sent) v))"
    proof (rule does_write [where fs = "[Connected (cfg_socket config)]"])
      fix v1 assume "events v1 = es @ [Connected (cfg_socket config)] @ [Wrote bytes]"
      from acknowledge_does [OF this, of px "op_header sent"] show "does events es ?F ?S (acknowledge px st (op_header sent) v1)"
        by (rule does_mono) (use sent in \<open>auto simp: open_failed_def open_log_def\<close>)
    qed (use v connected in simp_all)
    then show ?thesis by (simp add: Inr y)
  qed
  show ?thesis
    unfolding open_session_def Let_def
    by (rule does_connect [where fs = "[]"], simp add: assms, rule connected)
      (erule does_set_read [where fs = "[] @ [Connected (cfg_socket config)]", simplified append_assoc],
        simp add: connected, erule does_set_write, simp add: connected, rule written)
qed

lemma register_table_does:
  assumes "events w = es @ fs"
  shows "does events es (\<lambda>gs. \<exists>us. gs = fs @ us \<and> register_failed ids px config opened us)
    (\<lambda>_ gs. \<exists>us. gs = fs @ us \<and> register_log ids px config opened us)
    (register_table ids px st config opened w)" (is "does _ _ ?F ?S _")
proof (cases "id_try_from ids TABLE")
  case (Inl e)
  have "does events es ?F ?S (Some (Inl e, w))"
    using assms by (rule does_error) (simp add: register_failed_def)
  then show ?thesis by (simp add: register_table_def Inl)
next
  case (Inr subtree)
  let ?new = "px_register_new px subtree"
  let ?pdu = "?new\<lparr> rg_priority := cfg_priority config, rg_header := (rg_header ?new)
    \<lparr> hdr_session_id := hdr_session_id opened, hdr_flags := hdr_flags opened AND NETWORK_ORDER, hdr_packet_id := 2 \<rparr> \<rparr>"
  show ?thesis
  proof (cases "px_register_bytes px ?pdu")
    case err: (Inl e)
    have "does events es ?F ?S (Some (Inl e, w))"
      using assms by (rule does_error) (simp add: register_failed_def)
    then show ?thesis using err by (simp add: register_table_def Inr Let_def)
  next
    case ok: (Inr y)
    obtain bytes sent where y: "y = (bytes, sent)" by (cases y)
    have sent: "register_sent ids px config opened bytes (rg_header sent)"
      using Inr ok by (auto simp: register_sent_def y TABLE_def NETWORK_ORDER_16 Let_def)
    have "does events es ?F ?S (try_call (Some (st_write_all st bytes w)) (\<lambda>_ w.
        try_call (acknowledge px st (rg_header sent) w) (\<lambda>_ w. Some (st_set_read_timeout st None w))))"
    proof (rule does_write [OF assms])
      fix v assume v: "events v = es @ fs @ [Wrote bytes]"
      show "does events es ?F ?S (try_call (acknowledge px st (rg_header sent) v) (\<lambda>_ w. Some (st_set_read_timeout st None w)))"
      proof (rule does_then [OF acknowledge_does [OF v]])
        fix header v1 gs
        assume gs: "\<exists>packet. gs = (fs @ [Wrote bytes]) @ map Got packet \<and> acknowledged px (rg_header sent) packet header"
          and v1: "events v1 = es @ gs"
        obtain packet where packet: "gs = fs @ Wrote bytes # map Got packet" "acknowledged px (rg_header sent) packet header"
          using gs by auto
        obtain u v2 where set: "st_set_read_timeout st None v1 = (u, v2)" by (cases "st_set_read_timeout st None v1")
        have log: "register_log ids px config opened (Wrote bytes # map Got packet)"
          and failed: "register_failed ids px config opened (Wrote bytes # map Got packet)"
          using sent packet(2) by (auto simp: register_log_def register_failed_def)
        show "does events es ?F ?S (Some (st_set_read_timeout st None v1))"
          using set_read_seen [OF set] v1 packet(1) log failed by (cases u) (auto simp: set does_def)
      qed (use sent in \<open>auto simp: register_failed_def\<close>)
    qed (auto simp: register_failed_def)
    then show ?thesis using ok by (simp add: register_table_def Inr Let_def y)
  qed
qed

lemma establish_does:
  "does events (events w) (unregistered ids px config) (registration ids px config) (establish ids px st config w)"
  unfolding establish_def
proof (rule does_then [OF open_session_does [OF refl]])
  fix opened v as
  assume as: "open_log px config opened as" and v: "events v = events w @ as"
  show "does events (events w) (unregistered ids px config) (registration ids px config)
      (try_call (register_table ids px st config opened v) (\<lambda>_ w. Some (Inr opened, w)))"
    using v
  proof (rule does_then [OF register_table_does])
    fix x v1 fs
    assume fs: "\<exists>us. fs = as @ us \<and> register_log ids px config opened us" and v1: "events v1 = events w @ fs"
    from v1 show "does events (events w) (unregistered ids px config) (registration ids px config) (Some (Inr opened, v1))"
      by (rule does_ok) (use fs as in \<open>auto simp: registration_def\<close>)
  qed (use as in \<open>auto simp: unregistered_def\<close>)
qed (simp add: unregistered_def)

end

section \<open>The open session\<close>

lemma encoded_response:
  assumes "agentx_pdus px" "rs_header response = rs_header (reply px header)"
    and "encode_answer px response err = Some (Inr out)"
  shows "response_to px header out"
proof -
  obtain plain sent where sent: "px_response_bytes px response = Inr (plain, sent)"
    using assms(3) by (auto simp: encode_answer_def split: sum.splits)
  have "length out = length plain \<and> take 24 out = take 24 plain \<and> drop 26 out = drop 26 plain"
  proof (cases err)
    case None
    then show ?thesis using assms(3) by (simp add: encode_answer_def sent)
  next
    case (Some error)
    then show ?thesis
      using error_patched [OF sent, of error] agentx_pdus.response_law [OF assms(1) sent] assms(3) by auto
  qed
  then show ?thesis
    unfolding response_to_def using sent assms(2)
    by (intro exI [of _ response] exI [of _ plain] exI [of _ sent])
      (simp add: agentx_pdus.reply_fields [OF assms(1)] NETWORK_ORDER_16)
qed

context observed
begin

lemma answer_does:
  assumes "agentx_pdus px" "rs_header response = rs_header (reply px header)"
    and "encode_answer px response err = Some encoded" "answer st encoded w = Some c"
  shows "case c of Again v \<Rightarrow> \<exists>out. events v = events w @ [Wrote out] \<and> response_to px header out
    | Leave (r, v) \<Rightarrow> isl r \<and> events v = events w"
proof (cases encoded)
  case (Inl e)
  then show ?thesis using assms(4) by (auto simp: answer_def)
next
  case (Inr out)
  obtain u v where wr: "st_write_all st out w = (u, v)" by (cases "st_write_all st out w")
  show ?thesis
    using assms(4) Inr write_seen [OF wr] encoded_response [OF assms(1,2), of err out] assms(3)
    by (cases u) (auto simp: answer_def wr)
qed

lemma handle_frame_does:
  assumes "agentx_pdus px" "framed_as px packet header"
    and "handle_frame ids px st tables session_id header packet w = Some c"
  shows "case c of
      Again v \<Rightarrow> (\<exists>out. events v = events w @ [Wrote out] \<and> response_to px header out) \<or>
        hdr_session_id header = session_id \<and> hdr_ty header = TyCleanupSet \<and> events v = events w
    | Leave (Inr _, v) \<Rightarrow> \<exists>out. events v = events w @ [Wrote out] \<and> response_to px header out
    | Leave (Inl _, v) \<Rightarrow> events v = events w" (is "?done c")
proof -
  have answered: "?done c'" if "rs_header response = rs_header (reply px header)"
    "encode_answer px response err = Some encoded" "answer st encoded w = Some c'" for response err encoded c'
    using answer_does [OF assms(1) that] by (auto split: control.splits prod.splits sum.splits)
  consider (foreign) "hdr_session_id header \<noteq> session_id"
    | (close) "hdr_session_id header = session_id" "hdr_ty header = TyClose"
    | (cleanup) "hdr_session_id header = session_id" "hdr_ty header = TyCleanupSet"
    | (request) "hdr_session_id header = session_id" "hdr_ty header \<notin> {TyClose, TyCleanupSet}" by blast
  then show ?thesis
  proof cases
    case foreign
    then show ?thesis
      using assms(3) answered [of "(reply px header)\<lparr> rs_res_error := NotOpen \<rparr>" None]
      by (auto simp: handle_frame_def split: bind_splits)
  next
    case close
    show ?thesis
    proof (cases "px_close px packet")
      case (Inl e)
      then show ?thesis using assms(3) close by (auto simp: handle_frame_def)
    next
      case (Inr x)
      then obtain encoded c' where c': "encode_answer px (reply px header) None = Some encoded"
          "answer st encoded w = Some c'"
          "c = (case c' of Leave r \<Rightarrow> Leave r | Again w \<Rightarrow> Leave (Inr (), w))"
        using assms(3) close by (auto simp: handle_frame_def split: bind_splits control.splits)
      then show ?thesis
        using answer_does [OF assms(1) refl c'(1,2)] by (auto split: control.splits prod.splits sum.splits)
    qed
  next
    case cleanup
    then show ?thesis using assms(3) by (auto simp: handle_frame_def split: if_splits)
  next
    case request
    then obtain d response err encoded where d: "dispatch ids px header packet (tables w) = Some d"
        "(response, err) = (case d of Inr result \<Rightarrow> result
          | Inl error \<Rightarrow> ((reply px header)\<lparr> rs_res_error := ParseError \<rparr>, None))"
        "encode_answer px response err = Some encoded" "answer st encoded w = Some c"
      using assms(3) by (auto simp: handle_frame_def Let_def split: bind_splits prod.splits)
    have "rs_header response = rs_header (reply px header)"
      using d(1,2) dispatch_header by (cases d) auto
    then show ?thesis using answered d(3,4) by blast
  qed
qed

lemma serve_round_does:
  assumes "agentx_pdus px" "serve_round ids px st tables session_id w = Some c"
    and "events w = es @ ss" "serving px session_id ss"
  shows "case c of
      Again v \<Rightarrow> \<exists>ss. events v = es @ ss \<and> serving px session_id ss
    | Leave (r, v) \<Rightarrow> \<exists>ss rest. events v = es @ ss @ map Got rest \<and> serving px session_id ss \<and>
        (isl r \<or> rest = [])"
proof -
  obtain r v where rx: "receive px st IO_TIMEOUT w = Some (r, v)"
    using assms(2) by (auto simp: serve_round_def split: bind_splits)
  show ?thesis
  proof (cases r)
    case (Inl e)
    then obtain got where "events v = es @ ss @ map Got got"
      using receive_does [OF assms(3), of px IO_TIMEOUT] by (auto simp: rx does_def)
    moreover have "c = Leave (Inl e, v)" using assms(2) Inl by (simp add: serve_round_def rx)
    ultimately show ?thesis using assms(4) by (auto intro!: exI [of _ ss])
  next
    case (Inr frame)
    obtain header packet where frame: "frame = (header, packet)" by (cases frame)
    have framed: "framed_as px packet header"
      using receive_frame [OF rx [unfolded Inr frame]] by (simp add: framed_as_def)
    have v: "events v = es @ ss @ map Got packet"
      using receive_does [OF assms(3), of px IO_TIMEOUT] by (simp add: does_def rx Inr frame)
    have handled: "handle_frame ids px st tables session_id header packet v = Some c"
      using assms(2) by (simp add: serve_round_def rx Inr frame)
    have ss: "serving px session_id (ss @ map Got packet @ [Wrote out])" if "response_to px header out" for out
      using assms(4) framed that by (rule serving.answered)
    show ?thesis
    proof (cases c)
      case (Again v')
      from handle_frame_does [OF assms(1) framed handled] show ?thesis
        using Again v ss serving.silent [OF assms(4) framed] by auto
    next
      case (Leave x)
      obtain q v' where x: "x = (q, v')" by (cases x)
      from handle_frame_does [OF assms(1) framed handled] show ?thesis
        using Leave x v ss assms(4) by (cases q) fastforce+
    qed
  qed
qed

lemma serving_does:
  assumes "agentx_pdus px" "loop (serve_round ids px st tables session_id) w = Some (r, w')"
  shows "\<exists>ss rest. events w' = events w @ ss @ map Got rest \<and> serving px session_id ss \<and> (isl r \<or> rest = [])"
proof -
  have "case (r, w') of (r, w') \<Rightarrow>
      \<exists>ss rest. events w' = events w @ ss @ map Got rest \<and> serving px session_id ss \<and> (isl r \<or> rest = [])"
    using assms(2)
    by (rule loop_invariant [where P = "\<lambda>v. \<exists>ss. events v = events w @ ss \<and> serving px session_id ss"])
      (auto intro: serving.idle dest!: serve_round_does [OF assms(1)])
  then show ?thesis by simp
qed

end

lemma session_run_established:
  "session_run ids px st config tables registered w =
     try_call (establish ids px st config w) (\<lambda>opened w.
       loop (serve_round ids px st tables (hdr_session_id opened)) (registered w))"
  by (auto simp: session_run_def establish_def try_call_def split: option.splits prod.splits sum.splits)

lemma session_seen:
  assumes "observed st nf events env" "agentx_pdus px"
    and "process_session ids px st nf tables config w = Some (r, w')"
  shows "case establish ids px st config w of
       Some (Inr opened, v) \<Rightarrow> \<exists>hs ss rest. events v = events w @ hs \<and> registration ids px config opened hs \<and>
         events w' = events v @ announcement nf v @ ss @ map Got rest \<and>
         serving px (hdr_session_id opened) ss \<and> (isl r \<or> rest = [])
     | Some (Inl e, v) \<Rightarrow> r = Inl e \<and> w' = v \<and> (\<exists>us. events w' = events w @ us \<and> unregistered ids px config us)
     | None \<Rightarrow> False"
proof -
  note run = assms(3) [unfolded process_session_def session_run_established]
  then obtain q v where q: "establish ids px st config w = Some (q, v)"
    by (auto simp: try_call_def split: option.splits)
  note handshake = observed.establish_does [OF assms(1), of w ids px config, unfolded q does_def, simplified]
  show ?thesis
  proof (cases q)
    case (Inl e)
    then show ?thesis using run handshake by (simp add: q)
  next
    case (Inr opened)
    then obtain ss rest where "events w' = events (ready nf v) @ ss @ map Got rest"
        "serving px (hdr_session_id opened) ss" "isl r \<or> rest = []"
      using observed.serving_does [OF assms(1,2), of ids tables "hdr_session_id opened" "ready nf v" r w'] run
      by (auto simp: q)
    then show ?thesis
      using handshake observed.ready_announces [OF assms(1), of v] by (auto simp: q Inr)
  qed
qed

section \<open>The transcript\<close>

text \<open>
  C6. Readiness is reported exactly at the registration. What a session does to the outside is, in
  this order: it connects, writes the Open PDU and gets a frame that acknowledges it; writes the
  Register PDU of the session that was opened and gets a frame that acknowledges that; reports
  readiness once, if the service manager asked for it and can be reached; then answers every frame
  it gets with one response to it before the next, a \<open>CleanupSet\<close> of its own aside, up to the
  bytes at its end that no answer was written for, which are none where it ends without an error.
  A session that is not acknowledged reports nothing and does no more than the beginning of this.
\<close>

theorem session_transcript:
  assumes "observed st nf events env" "agentx_pdus px"
    and "process_session ids px st nf tables config w = Some (r, w')"
  shows "case establish ids px st config w of
       Some (Inr opened, v) \<Rightarrow> \<exists>hs ss rest. events v = events w @ hs \<and> registration ids px config opened hs \<and>
         events w' = events v @ announcement nf v @ ss @ map Got rest \<and>
         serving px (hdr_session_id opened) ss \<and> (isl r \<or> rest = [])
     | Some (Inl e, v) \<Rightarrow> r = Inl e \<and> w' = v \<and> (\<exists>us. events w' = events w @ us \<and> unregistered ids px config us)
     | None \<Rightarrow> False"
  by (rule session_seen [OF assms])

section \<open>The log of the process\<close>

text \<open>
  What a process may do in \<open>n\<close> sessions that was started with the environment \<open>env\<close>: one session
  after another, each of which fails in its handshake or is registered, and a sleep after each.
\<close>

inductive process_log ::
    "'id id_ops \<Rightarrow> 'id pdu_ops \<Rightarrow> Config \<Rightarrow> (string \<Rightarrow> u8 list option) \<Rightarrow> nat \<Rightarrow> event list \<Rightarrow> bool"
  for ids px config env where
  started: "process_log ids px config env 0 []"
| failed: "process_log ids px config env n es \<Longrightarrow> unregistered ids px config us \<Longrightarrow>
    process_log ids px config env (Suc n) (es @ us @ [Slept d])"
| served: "process_log ids px config env n es \<Longrightarrow> registration ids px config opened hs \<Longrightarrow>
    report = [] \<or> (\<exists>socket addr. env SOCKET = Some socket \<and> address socket = Inr addr \<and>
      report = [Announced READY addr]) \<Longrightarrow>
    serving px (hdr_session_id opened) ss \<Longrightarrow>
    process_log ids px config env (Suc n) (es @ hs @ report @ ss @ map Got rest @ [Slept d])"

context observed
begin

lemma announcement_once:
  "announcement nf w = [] \<or> (\<exists>socket addr. env SOCKET = Some socket \<and> address socket = Inr addr \<and>
     announcement nf w = [Announced READY addr])"
  by (auto simp: announcement_def env_law split: option.splits prod.splits sum.splits)

lemma session_logged:
  assumes "agentx_pdus px" "process_session ids px st nf tables config w = Some (r, w')"
    and "process_log ids px config env n es" "events w = es0 @ es"
  obtains es' where "process_log ids px config env (Suc n) (es' @ [Slept d])" "events w' = es0 @ es'"
proof -
  note seen = session_seen [OF observed_axioms assms(1,2)]
  obtain q v where q: "establish ids px st config w = Some (q, v)" using seen by (auto split: option.splits)
  show thesis
  proof (cases q)
    case (Inl e)
    with seen obtain us where us: "events w' = events w @ us" "unregistered ids px config us" by (auto simp: q)
    show thesis
      using that [of "es @ us"] process_log.failed [OF assms(3) us(2), of d] us(1) assms(4) by simp
  next
    case (Inr opened)
    with seen obtain hs ss rest where hs: "registration ids px config opened hs"
        "serving px (hdr_session_id opened) ss"
        "events w' = events w @ hs @ announcement nf v @ ss @ map Got rest"
      by (auto simp: q)
    show thesis
      using that [of "es @ hs @ announcement nf v @ ss @ map Got rest"] hs(3) assms(4)
        process_log.served [OF assms(3) hs(1) announcement_once hs(2), of v rest d] by simp
  qed
qed

lemma rounds_logged:
  assumes "agentx_pdus px" "\<And>d w. events (sleep d w) = events w @ [Slept d]"
    and "reconnect_rounds (process ids px st nf tables sleep config) n (delay, w) = Some (delay', w')"
    and "process_log ids px config env k es" "events w = es0 @ es"
  shows "\<exists>es'. process_log ids px config env (k + n) es' \<and> events w' = es0 @ es'"
  using assms(3-5)
proof (induction n arbitrary: delay w k es)
  case (Suc n)
  let ?pr = "process ids px st nf tables sleep config"
  obtain delay1 w1 where round: "reconnect_round ?pr (delay, w) = Some (delay1, w1)"
    and rest: "reconnect_rounds ?pr n (delay1, w1) = Some (delay', w')"
    using Suc.prems(1) by (auto split: bind_splits)
  obtain t1 v1 where c1: "st_clock st w = (t1, v1)" by (cases "st_clock st w")
  obtain r v2 where session: "process_session ids px st nf tables config v1 = Some (r, v2)"
    using round by (auto simp: reconnect_round_def process_def c1 split: bind_splits prod.splits)
  obtain t2 v3 where c2: "st_clock st v2 = (t2, v3)" by (cases "st_clock st v2")
  obtain d where d: "w1 = sleep d v3"
    using round by (auto simp: reconnect_round_def process_def c1 c2 session Let_def split: bind_splits)
  obtain es1 where "process_log ids px config env (Suc k) (es1 @ [Slept d])" "events v2 = es0 @ es1"
    using session_logged [OF assms(1) session Suc.prems(2), of es0 d] clock_seen [OF c1] Suc.prems(3) by metis
  moreover from this have "events w1 = es0 @ es1 @ [Slept d]"
    using assms(2) [of d v3] d clock_seen [OF c2] by simp
  ultimately show ?case using Suc.IH [OF rest, of "Suc k" "es1 @ [Slept d]"] by simp
qed auto

end

text \<open>
  C37. The process reports what is true: what it does in any number of sessions is one transcript
  of a session after another, each followed by a sleep. A report of readiness follows immediately
  the frame that acknowledges the Register PDU of a session whose Open PDU was acknowledged, comes
  at most once for each session and before its first answer, is the text \<open>READY=1\<close> and goes to the
  address that the environment names; without one, or with one that is no address, nothing is
  reported at all.
\<close>

theorem process_transcript:
  assumes "observed st nf events env" "agentx_pdus px" "\<And>d w. events (sleep d w) = events w @ [Slept d]"
    and "reconnecting (process ids px st nf tables sleep config) n w = Some (delay, w')"
  shows "\<exists>es. events w' = events w @ es \<and> process_log ids px config env n es"
proof -
  have "\<exists>es. process_log ids px config env (0 + n) es \<and> events w' = events w @ es"
  proof (rule observed.rounds_logged [OF assms(1,2)])
    show "reconnect_rounds (process ids px st nf tables sleep config) n (from_secs 1, w) = Some (delay, w')"
      using assms(4) by (simp only: reconnecting_def)
    show "events (sleep d w) = events w @ [Slept d]" for d w by (rule assms(3))
    show "process_log ids px config env 0 []" by (rule process_log.started)
  qed simp
  then show ?thesis by auto
qed

section \<open>An observed connection\<close>

text \<open>
  The bytes of the master and what was done, in a service manager that gave an address; sleeping
  is noted.
\<close>

type_synonym wire = "u8 list \<times> event list"

definition logged_stream :: "wire stream_ops" where
  "logged_stream = \<lparr> st_connect = (\<lambda>path (bytes, es). (Inr (), bytes, es @ [Connected path])),
     st_set_read_timeout = (\<lambda>d w. (Inr (), w)), st_set_write_timeout = (\<lambda>d w. (Inr (), w)),
     st_read_timeout = (\<lambda>w. (Inr None, w)),
     st_read = (\<lambda>n (bytes, es). (Inr (take n bytes), drop n bytes, es @ map Got (take n bytes))),
     st_write_all = (\<lambda>pdu (bytes, es). (Inr (), bytes, es @ [Wrote pdu])),
     st_clock = (\<lambda>w. (0, w)) \<rparr>"

definition logged_sleep :: "duration \<Rightarrow> wire \<Rightarrow> wire" where
  "logged_sleep d w = (fst w, snd w @ [Slept d])"

definition manager_at :: "u8 list option \<Rightarrow> (unit, wire) notify_ops" where
  "manager_at socket = \<lparr> nf_var_os = (\<lambda>name w. if name = SOCKET then socket else None),
     nf_unbound = (\<lambda>w. (Inr (), w)),
     nf_send_to_addr = (\<lambda>_ text addr (bytes, es). (Inr (length text), bytes, es @ [Announced text addr])) \<rparr>"

abbreviation environment :: "u8 list option \<Rightarrow> string \<Rightarrow> u8 list option" where
  "environment socket name \<equiv> if name = SOCKET then socket else None"

interpretation wire: observed logged_stream "manager_at socket" snd "environment socket"
  by unfold_locales (auto simp: logged_stream_def manager_at_def split: prod.splits)

interpretation wire_ends: closing_stream logged_stream "\<lambda>_. 0" "\<lambda>w. length (fst w)"
  by unfold_locales (auto simp: logged_stream_def split: prod.splits)

lemma logged_calls:
  "st_connect logged_stream path (bytes, es) = (Inr (), bytes, es @ [Connected path])"
  "st_read_timeout logged_stream w = (Inr None, w)"
  "st_set_read_timeout logged_stream t w = (Inr (), w)" "st_set_write_timeout logged_stream t w = (Inr (), w)"
  "st_write_all logged_stream pdu (bytes, es) = (Inr (), bytes, es @ [Wrote pdu])"
  "st_clock logged_stream w = (0, w)"
  by (simp_all add: logged_stream_def)

lemma logged_read_exact:
  assumes "0 < n" "n \<le> length bytes"
  shows "read_exact logged_stream n (bytes, es) =
    Some (Inr (take n bytes), drop n bytes, es @ map Got (take n bytes))"
proof -
  have "read_exact_round logged_stream n ([], bytes, es) =
      Some (Again (take n bytes, drop n bytes, es @ map Got (take n bytes)))"
    using assms by (auto simp: read_exact_round_def logged_stream_def)
  moreover have "read_exact_round logged_stream n (take n bytes, w) = Some (Leave (Inr (take n bytes), w))" for w
    using assms by (simp add: read_exact_round_def)
  ultimately show ?thesis by (simp add: read_exact_def loop_goes_on loop_leaves)
qed

lemma logged_read_before:
  assumes "0 < n" "n \<le> length bytes" "0 < deadline"
  shows "read_before logged_stream n deadline (bytes, es) =
    Some (Inr (take n bytes), drop n bytes, es @ map Got (take n bytes))"
proof -
  have "read_before_round logged_stream n deadline ([], bytes, es) =
      Some (Again (take n bytes, drop n bytes, es @ map Got (take n bytes)))"
    using assms by (auto simp: read_before_round_def logged_stream_def saturating_sub_def)
  moreover have "read_before_round logged_stream n deadline (take n bytes, w) = Some (Leave (Inr (take n bytes), w))" for w
    using assms by (simp add: read_before_round_def)
  ultimately show ?thesis by (simp add: read_before_def loop_goes_on loop_leaves)
qed

lemma logged_acknowledge:
  assumes "hdr_transaction_id request = 3" "hdr_packet_id request = ucast packet"
    "hdr_ty request \<noteq> TyOpen \<longrightarrow> hdr_session_id request = 7" "packet \<in> {1, 2}"
  shows "acknowledge (demo_pdus rs vbs) logged_stream request (demo_ack packet @ rest, es) =
    Some (Inr ((demo_header TyResponse)\<lparr> hdr_packet_id := ucast packet \<rparr>), rest, es @ map Got (demo_ack packet))"
proof -
  have field: "replicate 2 0 = [0, 0 :: u8]" by (simp add: numeral_2_eq_2)
  show ?thesis using assms
    by (auto simp: acknowledge_def receive_def logged_read_exact [of "Suc 0"] logged_read_before logged_calls
        IO_TIMEOUT_def duration_defs MAX_PAYLOAD_def rfc_header_def u32_from_be_bytes_def demo_ack_def demo_px
        check_acknowledgement_def slice_def NETWORK_ORDER_def NETWORK_BYTE_ORDER_def field demo_header_def)
qed

text \<open>The transcript of the handshake with the master that acknowledges, from \<open>es\<close> on.\<close>

definition demo_registered :: "event list" where
  "demo_registered = Connected (cfg_socket default_config) # Wrote (replicate 28 0) # map Got (demo_ack 1) @
     Wrote (replicate 28 0) # map Got (demo_ack 2)"

lemma logged_establish:
  "establish rfc_ids (demo_pdus rs vbs) logged_stream default_config (demo_ack 1 @ demo_ack 2 @ rest, []) =
     Some (Inr ((demo_header TyResponse)\<lparr> hdr_packet_id := 1 \<rparr>), rest, demo_registered)"
  by (simp add: establish_def open_session_def register_table_def demo_px logged_calls
     logged_acknowledge [of _ 1, simplified] logged_acknowledge [of _ 2, simplified] demo_header_def
     rfc_ids_def TABLE_def demo_registered_def)

lemma manager_announces:
  assumes "address socket = Inr addr"
  shows "announcement (manager_at (Some socket)) w = [Announced READY addr]"
  using assms by (simp add: announcement_def manager_at_def split: prod.splits)

text \<open>What the process asks of \<open>systemd\<close>: the two addresses of the integration tests.\<close>

definition notify_path :: "u8 list" where
  "notify_path = [47, 116, 109, 112, 47, 110, 111, 116, 105, 102, 121]"

definition notify_name :: "u8 list" where
  "notify_name = [64, 97, 103, 101, 110, 116, 120]"

lemma notify_addresses:
  "address notify_path = Inr (PathnameAddr notify_path)" "address notify_name = Inr (AbstractAddr (tl notify_name))"
  by code_simp+

lemma session_transcript_witness:
  "\<exists>r rest left ss. process_session rfc_ids (demo_pdus [] []) logged_stream (manager_at (Some notify_path))
     (\<lambda>w. publication) default_config (demo_master, []) = Some (r, rest,
       demo_registered @ [Announced READY (PathnameAddr notify_path)] @ ss @ map Got left) \<and>
     serving (demo_pdus [] []) 7 ss"
proof -
  let ?nf = "manager_at (Some notify_path)"
  obtain r rest es where run: "process_session rfc_ids (demo_pdus [] []) logged_stream ?nf (\<lambda>w. publication)
      default_config (demo_master, []) = Some (r, rest, es)"
    using wire_ends.session_run_returns [OF rfc.agentx_ids_axioms demo.agentx_pdus_axioms,
      of "[]" "[]" default_config "\<lambda>w. publication" "ready ?nf" "(demo_master, [])"]
    unfolding process_session_def by auto
  from session_transcript [OF wire.observed_axioms demo.agentx_pdus_axioms run] obtain ss left where
    "es = demo_registered @ announcement ?nf (demo_get, demo_registered) @ ss @ map Got left"
    "serving (demo_pdus [] []) 7 ss"
    by (auto simp: demo_master_def logged_establish demo_header_def)
  then show ?thesis using run manager_announces [OF notify_addresses(1)] by auto
qed

lemma logged_process_returns:
  "\<exists>delay rest es. reconnecting (process rfc_ids (demo_pdus [] []) logged_stream (manager_at socket)
     (\<lambda>w. publication) logged_sleep default_config) n w = Some (delay, rest, es)"
proof -
  let ?pr = "process rfc_ids (demo_pdus [] []) logged_stream (manager_at socket)
    (\<lambda>w. publication) logged_sleep default_config"
  have "pr_session ?pr w \<noteq> None" for w
    using wire_ends.session_run_returns [OF rfc.agentx_ids_axioms demo.agentx_pdus_axioms,
      of "[]" "[]" default_config "\<lambda>w. publication" "ready (manager_at socket)" w]
    by (auto simp: process_def process_session_def)
  from reconnect_rounds_schedule [OF this, of n 0 w] obtain delay w' where
    "reconnect_rounds ?pr n (backoff 0, w) = Some (delay, w')" by blast
  moreover have "backoff 0 = from_secs 1" by (simp add: backoff_def)
  ultimately have "reconnecting ?pr n w = Some (delay, w')" by (simp only: reconnecting_def)
  then show ?thesis by (cases w') auto
qed

lemma process_transcript_witness:
  "\<exists>delay rest es. reconnecting (process rfc_ids (demo_pdus [] []) logged_stream
      (manager_at (Some notify_path)) (\<lambda>w. publication) logged_sleep default_config) 3 (demo_master, []) =
        Some (delay, rest, es) \<and>
      process_log rfc_ids (demo_pdus [] []) default_config (environment (Some notify_path)) 3 es"
proof -
  have slept: "snd (logged_sleep d w) = snd w @ [Slept d]" for d w by (simp add: logged_sleep_def)
  obtain delay rest es where
    run: "reconnecting (process rfc_ids (demo_pdus [] []) logged_stream
      (manager_at (Some notify_path)) (\<lambda>w. publication) logged_sleep default_config) 3 (demo_master, []) =
        Some (delay, rest, es)"
    using logged_process_returns by blast
  show ?thesis
    using run process_transcript [OF wire.observed_axioms demo.agentx_pdus_axioms slept run] by auto
qed

end
