(* ===== verification/Manager.thy ===== *)
theory Manager
  imports Session
begin

text \<open>
  What a manager sees through the master agent: it walks the table with GETNEXT requests, each
  of which is dispatched by the session. The encoding of a request is the master's; it is
  enough that the codec of the session decodes it. The walk of a published table lists the
  stack of the inventory the table was built from.
\<close>

section \<open>A walk by requests\<close>

text \<open>The binding of the response to a GETNEXT of one range, where it is answered with one.\<close>

definition ask_next ::
    "'id id_ops \<Rightarrow> 'id pdu_ops \<Rightarrow> ('id SearchRange \<Rightarrow> Header \<times> u8 list) \<Rightarrow> 'id mib cell \<Rightarrow>
     'id SearchRange \<Rightarrow> 'id VarBind option" where
  "ask_next ids px request tables rng =
     (case dispatch ids px (fst (request rng)) (snd (request rng)) tables of
        Some (Inr (response, None)) \<Rightarrow>
          if rs_res_error response = NoAgentXError then
            (case rs_vb response of Some [vb] \<Rightarrow> Some vb | _ \<Rightarrow> None)
          else None
      | _ \<Rightarrow> None)"

fun manager_walk ::
    "'id id_ops \<Rightarrow> 'id pdu_ops \<Rightarrow> ('id SearchRange \<Rightarrow> Header \<times> u8 list) \<Rightarrow> 'id mib cell \<Rightarrow> nat \<Rightarrow>
     'id SearchRange \<Rightarrow> 'id VarBind list option" where
  "manager_walk ids px request tables 0 rng = Some []"
| "manager_walk ids px request tables (Suc n) rng = do {
     vb \<leftarrow> ask_next ids px request tables rng;
     vbs \<leftarrow> manager_walk ids px request tables n (rng\<lparr> sr_start := vb_name vb \<rparr>);
     Some (vb # vbs)
   }"

text \<open>The request for a valid range is a GETNEXT in the default context that decodes to the range.\<close>

definition next_requests ::
    "'id id_ops \<Rightarrow> ('id \<Rightarrow> u32 list) \<Rightarrow> 'id pdu_ops \<Rightarrow> ('id SearchRange \<Rightarrow> Header \<times> u8 list) \<Rightarrow> bool" where
  "next_requests ids subids px request \<longleftrightarrow> (\<forall>rng. range_ok ids subids rng \<longrightarrow> hdr_ty (fst (request rng)) = TyGetNext \<and>
     hdr_flags (fst (request rng)) AND 8 = 0 \<and> px_get px (snd (request rng)) = Inr [rng])"

section \<open>The requests stay valid\<close>

context agentx_ids
begin

lemma row_components: "x \<in> instance_of ` rows \<Longrightarrow> length x \<le> 128"
  by (auto simp: instance_of_def STATUS_def TABLE_def)

lemma next_name_valid:
  assumes "serves ids subids m rows" "oid_ok subids (sr_start rng)"
  shows "oid_ok subids (vb_name (mib_get_next ids m rng))" "id_include ids (vb_name (mib_get_next ids m rng)) = 0"
proof -
  have ord: "bt_ordered (id_lt ids) m" using assms(1) by (simp add: serves_def)
  have "oid_ok subids (vb_name (mib_get_next ids m rng)) \<and> id_include ids (vb_name (mib_get_next ids m rng)) = 0"
  proof (cases "bt_first (id_lt ids) (start_bound ids rng) m")
    case None
    then show ?thesis using assms(2) by (simp add: get_next_first oid_ok_def)
  next
    case (Some e)
    obtain k v where e: "e = (k, v)" by (cases e)
    have "subids k \<in> instance_of ` rows"
      using oid.bt.first_Some [OF ord Some [unfolded e]] serves_entry [OF assms(1)] by blast
    then have "length (subids k) \<le> 128" by (rule row_components)
    then show ?thesis using assms(2) by (simp add: get_next_first Some e oid_ok_def)
  qed
  then show "oid_ok subids (vb_name (mib_get_next ids m rng))"
      "id_include ids (vb_name (mib_get_next ids m rng)) = 0" by simp_all
qed

lemma advance_range_ok:
  assumes "serves ids subids m rows" "range_ok ids subids rng"
  shows "range_ok ids subids (advance ids m rng)"
  using assms next_name_valid [OF assms(1)] by (simp add: range_ok_def advance_def)

end

lemma ask_next_answered:
  assumes "agentx_ids ids subids" "agentx_pdus px" "next_requests ids subids px request" "range_ok ids subids rng"
  shows "ask_next ids px request (Some m) rng = Some (mib_get_next ids m rng)"
proof -
  have "dispatch ids px (fst (request rng)) (snd (request rng)) (Some m) =
      Some (Inr ((reply px (fst (request rng)))\<lparr> rs_vb := Some [mib_get_next ids m rng] \<rparr>, None))"
    using assms(3,4) by (intro dispatch_walk [OF assms(1), of _ "[rng]" _ _ _ _ 0 0])
      (simp_all add: next_requests_def)
  then show ?thesis
    using agentx_pdus.from_header_clean [OF assms(2)] by (simp add: ask_next_def reply_def Let_def)
qed

lemma manager_walk_eq:
  assumes "agentx_ids ids subids" "agentx_pdus px" "next_requests ids subids px request"
    and "serves ids subids m rows" "range_ok ids subids rng"
  shows "manager_walk ids px request (Some m) n rng = Some (walk ids m n rng)"
  using assms(5)
proof (induction n arbitrary: rng)
  case (Suc n)
  have "manager_walk ids px request (Some m) n (advance ids m rng) = Some (walk ids m n (advance ids m rng))"
    by (rule Suc.IH [OF agentx_ids.advance_range_ok [OF assms(1,4) Suc.prems]])
  then show ?case
    by (simp add: ask_next_answered [OF assms(1-3) Suc.prems] advance_def)
qed simp

section \<open>The walk shows the stack\<close>

text \<open>
  C7. A manager that walks the table sees the stack: the GETNEXT requests that start at the table,
  each at the name of the answer before it, are answered with exactly the instances that the
  relationships and boundaries of the inventory ask for, ascending, each with the value 1, and
  from then on with the end of the view.
\<close>

theorem walk_shows_stack:
  assumes "agentx_ids ids subids" "agentx_pdus px" "next_requests ids subids px request"
    and "from_observed links = Inr t" "from_topology ids t = Some mib"
    and "range_ok ids subids rng" "id_is_null ids (sr_end rng)" "subids (sr_start rng) = TABLE"
  shows "\<exists>vbs ends. manager_walk ids px request (Some mib) (card (table_rows (topology_of links)) + n) rng =
      Some (vbs @ ends) \<and>
    map (subids \<circ> vb_name) vbs = sorted_list_of_set (instance_of ` table_rows (topology_of links)) \<and>
    (\<forall>vb \<in> set vbs. vb_data vb = Integer 1) \<and> (\<forall>vb \<in> set ends. vb_data vb = EndOfMibView) \<and> length ends = n"
proof -
  let ?rows = "table_rows (topology_of links)"
  have serves: "serves ids subids mib ?rows"
    using agentx_ids.from_rows_serves [OF assms(1), of "topology_rows t"] assms(4,5)
    by (auto simp: from_topology_def set_topology_rows from_observed_iff)
  have "admitted ids subids ?rows rng = instance_of ` ?rows"
    using assms(7,8) by (auto simp: admitted_def instance_of_def STATUS_def TABLE_def)
  then obtain ends where walk: "walk ids mib (card ?rows + n) rng = map (\<lambda>(k, v). binding ids k v) mib @ ends"
      "\<forall>vb \<in> set ends. vb_data vb = EndOfMibView"
    using agentx_ids.walk_whole [OF assms(1) serves assms(7)] by blast
  let ?vbs = "map (\<lambda>(k, v). binding ids k v) mib"
  note asc = agentx_ids.serves_ascending [OF assms(1) serves]
  have "length (walk ids m k r) = k" for m k r
    by (induction k arbitrary: r) simp_all
  then have "length ends = n" using arg_cong [OF walk(1), of length] asc(2) by simp
  moreover have "map (subids \<circ> vb_name) ?vbs = sorted_list_of_set (instance_of ` ?rows)"
    using asc(1) by (simp add: case_prod_beta comp_def agentx_ids.name_binding [OF assms(1)])
  moreover have "\<forall>vb \<in> set ?vbs. vb_data vb = Integer 1"
    using serves by (auto simp: agentx_ids.name_binding [OF assms(1)] serves_def)
  ultimately show ?thesis
    using manager_walk_eq [OF assms(1-3) serves assms(6), of "card ?rows + n"] walk by metis

qed

section \<open>A codec for ranges\<close>

text \<open>For the witness: the components of both identifiers as big-endian words, after a length.\<close>

fun words_of :: "u8 list \<Rightarrow> u32 list" where
  "words_of (a # b # c # d # rest) = u32_from_be_bytes a b c d # words_of rest"
| "words_of _ = []"

definition encode_range :: "rfc_id SearchRange \<Rightarrow> u8 list" where
  "encode_range rng =
     [rfc_include (sr_start rng), of_nat (length (rfc_subids (sr_start rng))), rfc_include (sr_end rng)] @
     concat (map u32_to_be_bytes (rfc_subids (sr_start rng) @ rfc_subids (sr_end rng)))"

definition decode_range :: "u8 list \<Rightarrow> rfc_id SearchRange" where
  "decode_range bytes =
     (let subs = words_of (drop 3 bytes); n = unat (bytes ! 1)
      in \<lparr> sr_start = RfcId (bytes ! 0) (take n subs), sr_end = RfcId (bytes ! 2) (drop n subs) \<rparr>)"

lemma words_of_bytes: "words_of (concat (map u32_to_be_bytes subs)) = subs"
  by (induction subs) (simp_all add: u32_to_be_bytes_def u32_be_roundtrip)

lemma decode_encode_range:
  assumes "length (rfc_subids (sr_start rng)) \<le> 128"
  shows "decode_range (encode_range rng) = rng"
proof -
  obtain i xs j ys where rng: "rng = \<lparr> sr_start = RfcId i xs, sr_end = RfcId j ys \<rparr>"
    by (cases rng; cases "sr_start rng"; cases "sr_end rng") auto
  have "unat (of_nat (length xs) :: u8) = length xs"
    using assms by (simp add: rng unat_of_nat)
  then show ?thesis
    using words_of_bytes [of "xs @ ys"] by (simp add: decode_range_def encode_range_def rng Let_def)
qed

definition range_pdus :: "rfc_id pdu_ops" where
  "range_pdus = (demo_pdus [] [])\<lparr> px_get := \<lambda>bytes. Inr [decode_range bytes] \<rparr>"

definition range_request :: "rfc_id SearchRange \<Rightarrow> Header \<times> u8 list" where
  "range_request rng = (demo_header TyGetNext, encode_range rng)"

interpretation range_codec: agentx_pdus range_pdus
  by unfold_locales (auto simp: range_pdus_def demo_pdus_def)

lemma range_requests: "next_requests rfc_ids rfc_subids range_pdus range_request"
  by (simp add: next_requests_def range_request_def range_pdus_def demo_header_def range_ok_def
      oid_ok_def decode_encode_range)

lemma walk_shows_stack_witness:
  "\<exists>mib vbs ends. from_topology rfc_ids \<lparr> interfaces = [2, 10], relationships = [StackRelationship 10 2] \<rparr> = Some mib \<and>
     manager_walk rfc_ids range_pdus range_request (Some mib)
       (card (table_rows \<lparr> interfaces = [2, 10], relationships = [StackRelationship 10 2] \<rparr>) + 2)
       \<lparr> sr_start = RfcId 0 TABLE, sr_end = RfcId 0 [] \<rparr> = Some (vbs @ ends) \<and> length ends = 2"
proof -
  let ?links = "[plain 2 ''eth0'', with_lower (of_kind 10 ''eth0.5'' Vlan) 2]"
  let ?t = "\<lparr> interfaces = [2, 10], relationships = [StackRelationship 10 2] \<rparr>"
  have t: "from_observed ?links = Inr ?t" by code_simp
  then have stack: "topology_of ?links = ?t" by (simp add: from_observed_iff)
  obtain mib where mib: "from_topology rfc_ids ?t = Some mib"
    using rfc.from_rows_serves [of "topology_rows ?t"] unfolding from_topology_def by blast
  have "range_ok rfc_ids rfc_subids \<lparr> sr_start = RfcId 0 TABLE, sr_end = RfcId 0 [] \<rparr>"
    by (simp add: range_ok_def oid_ok_def rfc_ids_def TABLE_def)
  from walk_shows_stack [OF rfc.agentx_ids_axioms range_codec.agentx_pdus_axioms range_requests t mib this, of 2]
  show ?thesis unfolding stack using mib by (auto simp: rfc_ids_def)
qed

end
