(* ===== verification/Rendering.thy ===== *)
theory Rendering
  imports Agentx
begin

text \<open>
  The text of a message, as \<open>format!\<close> prints it: each placeholder of the format string takes the
  next argument, \<open>{:?}\<close> prints a string in quotes with its quotes, backslashes and line ends
  escaped, any other placeholder prints it as it is. Characters outside printable ASCII, which
  \<open>Debug\<close> escapes too, are left alone. What the operating system prints for an error number is
  an argument.
\<close>

fun debug_char :: "char \<Rightarrow> string" where
  "debug_char c =
     (if c = CHR 0x22 \<or> c = CHR 0x5C then [CHR 0x5C, c]
      else if c = CHR 0x0A then [CHR 0x5C, CHR ''n'']
      else if c = CHR 0x0D then [CHR 0x5C, CHR ''r'']
      else if c = CHR 0x09 then [CHR 0x5C, CHR ''t'']
      else [c])"

definition debug_str :: "string \<Rightarrow> string" where
  "debug_str s = [CHR 0x22] @ concat (map debug_char s) @ [CHR 0x22]"

text \<open>The format string with the displayed and the debug form of each argument.\<close>

function fill_format :: "string \<Rightarrow> (string \<times> string) list \<Rightarrow> string" where
  "fill_format [] args = []"
| "fill_format (c # fmt) args =
     (if c = CHR 0x7B then
        (let spec = takeWhile (\<lambda>c. c \<noteq> CHR 0x7D) fmt; rest = drop (Suc (length spec)) fmt
         in case args of
              [] \<Rightarrow> fill_format rest []
            | (shown, debug) # args \<Rightarrow>
                (if length spec \<ge> 2 \<and> drop (length spec - 2) spec = '':?'' then debug else shown)
                @ fill_format rest args)
      else c # fill_format fmt args)"
  by pat_completeness auto

termination by (relation "measure (length \<circ> fst)") auto

text \<open>The decimal digits of a number, over the integers so that large numbers evaluate quickly.\<close>

function decimal_int :: "int \<Rightarrow> string" where
  "decimal_int n =
     (if n < 10 then [char_of (48 + n)] else decimal_int (n div 10) @ [char_of (48 + n mod 10)])"
  by pat_completeness auto

termination by (relation "measure nat") auto

declare decimal_int.simps [simp del]

lemma char_of_int: "char_of (int n) = (char_of n :: char)"
  by (simp add: char_of_def bit_of_nat_iff_bit)

lemma decimal_int_of_nat: "decimal_int (int n) = decimal n"
proof (induction n rule: decimal.induct)
  case (1 n)
  have digit: "char_of (48 + int d) = (char_of (48 + d) :: char)" for d :: nat
    using char_of_int [of "48 + d"] by simp
  have parts: "int n div 10 = int (n div 10)" "int n mod 10 = int (n mod 10)"
    by (simp_all add: zdiv_int zmod_int)
  show ?case
  proof (cases "n < 10")
    case True
    then show ?thesis by (simp add: decimal.simps [of n] decimal_int.simps [of "int n"] digit)
  next
    case False
    then show ?thesis
      using "1.IH" by (simp add: decimal.simps [of n] decimal_int.simps [of "int n"] digit parts)
  qed
qed

fun shown_arg :: "(nat \<Rightarrow> string) \<Rightarrow> fmt_arg \<Rightarrow> string"
  and shown :: "(nat \<Rightarrow> string) \<Rightarrow> message \<Rightarrow> string" where
  "shown_arg os (ArgText s) = s"
| "shown_arg os (ArgNum n) = decimal_int (uint n)"
| "shown_arg os (ArgError s) = s"
| "shown_arg os (ArgShown m) = shown os m"
| "shown os (Literal s) = s"
| "shown os (OsMessage n) = os n"
| "shown os (Formatted fmt args) =
     fill_format fmt (map (\<lambda>a. (shown_arg os a, debug_str (shown_arg os a))) args)"

definition error_text :: "io_error \<Rightarrow> string" where
  "error_text e = shown (\<lambda>n. []) (error_message e)"

end
