(* ===== verification/Link_Tests.thy ===== *)
theory Link_Tests
  imports Link Rendering
begin

text \<open>
  The unit tests of \<open>src/link.rs\<close>, replayed on the model: each test is the conjunction of its
  assertions as an executable definition under the name of the test, and a lemma that it
  passes. They tie the model to what the authors of the code observed of it, down to the text
  of every error.
\<close>

section \<open>Helpers of the tests\<close>

definition unwrap_topology :: "ObservedLink list \<Rightarrow> Topology option" where
  "unwrap_topology links = (case from_observed links of Inl _ \<Rightarrow> None | Inr t \<Rightarrow> Some t)"

definition relationship_pairs :: "Topology \<Rightarrow> (u32 \<times> u32) list" where
  "relationship_pairs topology = map (\<lambda>r. (higher r, lower r)) (relationships topology)"

definition assert_rejected_with_message :: "ObservedLink list \<Rightarrow> string \<Rightarrow> bool" where
  "assert_rejected_with_message links expected =
     (case from_observed links of
        Inr _ \<Rightarrow> False
      | Inl error \<Rightarrow> error_kind_of error = InvalidData \<and> error_text error = expected)"

definition each_rejected :: "(ObservedLink \<times> string) list \<Rightarrow> bool" where
  "each_rejected cases = list_all (\<lambda>(link, expected). assert_rejected_with_message [link] expected) cases"

definition every_link_kind :: "LinkKind list" where
  "every_link_kind = [Bond, Bridge, Vlan, MacVlan, IpVlan, MacVtap, Vxlan, Veth, Other]"

lemma every_link_kind_complete: "kind \<in> set every_link_kind"
  by (cases kind) (simp_all add: every_link_kind_def)

section \<open>Accepted inventories\<close>

definition topology_keeps_direct_relationships_without_mib_boundary_rows :: bool where
  "topology_keeps_direct_relationships_without_mib_boundary_rows =
     (unwrap_topology [with_controller (plain 3 ''member'') 9, of_kind 9 ''bond'' Bond,
        plain 10 ''standalone''] =
      Some \<lparr> interfaces = [3, 9, 10], relationships = [StackRelationship 9 3] \<rparr>)"

definition supported_links_preserve_higher_first_direct_relationships :: bool where
  "supported_links_preserve_higher_first_direct_relationships =
     (let links = [plain 2 ''lower'', of_kind 9 ''bond'' Bond, of_kind 10 ''bridge'' Bridge,
            with_controller (plain 3 ''bond-member'') 9,
            with_controller (plain 4 ''bridge-member'') 10];
          links = links @ map (\<lambda>(index, kind).
              with_lower (of_kind index (''link'' @ decimal_int (uint index)) kind) 2)
            [(20, Vlan), (21, MacVlan), (22, IpVlan), (23, MacVtap)];
          links = links @ [with_vxlan_lower (of_kind 24 ''vxlan'' Vxlan) 2]
      in map_option relationship_pairs (unwrap_topology links) =
         Some [(9, 3), (10, 4), (20, 2), (21, 2), (22, 2), (23, 2), (24, 2)])"

definition veth_generic_links_and_unsupported_controllers_are_not_stack_relationships :: bool where
  "veth_generic_links_and_unsupported_controllers_are_not_stack_relationships =
     (map_option relationships (unwrap_topology [plain 1 ''lo'', of_kind 2 ''vrf'' Other,
        with_controller (plain 3 ''ens3'') 2, with_remote_lower (of_kind 4 ''veth0'' Veth) 5,
        with_lower (of_kind 5 ''veth1'' Veth) 4]) = Some [])"

definition unresolved_and_remote_vxlan_underlays_leave_vxlan_standalone :: bool where
  "unresolved_and_remote_vxlan_underlays_leave_vxlan_standalone =
     list_all (\<lambda>vxlan.
         map_option relationships (unwrap_topology [plain 2 ''lower'', vxlan]) = Some [])
       [of_kind 10 ''vxlan'' Vxlan,
        with_vxlan_lower (of_kind 10 ''vxlan'' Vxlan) 99,
        (with_vxlan_lower (of_kind 10 ''vxlan'' Vxlan) 2)\<lparr> link_lower_netnsid := Some 0 \<rparr>]"

definition one_interface_can_be_both_a_higher_and_lower_layer :: bool where
  "one_interface_can_be_both_a_higher_and_lower_layer =
     (map_option relationship_pairs (unwrap_topology [of_kind 2 ''bond'' Bond,
        with_lower (with_controller (of_kind 3 ''vlan'' Vlan) 2) 2]) = Some [(2, 3), (3, 2)])"

lemma accepted_inventories_pass:
  "topology_keeps_direct_relationships_without_mib_boundary_rows"
  "supported_links_preserve_higher_first_direct_relationships"
  "veth_generic_links_and_unsupported_controllers_are_not_stack_relationships"
  "unresolved_and_remote_vxlan_underlays_leave_vxlan_standalone"
  "one_interface_can_be_both_a_higher_and_lower_layer"
  by code_simp+

section \<open>Refused inventories\<close>

definition invalid_index_error_names_the_interface_and_invalid_index :: bool where
  "invalid_index_error_names_the_interface_and_invalid_index = each_rejected
     [(plain 0 ''zero'', ''interface \"zero\" has invalid index 0''),
      (plain (2147483647 + 1) ''large'', ''interface \"large\" has invalid index 2147483648'')]"

definition invalid_name_error_names_the_interface_and_invalid_name :: bool where
  "invalid_name_error_names_the_interface_and_invalid_name =
     assert_rejected_with_message [plain 7 []] ''interface at index 7 has an empty name''"

definition duplicate_index_error_names_the_interface_and_duplicate_index :: bool where
  "duplicate_index_error_names_the_interface_and_duplicate_index =
     assert_rejected_with_message [plain 7 ''first'', plain 7 ''second'']
       ''interface \"second\" duplicates index 7 of interface \"first\"''"

definition duplicate_name_error_names_the_interface_and_duplicate_name :: bool where
  "duplicate_name_error_names_the_interface_and_duplicate_name =
     assert_rejected_with_message [plain 7 ''same'', plain 8 ''same'']
       ''interface \"same\" (index 8) duplicates the name of interface at index 7''"

definition unknown_controller_error_names_the_interface_and_controller_index :: bool where
  "unknown_controller_error_names_the_interface_and_controller_index =
     assert_rejected_with_message [with_controller (plain 7 ''member'') 99]
       ''interface \"member\" (index 7) references unknown controller index 99''"

definition missing_lower_error_names_the_interface_and_missing_reference :: bool where
  "missing_lower_error_names_the_interface_and_missing_reference = each_rejected
     [(of_kind 7 ''vlan'' Vlan, ''interface \"vlan\" (index 7) has no lower sub-layer reference''),
      (of_kind 8 ''macvlan'' MacVlan,
       ''interface \"macvlan\" (index 8) has no lower sub-layer reference''),
      (of_kind 9 ''ipvlan'' IpVlan,
       ''interface \"ipvlan\" (index 9) has no lower sub-layer reference''),
      (of_kind 10 ''macvtap'' MacVtap,
       ''interface \"macvtap\" (index 10) has no lower sub-layer reference'')]"

definition unknown_lower_error_names_the_interface_and_lower_index :: bool where
  "unknown_lower_error_names_the_interface_and_lower_index = each_rejected
     [(with_lower (of_kind 7 ''vlan'' Vlan) 99,
       ''interface \"vlan\" (index 7) references unknown lower sub-layer index 99''),
      (with_lower (of_kind 8 ''macvlan'' MacVlan) 98,
       ''interface \"macvlan\" (index 8) references unknown lower sub-layer index 98''),
      (with_lower (of_kind 9 ''ipvlan'' IpVlan) 97,
       ''interface \"ipvlan\" (index 9) references unknown lower sub-layer index 97''),
      (with_lower (of_kind 10 ''macvtap'' MacVtap) 96,
       ''interface \"macvtap\" (index 10) references unknown lower sub-layer index 96'')]"

definition remote_lower_error_names_the_interface_and_lower_index :: bool where
  "remote_lower_error_names_the_interface_and_lower_index = each_rejected
     [(with_remote_lower (of_kind 7 ''vlan'' Vlan) 99,
       ''interface \"vlan\" (index 7) references lower sub-layer index 99 in another network namespace''),
      (with_remote_lower (of_kind 8 ''macvlan'' MacVlan) 98,
       ''interface \"macvlan\" (index 8) references lower sub-layer index 98 in another network namespace''),
      (with_remote_lower (of_kind 9 ''ipvlan'' IpVlan) 97,
       ''interface \"ipvlan\" (index 9) references lower sub-layer index 97 in another network namespace''),
      (with_remote_lower (of_kind 10 ''macvtap'' MacVtap) 96,
       ''interface \"macvtap\" (index 10) references lower sub-layer index 96 in another network namespace'')]"

definition a_self_controller_is_rejected_for_every_link_kind :: bool where
  "a_self_controller_is_rejected_for_every_link_kind =
     list_all (\<lambda>kind. assert_rejected_with_message [with_controller (of_kind 7 ''self'' kind) 7]
         ''interface \"self\" (index 7) references itself as controller'') every_link_kind"

definition self_stack_error_names_the_interface_and_self_reference :: bool where
  "self_stack_error_names_the_interface_and_self_reference = each_rejected
     [(with_lower (of_kind 7 ''vlan'' Vlan) 7,
       ''interface \"vlan\" (index 7) references itself as lower sub-layer''),
      (with_lower (of_kind 8 ''macvlan'' MacVlan) 8,
       ''interface \"macvlan\" (index 8) references itself as lower sub-layer''),
      (with_lower (of_kind 9 ''ipvlan'' IpVlan) 9,
       ''interface \"ipvlan\" (index 9) references itself as lower sub-layer''),
      (with_lower (of_kind 10 ''macvtap'' MacVtap) 10,
       ''interface \"macvtap\" (index 10) references itself as lower sub-layer''),
      (with_vxlan_lower (of_kind 11 ''vxlan'' Vxlan) 11,
       ''interface \"vxlan\" (index 11) references itself as lower sub-layer''),
      (with_controller (of_kind 12 ''bond'' Bond) 12,
       ''interface \"bond\" (index 12) references itself as controller''),
      (with_controller (of_kind 13 ''bridge'' Bridge) 13,
       ''interface \"bridge\" (index 13) references itself as controller''),
      (with_controller (of_kind 14 ''other'' Other) 14,
       ''interface \"other\" (index 14) references itself as controller'')]"

lemma refused_inventories_pass:
  "invalid_index_error_names_the_interface_and_invalid_index"
  "invalid_name_error_names_the_interface_and_invalid_name"
  "duplicate_index_error_names_the_interface_and_duplicate_index"
  "duplicate_name_error_names_the_interface_and_duplicate_name"
  "unknown_controller_error_names_the_interface_and_controller_index"
  "missing_lower_error_names_the_interface_and_missing_reference"
  "unknown_lower_error_names_the_interface_and_lower_index"
  "remote_lower_error_names_the_interface_and_lower_index"
  "a_self_controller_is_rejected_for_every_link_kind"
  "self_stack_error_names_the_interface_and_self_reference"
  by code_simp+

end
