(* ===== verification/Mib_Tests.thy ===== *)
theory Mib_Tests
  imports Mib Link_Tests
begin

text \<open>
  The unit tests of \<open>src/mib.rs\<close>, replayed on the model with the identifiers of RFC 2741. The last
  one, which fills a response from ten thousand rows, is proved for any table with more rows than
  a response may have bindings.
\<close>

section \<open>Helpers of the tests\<close>

definition oid :: "u32 list \<Rightarrow> rfc_id" where
  "oid suffix = RfcId 0 (STATUS @ suffix)"

definition default_oid :: rfc_id where
  "default_oid = RfcId 0 []"

definition test_table :: "(u32 \<times> u32) list \<Rightarrow> rfc_id mib" where
  "test_table rows = the (from_rows rfc_ids rows)"

definition got :: "rfc_id mib \<Rightarrow> rfc_id \<Rightarrow> rfc_id Value option" where
  "got mib name = map_option vb_data (mib_get rfc_ids mib name)"

definition search :: "rfc_id \<Rightarrow> rfc_id \<Rightarrow> rfc_id SearchRange" where
  "search start end' = \<lparr> sr_start = start, sr_end = end' \<rparr>"

definition bound_to :: "rfc_id \<Rightarrow> rfc_id Value \<Rightarrow> rfc_id VarBind" where
  "bound_to name data = \<lparr> vb_name = name, vb_data = data \<rparr>"

section \<open>The tests\<close>

definition topology_relationships_and_missing_sides_become_table_rows :: bool where
  "topology_relationships_and_missing_sides_become_table_rows =
     (case unwrap_topology [with_controller (plain 2 ''member'') 10, of_kind 10 ''bond'' Bond,
         plain 20 ''standalone''] of
        None \<Rightarrow> False
      | Some topology \<Rightarrow>
          (case from_topology rfc_ids topology of
             None \<Rightarrow> False
           | Some mib \<Rightarrow>
               list_all (\<lambda>suffix. got mib (oid suffix) = Some (Integer 1))
                 [[0, 10], [0, 20], [2, 0], [10, 2], [20, 0]] \<and>
               got mib (oid [0, 2]) = Some NoSuchInstance \<and>
               got mib (oid [10, 0]) = Some NoSuchInstance))"

definition get_distinguishes_missing_instances_and_objects :: bool where
  "get_distinguishes_missing_instances_and_objects =
     (let mib = test_table [(2, 10)]
      in got mib (oid [2, 10]) = Some (Integer 1) \<and>
         list_all (\<lambda>suffix. got mib (oid suffix) = Some NoSuchInstance)
           [[], [2], [2, 11], [2, 10, 0]] \<and>
         got mib (RfcId 0 TABLE) = Some NoSuchObject \<and>
         got mib (RfcId 0 [1, 3, 6, 1, 2, 1, 31, 1, 2, 1, 30]) = Some NoSuchObject)"

text \<open>The loop of the walk: each answer is checked and becomes the next start.\<close>

fun walk_steps :: "rfc_id mib \<Rightarrow> rfc_id SearchRange \<Rightarrow> u32 list list \<Rightarrow> bool" where
  "walk_steps mib rng [] =
     (mib_get_next rfc_ids mib rng = bound_to (oid [10, 2]) EndOfMibView)"
| "walk_steps mib rng (suffix # suffixes) =
     (let answer = mib_get_next rfc_ids mib rng
      in answer = bound_to (oid suffix) (Integer 1) \<and>
         id_lt rfc_ids (sr_start rng) (vb_name answer) \<and>
         walk_steps mib (rng\<lparr> sr_start := vb_name answer \<rparr>) suffixes)"

definition walk_uses_numeric_components_and_terminates :: bool where
  "walk_uses_numeric_components_and_terminates =
     walk_steps (test_table [(10, 2), (2, 10), (2, 2)]) (search (oid []) default_oid)
       [[2, 2], [2, 10], [10, 2]]"

definition next_honors_inclusive_start_and_exclusive_end :: bool where
  "next_honors_inclusive_start_and_exclusive_end =
     (let mib = test_table [(2, 2), (2, 10)];
          start = RfcId 1 (STATUS @ [2, 2]);
          answer = mib_get_next rfc_ids mib (search start (oid [2, 10]))
      in rfc_subids (vb_name answer) = rfc_subids start \<and> rfc_include (vb_name answer) = 0 \<and>
         vb_data answer = Integer 1 \<and>
         list_all (\<lambda>(start, end').
             let result = mib_get_next rfc_ids mib (search start end')
             in rfc_subids (vb_name result) = rfc_subids start \<and> vb_data result = EndOfMibView)
           [(oid [2, 2], oid [2, 10]), (start, start), (oid [9], oid [1])] \<and>
         vb_data (mib_get_next rfc_ids (test_table []) (search default_oid default_oid)) = EndOfMibView)"

definition bulk_interleaves_repeaters_and_keeps_exhausted_names :: bool where
  "bulk_interleaves_repeaters_and_keeps_exhausted_names =
     (let mib = test_table [(2, 2), (2, 10), (10, 2)];
          inclusive = RfcId 1 (STATUS @ [2, 2]);
          ranges = [search (oid []) default_oid, search inclusive (oid [10]),
            search (oid [2, 10]) default_oid]
      in mib_get_bulk rfc_ids mib ranges 1 10 =
           [bound_to (oid [2, 2]) (Integer 1), bound_to (oid [2, 2]) (Integer 1),
            bound_to (oid [10, 2]) (Integer 1), bound_to (oid [2, 10]) (Integer 1),
            bound_to (oid [10, 2]) EndOfMibView, bound_to (oid [2, 10]) EndOfMibView,
            bound_to (oid [10, 2]) EndOfMibView] \<and>
         length (mib_get_bulk rfc_ids mib ranges 1 0) = 1 \<and>
         length (mib_get_bulk rfc_ids mib ranges 20 20) = 3 \<and>
         mib_get_bulk rfc_ids mib [] 0 20 = [])"

lemma topology_relationships_and_missing_sides_pass:
  "topology_relationships_and_missing_sides_become_table_rows"
  by code_simp

lemma get_distinguishes_missing_instances_and_objects_passes:
  "get_distinguishes_missing_instances_and_objects"
  by code_simp

lemma walk_uses_numeric_components_and_terminates_passes:
  "walk_uses_numeric_components_and_terminates"
  by code_simp

lemma next_honors_inclusive_start_and_exclusive_end_passes:
  "next_honors_inclusive_start_and_exclusive_end"
  by code_simp

lemma bulk_interleaves_repeaters_and_keeps_exhausted_names_passes:
  "bulk_interleaves_repeaters_and_keeps_exhausted_names"
  by code_simp

text \<open>
  The last test asks a table of 9999 rows. What counts is that there are more rows than a
  response may have: a repeater then fills the response.
\<close>

definition bulk_bounds_response_growth :: bool where
  "bulk_bounds_response_growth \<longleftrightarrow>
     length (mib_get_bulk rfc_ids (test_table (map (\<lambda>i. (of_nat i, 0)) [1..<10000]))
       [search default_oid default_oid] 0 65535) = MAX_BULK_BINDINGS"

lemma bulk_rounds_walk:
  "\<forall>vb \<in> set (walk ids m k rng). vb_data vb \<noteq> EndOfMibView \<Longrightarrow> k \<le> n \<Longrightarrow>
     k \<le> length (bulk_rounds ids m n [rng])"
proof (induction k arbitrary: n rng)
  case (Suc k)
  then obtain n' where n: "n = Suc n'" by (cases n) auto
  show ?case using Suc.IH [of "advance ids m rng" n'] Suc.prems by (simp add: n)
qed simp

lemma bulk_fills:
  assumes "serves rfc_ids rfc_subids m rows" "id_is_null rfc_ids (sr_end rng)"
    and "admitted rfc_ids rfc_subids rows rng = instance_of ` rows"
    and "MAX_BULK_BINDINGS \<le> card rows" "card rows \<le> unat repetitions"
  shows "length (mib_get_bulk rfc_ids m [rng] 0 repetitions) = MAX_BULK_BINDINGS"
proof -
  obtain ends where "walk rfc_ids m (card rows) rng = map (\<lambda>(k, v). binding rfc_ids k v) m @ ends"
    using rfc.walk_whole [OF assms(1-3), of 0] by auto
  moreover have len: "length m = card rows" by (rule rfc.serves_ascending(2) [OF assms(1)])
  moreover have "length (walk ids m n rng) = n" for ids n
    by (induction n arbitrary: rng) simp_all
  ultimately have "walk rfc_ids m (card rows) rng = map (\<lambda>(k, v). binding rfc_ids k v) m"
    by (metis append_Nil2 append_eq_append_conv length_map)
  then have "\<forall>vb \<in> set (walk rfc_ids m (card rows) rng). vb_data vb \<noteq> EndOfMibView"
    using assms(1) by (auto simp: serves_def binding_def)
  from bulk_rounds_walk [OF this assms(5)]
  have "MAX_BULK_BINDINGS \<le> length (bulk_rounds rfc_ids m (unat repetitions) [rng])"
    using assms(4) by simp
  then show ?thesis by (simp add: mib_get_bulk_def bulk_loop_eq)
qed

lemma bulk_bounds_response_growth_passes: "bulk_bounds_response_growth"
proof -
  let ?rows = "map (\<lambda>i. (of_nat i, 0)) [1..<10000] :: (u32 \<times> u32) list"
  let ?rng = "search default_oid default_oid"
  obtain m where m: "from_rows rfc_ids ?rows = Some m" "serves rfc_ids rfc_subids m (set ?rows)"
    using rfc.from_rows_serves [of ?rows] by blast
  have "inj_on (\<lambda>i. (of_nat i :: u32, 0 :: u32)) {1..<10000}"
  proof (rule inj_onI)
    fix i j :: nat assume "i \<in> {1..<10000}" "j \<in> {1..<10000}" "(of_nat i :: u32, 0 :: u32) = (of_nat j, 0)"
    then have "unat (of_nat i :: u32) = unat (of_nat j :: u32)" "i < 10000" "j < 10000" by simp_all
    then show "i = j" by (simp add: unat_of_nat)
  qed
  then have card: "card (set ?rows) = 9999" by (simp add: card_image)
  have "admitted rfc_ids rfc_subids (set ?rows) ?rng = instance_of ` set ?rows"
    by (auto simp: admitted_def rfc_ids_def instance_of_def search_def default_oid_def STATUS_def TABLE_def)
  moreover have "id_is_null rfc_ids (sr_end ?rng)" by (simp add: search_def default_oid_def rfc_ids_def)
  moreover have "unat (65535 :: u16) = 65535" by simp
  ultimately have "length (mib_get_bulk rfc_ids m [?rng] 0 65535) = MAX_BULK_BINDINGS"
    using m(2) card by (intro bulk_fills [where rows = "set ?rows"]) (simp_all add: MAX_BULK_BINDINGS_def)
  then show ?thesis unfolding bulk_bounds_response_growth_def test_table_def m(1) by simp
qed

end
