(* ===== verification/Monitor_Tests.thy ===== *)
theory Monitor_Tests
  imports Monitor Rendering
begin

text \<open>
  The unit tests of \<open>src/monitor.rs\<close>, replayed on the model. \<open>Controlled\<close> is the source the tests
  drive \<open>run\<close> with: a clock that only its own calls advance, scripts for the three operations,
  and records of when they were called. Each test runs the model of \<open>run\<close> over it and makes the
  assertions of the test; the times are exact.

  \<open>Controlled\<close> also notes, in every wait, whether a reader finds a table. The model keeps the
  published cell in the state of the monitor and not in the source, so the source counts its
  waits, and \<open>availability\<close> looks at the cell of the iterations that waited: what an iteration
  publishes or withdraws it does after its wait or without waiting.
\<close>

section \<open>The controlled source\<close>

datatype InventoryStep =
    StepComplete "ObservedLink list" duration EventBatch bool
  | StepOrdinary
  | StepLost
  | StepOrdinaryWithEvents EventBatch
  | StepLostWithEvents EventBatch

datatype WaitStep = StepChange | StepLoss | StepStop

record Controlled =
  ct_now :: duration
  ct_subscriptions :: "bool list"
  ct_inventories :: "InventoryStep list"
  ct_waits :: "(duration \<times> WaitStep) list"
  ct_subscription_times :: "duration list"
  ct_acquisition_times :: "duration list"
  ct_waited :: nat

definition new_controlled :: Controlled where
  "new_controlled = \<lparr> ct_now = 0, ct_subscriptions = [True], ct_inventories = [], ct_waits = [],
     ct_subscription_times = [], ct_acquisition_times = [], ct_waited = 0 \<rparr>"

definition complete :: "u32 \<Rightarrow> InventoryStep" where
  "complete index = StepComplete [plain index (''link'' @ decimal_int (uint index))] 0 no_events False"

definition controlled_subscribe :: "Controlled \<Rightarrow> (unit io_result \<times> Controlled) option" where
  "controlled_subscribe c =
     (let c = c\<lparr> ct_subscription_times := ct_subscription_times c @ [ct_now c] \<rparr>;
          (ok, rest) = (case ct_subscriptions c of [] \<Rightarrow> (True, []) | ok # rest \<Rightarrow> (ok, rest));
          c = c\<lparr> ct_subscriptions := rest \<rparr>
      in Some (if ok then Inr () else Inl (error_other ''scripted subscription failure''), c))"

definition controlled_inventory ::
    "Attempt \<Rightarrow> Controlled \<Rightarrow> ((AcquisitionError + Inventory) \<times> Controlled) option" where
  "controlled_inventory attempt c =
     (let c = c\<lparr> ct_acquisition_times := ct_acquisition_times c @ [ct_now c] \<rparr>;
          (step, rest) = (case ct_inventories c of [] \<Rightarrow> (complete 1, []) | step # rest \<Rightarrow> (step, rest));
          c = c\<lparr> ct_inventories := rest \<rparr>
      in Some (case step of
           StepComplete links elapsed events stale \<Rightarrow>
             (Inr \<lparr> inv_attempt =
                  (if stale then Attempt (if attempt_continuity attempt = 0 then 0
                     else attempt_continuity attempt - 1) else attempt),
                inv_links = links, inv_events = events \<rparr>, c\<lparr> ct_now := ct_now c + elapsed \<rparr>)
         | StepOrdinary \<Rightarrow> (Inl (Ordinary (error_other ''scripted inventory failure'') no_events), c)
         | StepLost \<Rightarrow> (Inl (Lost (error_other ''scripted continuity loss'') no_events), c)
         | StepOrdinaryWithEvents events \<Rightarrow>
             (Inl (Ordinary (error_other ''scripted inventory failure with events'') events), c)
         | StepLostWithEvents events \<Rightarrow>
             (Inl (Lost (error_other ''scripted continuity loss with events'') events), c)))"

definition controlled_wait :: "duration \<Rightarrow> Controlled \<Rightarrow> (WaitOutcome io_result \<times> Controlled) option" where
  "controlled_wait timeout c =
     (let c = c\<lparr> ct_waited := ct_waited c + 1 \<rparr>;
          deadline = ct_now c + timeout
      in Some (case ct_waits c of
           [] \<Rightarrow> (Inr Shutdown, c)
         | (at, step) # rest \<Rightarrow>
             if deadline < at then (Inr Deadline, c\<lparr> ct_now := deadline \<rparr>)
             else
               let c = c\<lparr> ct_waits := rest, ct_now := max at (ct_now c) \<rparr>
               in (case step of
                     StepChange \<Rightarrow> Inr (LinkChanged at)
                   | StepLoss \<Rightarrow> Inl (error_other ''scripted notification loss'')
                   | StepStop \<Rightarrow> Inr Shutdown, c)))"

definition controlled_ops :: "Controlled acquisition_ops" where
  "controlled_ops = \<lparr> acq_now = \<lambda>c. (ct_now c, c), acq_subscribe = controlled_subscribe,
     acq_inventory = controlled_inventory, acq_wait = controlled_wait \<rparr>"

lemma controlled_total: "total_source controlled_ops"
  by (simp add: total_source_def controlled_ops_def controlled_subscribe_def controlled_inventory_def
      controlled_wait_def Let_def split: prod.split)

section \<open>Running the monitor\<close>

text \<open>\<open>run\<close> until it returns, within so many iterations.\<close>

definition run_controlled ::
    "nat \<Rightarrow> duration \<Rightarrow> Controlled \<Rightarrow> (rfc_id mib, Controlled) monitor option" where
  "run_controlled n period source =
     (case monitor_run rfc_ids controlled_ops n (monitor_start period publication source) of
        Some (Return m) \<Rightarrow> Some m
      | _ \<Rightarrow> None)"

fun availability ::
    "'s acquisition_ops \<Rightarrow> ('s \<Rightarrow> nat) \<Rightarrow> nat \<Rightarrow> (rfc_id mib, 's) monitor \<Rightarrow> bool list" where
  "availability A waited 0 m = []"
| "availability A waited (Suc n) m =
     (case monitor_iteration rfc_ids A m of
        None \<Rightarrow> []
      | Some flow \<Rightarrow>
          (if waited (mon_source (flow_end flow)) = waited (mon_source m) then []
           else [mon_cell m \<noteq> None]) @
          (case flow of Continue m' \<Rightarrow> availability A waited n m' | Return _ \<Rightarrow> []))"

definition availability_while_waiting :: "nat \<Rightarrow> duration \<Rightarrow> Controlled \<Rightarrow> bool list" where
  "availability_while_waiting n period source =
     availability controlled_ops ct_waited n (monitor_start period publication source)"

definition from_millis :: "nat \<Rightarrow> duration" where
  "from_millis n = n * 1000000"

definition secs :: "nat list \<Rightarrow> duration list" where
  "secs ts = map from_secs ts"

text \<open>The acquisition times of a run, and whether a table is published at its end.\<close>

definition acquired_at :: "nat \<Rightarrow> duration \<Rightarrow> Controlled \<Rightarrow> (duration list \<times> bool) option" where
  "acquired_at n period source =
     map_option (\<lambda>m. (ct_acquisition_times (mon_source m), snapshot (mon_cell m) \<noteq> None))
       (run_controlled n period source)"

section \<open>The tests\<close>

definition startup_publishes_and_reads_do_not_request_acquisition :: bool where
  "startup_publishes_and_reads_do_not_request_acquisition =
     (acquired_at 9 (from_secs 3600) (new_controlled\<lparr> ct_inventories := [complete 2] \<rparr>) =
        Some ([0], True))"

definition published_table_remains_available_while_an_event_update_is_pending :: bool where
  "published_table_remains_available_while_an_event_update_is_pending =
     (let source = new_controlled\<lparr> ct_inventories := [complete 1],
            ct_waits := [(from_secs 10, StepChange), (from_millis 10500, StepStop)] \<rparr>
      in acquired_at 9 (from_secs 3600) source = Some ([0], True) \<and>
         last (availability_while_waiting 9 (from_secs 3600) source) = True)"

definition event_backoff_is_exact_and_later_events_do_not_postpone :: bool where
  "event_backoff_is_exact_and_later_events_do_not_postpone =
     (map_option fst (acquired_at 30 (from_secs 3600) (new_controlled\<lparr>
        ct_inventories := replicate 8 (complete 1),
        ct_waits := map (\<lambda>t. (from_secs t, StepChange)) [10, 12, 15, 16, 20, 29, 46, 77] @
          [(from_secs 108, StepStop)] \<rparr>)) =
      Some (secs [0, 11, 14, 19, 28, 45, 76, 107]))"

definition event_backoff_resets_only_after_sixty_quiet_seconds :: bool where
  "event_backoff_resets_only_after_sixty_quiet_seconds =
     (map_option fst (acquired_at 30 (from_secs 3600) (new_controlled\<lparr>
        ct_inventories := replicate 4 (complete 1),
        ct_waits := map (\<lambda>t. (from_secs t, StepChange)) [10, 69, 70, 131] @
          [(from_secs 133, StepStop)] \<rparr>)) =
      Some (secs [0, 11, 71, 132]))"

definition failure_backoff_is_exact_and_success_resets_it :: bool where
  "failure_backoff_is_exact_and_success_resets_it =
     (map_option fst (acquired_at 40 (from_secs 3600) (new_controlled\<lparr>
        ct_inventories := replicate 7 StepOrdinary @ [complete 1, StepOrdinary, complete 1],
        ct_waits := [(from_secs 92, StepChange), (from_secs 95, StepStop)] \<rparr>)) =
      Some (secs [0, 1, 3, 7, 15, 31, 61, 91, 93, 94]))"

definition failed_subscription_retries_without_starting_an_inventory :: bool where
  "failed_subscription_retries_without_starting_an_inventory =
     (map_option (\<lambda>m. (ct_subscription_times (mon_source m), ct_acquisition_times (mon_source m)))
        (run_controlled 20 (from_secs 3600) (new_controlled\<lparr> ct_subscriptions := [False, False, True],
           ct_inventories := [complete 1], ct_waits := [(from_secs 4, StepStop)] \<rparr>)) =
      Some (secs [0, 1, 3], secs [3]))"

definition events_and_reconciliation_do_not_bypass_failure_not_before :: bool where
  "events_and_reconciliation_do_not_bypass_failure_not_before =
     (map_option fst (acquired_at 30 (from_secs 11) (new_controlled\<lparr>
        ct_inventories := [complete 1, StepOrdinary, complete 2, complete 3],
        ct_waits := [(from_secs 10, StepChange), (from_millis 11500, StepChange),
          (from_secs 25, StepStop)] \<rparr>)) =
      Some (secs [0, 11, 12, 23]))"

text \<open>\<open>windows(2).any(..)\<close>: somewhere a table is available and in the next wait none is.\<close>

fun withdrawn_somewhere :: "bool list \<Rightarrow> bool" where
  "withdrawn_somewhere (a # b # rest) \<longleftrightarrow> a \<and> \<not> b \<or> withdrawn_somewhere (b # rest)"
| "withdrawn_somewhere _ \<longleftrightarrow> False"

definition ordinary_failure_preserves_the_table_but_loss_removes_it_until_recovery :: bool where
  "ordinary_failure_preserves_the_table_but_loss_removes_it_until_recovery =
     (let source = new_controlled\<lparr>
            ct_inventories := [complete 1, StepOrdinary, complete 2, StepLost, complete 3],
            ct_waits := [(from_secs 10, StepChange), (from_secs 20, StepChange),
              (from_secs 30, StepStop)] \<rparr>
      in withdrawn_somewhere (availability_while_waiting 30 (from_secs 3600) source) \<and>
         map_option snd (acquired_at 30 (from_secs 3600) source) = Some True)"

definition notifications_during_inventory_publish_and_remain_pending :: bool where
  "notifications_during_inventory_publish_and_remain_pending =
     (acquired_at 20 (from_secs 3600) (new_controlled\<lparr>
        ct_inventories := [StepComplete [plain 1 ''first''] (from_millis 600)
          (one_event (from_millis 500)) False, complete 2],
        ct_waits := [(from_secs 2, StepStop)] \<rparr>) =
      Some ([0, from_millis 1500], True))"

definition failed_inventories_retain_event_backoff_across_retry_and_recovery :: bool where
  "failed_inventories_retain_event_backoff_across_retry_and_recovery =
     list_all (\<lambda>lost.
         map_option (\<lambda>m. (ct_acquisition_times (mon_source m), ct_subscription_times (mon_source m)))
           (run_controlled 30 (from_secs 3600) (new_controlled\<lparr>
              ct_inventories := [complete 1,
                (if lost then StepLostWithEvents (one_event (from_secs 11))
                 else StepOrdinaryWithEvents (one_event (from_secs 11))), complete 2, complete 3],
              ct_waits := [(from_secs 10, StepChange), (from_secs 70, StepChange),
                (from_secs 75, StepStop)] \<rparr>)) =
         Some (secs [0, 11, 12, 74], if lost then secs [0, 12] else secs [0])) [False, True]"

definition stale_post_loss_completion_cannot_restore_availability :: bool where
  "stale_post_loss_completion_cannot_restore_availability =
     (let source = new_controlled\<lparr>
            ct_inventories := [complete 1, StepComplete [plain 2 ''stale''] 0 no_events True, complete 3],
            ct_waits := [(from_secs 10, StepLoss), (from_secs 14, StepStop)] \<rparr>
      in acquired_at 30 (from_secs 3600) source = Some (secs [0, 11, 13], True) \<and>
         False \<in> set (availability_while_waiting 30 (from_secs 3600) source))"

section \<open>The tests pass\<close>

text \<open>
  The tests are evaluated by rewriting. The topologies of the scripted inventories are computed
  once, and their tables, which no test looks into, stay symbolic.
\<close>

lemma complete_inventories:
  "complete 1 = StepComplete [plain 1 ''link1''] 0 no_events False"
  "complete 2 = StepComplete [plain 2 ''link2''] 0 no_events False"
  "complete 3 = StepComplete [plain 3 ''link3''] 0 no_events False"
  by code_simp+

lemma observed_inventories:
  "from_observed [plain 1 ''link1''] = Inr \<lparr> interfaces = [1], relationships = [] \<rparr>"
  "from_observed [plain 2 ''link2''] = Inr \<lparr> interfaces = [2], relationships = [] \<rparr>"
  "from_observed [plain 3 ''link3''] = Inr \<lparr> interfaces = [3], relationships = [] \<rparr>"
  "from_observed [plain 1 ''first''] = Inr \<lparr> interfaces = [1], relationships = [] \<rparr>"
  by code_simp+

definition table_of :: "Topology \<Rightarrow> rfc_id mib" where
  "table_of t = the (from_topology rfc_ids t)"

lemma from_topology_table_of: "from_topology rfc_ids t = Some (table_of t)"
proof -
  obtain m where "from_rows rfc_ids (topology_rows t) = Some m"
    using rfc.from_rows_serves [of "topology_rows t"] by blast
  then show ?thesis by (simp add: table_of_def from_topology_def)
qed

lemma monitor_run_numeral:
  "monitor_run ids A (numeral k) m =
     (case monitor_iteration ids A m of
        None \<Rightarrow> None
      | Some (Return m') \<Rightarrow> Some (Return m')
      | Some (Continue m') \<Rightarrow> monitor_run ids A (pred_numeral k) m')"
  by (simp add: numeral_eq_Suc)

lemma availability_numeral:
  "availability A waited (numeral k) m =
     (case monitor_iteration rfc_ids A m of
        None \<Rightarrow> []
      | Some flow \<Rightarrow>
          (if waited (mon_source (flow_end flow)) = waited (mon_source m) then []
           else [mon_cell m \<noteq> None]) @
          (case flow of Continue m' \<Rightarrow> availability A waited (pred_numeral k) m' | Return _ \<Rightarrow> []))"
  by (simp add: numeral_eq_Suc)

lemma replicate_numeral_step: "replicate (numeral k) x = x # replicate (pred_numeral k) x"
  by (simp add: numeral_eq_Suc)

lemmas method_defs = duration_defs delay_defs start_acquisition_def fail_def next_delay_def
  accept_inventory_def record_batch_def record_event_def retain_failed_events_def retry_ready_def
  acquisition_ready_def next_deadline_def lose_continuity_def publish_def unavailable_def
  snapshot_def publication_def new_state_def no_events_def one_event_def

lemmas loop_defs = monitor_start_def monitor_iteration_def subscription_phase_def
  acquisition_phase_def wait_phase_def monitor_run_numeral

lemma controlled_operations:
  "acq_now controlled_ops = (\<lambda>c. (ct_now c, c))" "acq_subscribe controlled_ops = controlled_subscribe"
  "acq_inventory controlled_ops = controlled_inventory" "acq_wait controlled_ops = controlled_wait"
  by (simp_all add: controlled_ops_def)

lemmas script_defs = new_controlled_def controlled_operations controlled_subscribe_def
  controlled_inventory_def controlled_wait_def run_controlled_def acquired_at_def
  availability_while_waiting_def availability_numeral from_millis_def secs_def error_other_def
  replicate_numeral_step complete_inventories observed_inventories from_topology_table_of

lemmas replay = method_defs loop_defs script_defs

lemma startup_publishes_and_reads_do_not_request_acquisition_passes:
  "startup_publishes_and_reads_do_not_request_acquisition"
  by (simp add: startup_publishes_and_reads_do_not_request_acquisition_def replay)

lemma published_table_remains_available_while_an_event_update_is_pending_passes:
  "published_table_remains_available_while_an_event_update_is_pending"
  by (simp add: published_table_remains_available_while_an_event_update_is_pending_def replay)

lemma event_backoff_is_exact_and_later_events_do_not_postpone_passes:
  "event_backoff_is_exact_and_later_events_do_not_postpone"
  by (simp add: event_backoff_is_exact_and_later_events_do_not_postpone_def replay)

lemma event_backoff_resets_only_after_sixty_quiet_seconds_passes:
  "event_backoff_resets_only_after_sixty_quiet_seconds"
  by (simp add: event_backoff_resets_only_after_sixty_quiet_seconds_def replay)

lemma failure_backoff_is_exact_and_success_resets_it_passes:
  "failure_backoff_is_exact_and_success_resets_it"
  by (simp add: failure_backoff_is_exact_and_success_resets_it_def replay)

lemma failed_subscription_retries_without_starting_an_inventory_passes:
  "failed_subscription_retries_without_starting_an_inventory"
  by (simp add: failed_subscription_retries_without_starting_an_inventory_def replay)

lemma events_and_reconciliation_do_not_bypass_failure_not_before_passes:
  "events_and_reconciliation_do_not_bypass_failure_not_before"
  by (simp add: events_and_reconciliation_do_not_bypass_failure_not_before_def replay)

lemma ordinary_failure_preserves_the_table_but_loss_removes_it_until_recovery_passes:
  "ordinary_failure_preserves_the_table_but_loss_removes_it_until_recovery"
  by (simp add: ordinary_failure_preserves_the_table_but_loss_removes_it_until_recovery_def replay, blast)

lemma notifications_during_inventory_publish_and_remain_pending_passes:
  "notifications_during_inventory_publish_and_remain_pending"
  by (simp add: notifications_during_inventory_publish_and_remain_pending_def replay)

lemma failed_inventories_retain_event_backoff_across_retry_and_recovery_passes:
  "failed_inventories_retain_event_backoff_across_retry_and_recovery"
  by (simp add: failed_inventories_retain_event_backoff_across_retry_and_recovery_def replay)

lemma stale_post_loss_completion_cannot_restore_availability_passes:
  "stale_post_loss_completion_cannot_restore_availability"
  by (simp add: stale_post_loss_completion_cannot_restore_availability_def replay)

end
