(* ===== verification/Netlink_Tests.thy ===== *)
theory Netlink_Tests
  imports Netlink Link_Tests Monitor_Tests
begin

text \<open>
  The unit tests of \<open>src/netlink.rs\<close>, replayed on the model over \<open>ScriptIo\<close>, the sockets the
  tests script, and \<open>CountingIo\<close>, which counts the sockets that are open. The crates that
  encode messages stay an argument: a test is given a codec, and passes for every codec that
  reads back the messages the test sends. \<open>table_codec\<close> shows that there are such codecs.

  The sockets of the tests are numbered. The clock stands still but for \<open>sleep\<close>. The flag
  \<open>shutdown\<close> of a scripted wait exists under \<open>cfg(test)\<close> only; where a test ends with it, the
  replay ends after the same wait.
\<close>

section \<open>Messages\<close>

definition default_link :: LinkMessage where
  "default_link = \<lparr> lm_index = 0, lm_attributes = [] \<rparr>"

definition typed_link_message :: "u32 \<Rightarrow> u32 \<Rightarrow> string \<Rightarrow> LinkAttribute list \<Rightarrow> NetlinkMessage" where
  "typed_link_message sequence index name attributes =
     \<lparr> nl_flags = 0, nl_sequence = sequence, nl_payload = InnerMessage (NewLink
       (default_link\<lparr> lm_index := index, lm_attributes := IfName name # attributes \<rparr>)) \<rparr>"

definition link_message :: "u32 \<Rightarrow> u32 \<Rightarrow> string \<Rightarrow> NetlinkMessage" where
  "link_message sequence index name = typed_link_message sequence index name []"

definition done_message :: "u32 \<Rightarrow> u16 \<Rightarrow> NetlinkMessage" where
  "done_message sequence flags = \<lparr> nl_flags = flags, nl_sequence = sequence, nl_payload = Done 0 \<rparr>"

text \<open>\<open>encoded\<close>, of several messages.\<close>

definition encoded :: "netlink_ops \<Rightarrow> NetlinkMessage list \<Rightarrow> u8 list" where
  "encoded nl messages = concat (map (nl_serialize nl) messages)"

definition datagram :: "u8 list \<Rightarrow> Datagram" where
  "datagram bytes = \<lparr> dg_bytes = bytes, dg_from_kernel = True, dg_truncated = False \<rparr>"

text \<open>The codec reads the messages back, and they fit into one datagram.\<close>

definition reads_back :: "netlink_ops \<Rightarrow> NetlinkMessage list \<Rightarrow> bool" where
  "reads_back nl messages \<longleftrightarrow> decode_datagram nl (encoded nl messages) = Inr messages \<and>
     encoded nl messages \<noteq> [] \<and> length (encoded nl messages) \<le> MAX_DATAGRAM"

lemma reads_back_datagram:
  assumes "reads_back nl messages"
  shows "decode_datagram nl (encoded nl messages) = Inr messages" "encoded nl messages \<noteq> []"
    "length (encoded nl messages) \<le> MAX_INVENTORY_BYTES"
  using assms by (auto simp: reads_back_def MAX_DATAGRAM_def MAX_INVENTORY_BYTES_def)

text \<open>A codec for the messages of a list: a header that carries the place of the message in it.\<close>

fun place :: "'a \<Rightarrow> 'a list \<Rightarrow> nat" where
  "place x [] = 0"
| "place x (y # ys) = (if x = y then 0 else Suc (place x ys))"

lemma place_less: "x \<in> set xs \<Longrightarrow> place x xs < length xs"
  and nth_place: "x \<in> set xs \<Longrightarrow> xs ! place x xs = x"
  by (induction xs) auto

definition table_codec :: "NetlinkMessage list \<Rightarrow> netlink_ops" where
  "table_codec table =
     \<lparr> nl_deserialize = (\<lambda>f. if unat (f ! 4) < length table then Inr (table ! unat (f ! 4))
         else Inl ''unknown message''),
       nl_serialize = (\<lambda>m. [16, 0, 0, 0, of_nat (place m table)] @ replicate 11 0),
       nl_default_link = default_link, nl_order = LittleEndian \<rparr>"

lemma table_codec_frame:
  "length (nl_serialize (table_codec table) m) = 16"
  "frame (table_codec table) (nl_serialize (table_codec table) m)"
  "nl_serialize (table_codec table) m ! 4 = of_nat (place m table)"
  by (simp_all add: table_codec_def frame_def NETLINK_HEADER_LENGTH_def message_length_def
      u32_from_be_bytes_def)

lemma table_codec_reads:
  assumes "length table \<le> 256" "m \<in> set table"
  shows "decoded_as (table_codec table) (nl_serialize (table_codec table) m) m"
proof -
  have "unat (of_nat (place m table) :: u8) = place m table"
    using assms place_less [of m table] by (simp add: unat_of_nat)
  then show ?thesis
    using assms(2) place_less [of m table] nth_place [of m table]
    by (simp add: decoded_as_def table_codec_def)
qed

lemma table_codec_reads_back:
  assumes "length table \<le> 256" "set messages \<subseteq> set table" "messages \<noteq> []" "length messages \<le> 65536"
  shows "reads_back (table_codec table) messages"
proof -
  let ?nl = "table_codec table"
  have "framed ?nl (encoded ?nl ms) (map (nl_serialize ?nl) ms)" for ms
  proof (induction ms)
    case (Cons m ms)
    then show ?case
      using framed.padded [of ?nl "nl_serialize ?nl m" "[]"] table_codec_frame [of table m]
      by (simp add: encoded_def)
  qed (simp add: encoded_def)
  moreover have "list_all2 (decoded_as ?nl) (map (nl_serialize ?nl) messages) messages"
    using assms(1,2) by (auto simp: list_all2_map1 intro!: list.rel_refl_strong table_codec_reads)
  ultimately have "decode_datagram ?nl (encoded ?nl messages) = Inr messages"
    using decode_from_frames [of 0 "encoded ?nl messages" ?nl "[]" messages]
    by (auto simp: decode_datagram_def)
  moreover have len: "length (encoded ?nl ms) = 16 * length ms" for ms
    by (induction ms) (simp_all add: encoded_def table_codec_frame(1))
  moreover have "encoded ?nl messages \<noteq> []" using len [of messages] assms(3) by auto
  ultimately show ?thesis using assms(4) by (simp add: reads_back_def MAX_DATAGRAM_def)
qed

section \<open>\<open>ScriptIo\<close>\<close>

record ScriptIo =
  so_opens :: "u8 io_result list"
  so_waits :: "Ready io_result list"
  so_receives :: "u8 \<Rightarrow> Datagram io_result list"
  so_now :: duration
  so_waited :: nat

definition script_subscribed :: ScriptIo where
  "script_subscribed = \<lparr> so_opens = [Inr 1], so_waits = [], so_receives = (\<lambda>socket. []),
     so_now = 0, so_waited = 0 \<rparr>"

text \<open>\<open>pop_front\<close>, and the error of a script that has ended.\<close>

fun next_scripted :: "string \<Rightarrow> 'a io_result list \<Rightarrow> 'a io_result \<times> 'a io_result list" where
  "next_scripted unexpected [] = (Inl (error_other unexpected), [])"
| "next_scripted unexpected (r # rest) = (r, rest)"

definition scripted_open :: "u32 \<Rightarrow> ScriptIo \<Rightarrow> u8 io_result \<times> ScriptIo" where
  "scripted_open groups io =
     (let (r, rest) = next_scripted ''unexpected open'' (so_opens io)
      in (r, io\<lparr> so_opens := rest \<rparr>))"

definition scripted_send :: "u8 \<Rightarrow> u8 list \<Rightarrow> ScriptIo \<Rightarrow> (unit io_result \<times> ScriptIo) option" where
  "scripted_send socket bytes io = Some (Inr (), io)"

definition scripted_wait ::
    "u8 \<Rightarrow> u8 option \<Rightarrow> duration \<Rightarrow> ScriptIo \<Rightarrow> (Ready io_result \<times> ScriptIo) option" where
  "scripted_wait notification dump timeout io =
     (let (r, rest) = next_scripted ''unexpected wait'' (so_waits io)
      in Some (r, io\<lparr> so_waits := rest, so_waited := so_waited io + 1 \<rparr>))"

definition scripted_receive :: "u8 \<Rightarrow> ScriptIo \<Rightarrow> (Datagram io_result \<times> ScriptIo) option" where
  "scripted_receive socket io =
     (let (r, rest) = next_scripted ''unexpected receive'' (so_receives io socket)
      in Some (r, io\<lparr> so_receives := (so_receives io)(socket := rest) \<rparr>))"

definition script_io :: "(u8, ScriptIo) io_ops" where
  "script_io = \<lparr> io_open = scripted_open, io_send = scripted_send, io_wait = scripted_wait,
     io_receive = scripted_receive, io_drop = (\<lambda>socket io. io), io_clock = (\<lambda>io. (so_now io, io)),
     io_sleep = (\<lambda>d io. io\<lparr> so_now := so_now io + d \<rparr>) \<rparr>"

definition not_ready :: Ready where
  "not_ready = \<lparr> rd_notification = False, rd_dump = False, rd_notification_failed = False,
     rd_dump_failed = False \<rparr>"

definition enobufs :: io_error where
  "enobufs = IoError (UnlistedKind 105) (OsMessage 105)"

text \<open>A source that subscribes over a script, and its first inventory.\<close>

definition subscribed_source :: "ScriptIo \<Rightarrow> (u8, ScriptIo) NetlinkSource option" where
  "subscribed_source io =
     (case source_subscribe script_io (with_io script_io io) of
        Some (Inr _, src) \<Rightarrow> Some src
      | _ \<Rightarrow> None)"

definition inventory_of ::
    "netlink_ops \<Rightarrow> u64 \<Rightarrow> ScriptIo \<Rightarrow> (u8, ScriptIo) acquired option" where
  "inventory_of nl generation io = do {
     src \<leftarrow> subscribed_source io;
     source_inventory nl script_io (Attempt generation) src
   }"

text \<open>The script of an inventory that is answered by one datagram.\<close>

definition answered_by :: "netlink_ops \<Rightarrow> NetlinkMessage list \<Rightarrow> ScriptIo" where
  "answered_by nl messages = script_subscribed\<lparr> so_opens := [Inr 1, Inr 2],
     so_waits := [Inr (not_ready\<lparr> rd_dump := True \<rparr>)],
     so_receives := (\<lambda>socket. [])(2 := [Inr (datagram (encoded nl messages))]) \<rparr>"

section \<open>Decoding\<close>

definition actual_link_message_types_decode_supported_fields :: bool where
  "actual_link_message_types_decode_supported_fields =
     (decode_link \<lparr> lm_index = 10, lm_attributes = [IfName ''vlan0'', LowerLink 2, Controller 9,
        LinkInfos [KindInfo InfoVlan]] \<rparr> =
      Inr (with_controller (with_lower (of_kind 10 ''vlan0'' Vlan) 2) 9))"

definition final_done_interruption_rejects_the_dump :: "netlink_ops \<Rightarrow> bool" where
  "final_done_interruption_rejects_the_dump nl =
     (fst (consume_dump nl (encoded nl [done_message 7 NLM_F_DUMP_INTR]) 7 []) =
      Inl (error_other ''interface inventory dump was interrupted''))"

definition malformed_and_trailing_netlink_bytes_are_rejected :: "netlink_ops \<Rightarrow> bool" where
  "malformed_and_trailing_netlink_bytes_are_rejected nl \<longleftrightarrow>
     decode_datagram nl [] = Inr [] \<and> isl (decode_datagram nl (replicate 15 0)) \<and>
     isl (decode_datagram nl (15 # replicate 15 0))"

section \<open>Inventories\<close>

definition production_acquisition_path_decodes_a_complete_typed_inventory :: "netlink_ops \<Rightarrow> bool" where
  "production_acquisition_path_decodes_a_complete_typed_inventory nl =
     (case inventory_of nl 4 (answered_by nl [link_message 1 2 ''lower'', done_message 1 0]) of
        Some (Inr inventory, _) \<Rightarrow>
          attempt_continuity (inv_attempt inventory) = 4 \<and>
          map (\<lambda>link. (link_index link, link_name link)) (inv_links inventory) = [(2, ''lower'')]
      | _ \<Rightarrow> False)"

definition every_relationship_messages :: "NetlinkMessage list" where
  "every_relationship_messages =
     [typed_link_message 1 2 ''lower'' [],
      typed_link_message 1 9 ''bond'' [LinkInfos [KindInfo InfoBond]],
      typed_link_message 1 3 ''member'' [Controller 9],
      typed_link_message 1 10 ''vlan'' [LowerLink 9, LinkInfos [KindInfo InfoVlan]],
      typed_link_message 1 11 ''macvlan'' [LowerLink 2, LinkInfos [KindInfo InfoMacVlan]],
      typed_link_message 1 12 ''ipvlan'' [LowerLink 2, LinkInfos [KindInfo InfoIpVlan]],
      typed_link_message 1 13 ''macvtap'' [LowerLink 2, LinkInfos [KindInfo InfoMacVtap]],
      typed_link_message 1 14 ''vxlan'' [LowerLink 99,
        LinkInfos [KindInfo InfoVxlanKind, DataInfo (VxlanData [VxlanLink 2])]],
      typed_link_message 1 20 ''veth'' [LowerLink 2, LinkInfos [KindInfo InfoVeth]],
      done_message 1 0]"

definition production_packets_build_every_supported_direct_relationship :: "netlink_ops \<Rightarrow> bool" where
  "production_packets_build_every_supported_direct_relationship nl =
     (case inventory_of nl 0 (answered_by nl every_relationship_messages) of
        Some (Inr inventory, _) \<Rightarrow>
          map_option relationship_pairs (unwrap_topology (inv_links inventory)) =
            Some [(9, 3), (10, 9), (11, 2), (12, 2), (13, 2), (14, 2)]
      | _ \<Rightarrow> False)"

definition production_acquisition_path_checks_interruption_on_final_done :: "netlink_ops \<Rightarrow> bool" where
  "production_acquisition_path_checks_interruption_on_final_done nl =
     (case inventory_of nl 0 (answered_by nl [done_message 1 NLM_F_DUMP_INTR]) of
        Some (Inl (Ordinary _ _), _) \<Rightarrow> True
      | _ \<Rightarrow> False)"

definition failed_acquisition_script :: "netlink_ops \<Rightarrow> bool \<Rightarrow> ScriptIo" where
  "failed_acquisition_script nl continuity_lost =
     (let changed = Inr (datagram (encoded nl [link_message 0 3 ''changed'']));
          truncated = (datagram (encoded nl [done_message 1 0]))\<lparr> dg_truncated := True \<rparr>
      in script_subscribed\<lparr> so_opens := [Inr 1, Inr 2],
        so_waits := [Inr (not_ready\<lparr> rd_notification := True \<rparr>),
          Inr (if continuity_lost then not_ready\<lparr> rd_notification := True \<rparr>
               else not_ready\<lparr> rd_dump := True \<rparr>)],
        so_receives := (if continuity_lost then (\<lambda>socket. [])(1 := [changed, Inl enobufs])
          else (\<lambda>socket. [])(1 := [changed], 2 := [Inr truncated])) \<rparr>)"

definition failed_production_acquisitions_return_events_already_consumed :: "netlink_ops \<Rightarrow> bool" where
  "failed_production_acquisitions_return_events_already_consumed nl =
     list_all (\<lambda>continuity_lost.
       case inventory_of nl 0 (failed_acquisition_script nl continuity_lost) of
         Some (Inl failure, src) \<Rightarrow>
           (let events = (case failure of Ordinary _ events \<Rightarrow> events | Lost _ events \<Rightarrow> events)
            in (case failure of Ordinary _ _ \<Rightarrow> \<not> continuity_lost | Lost _ _ \<Rightarrow> continuity_lost) \<and>
               batch_first events \<noteq> None \<and> batch_first events = batch_last events \<and>
               (ns_notification src = None) = continuity_lost)
       | _ \<Rightarrow> False) [False, True]"

section \<open>Notifications\<close>

datatype Failure = FailPoll | FailReceive | FailTermination | FailTruncation | FailMalformed | FailOverrun

definition overrun_message :: NetlinkMessage where
  "overrun_message = \<lparr> nl_flags = 0, nl_sequence = 0, nl_payload = Overrun \<rparr>"

fun failed_notification :: "netlink_ops \<Rightarrow> Failure \<Rightarrow> Datagram io_result" where
  "failed_notification nl FailTermination = Inr (datagram [])"
| "failed_notification nl FailTruncation =
     Inr ((datagram (encoded nl [link_message 0 2 ''link'']))\<lparr> dg_truncated := True \<rparr>)"
| "failed_notification nl FailMalformed = Inr (datagram (replicate 15 0))"
| "failed_notification nl FailOverrun = Inr (datagram (encoded nl [overrun_message]))"
| "failed_notification nl _ = Inl enobufs"

definition failure_script :: "netlink_ops \<Rightarrow> Failure \<Rightarrow> ScriptIo" where
  "failure_script nl failure =
     (if failure = FailPoll then script_subscribed\<lparr> so_waits := [Inl enobufs] \<rparr>
      else script_subscribed\<lparr> so_waits := [Inr (not_ready\<lparr> rd_notification := True \<rparr>)],
        so_receives := (\<lambda>socket. [])(1 := [failed_notification nl failure]) \<rparr>)"

definition raw_notification_failures_all_report_lost_continuity :: "netlink_ops \<Rightarrow> bool" where
  "raw_notification_failures_all_report_lost_continuity nl =
     list_all (\<lambda>failure.
       case do { src \<leftarrow> subscribed_source (failure_script nl failure); source_wait nl script_io 0 src } of
         Some (Inl _, src) \<Rightarrow> ns_notification src = None
       | _ \<Rightarrow> False)
     [FailPoll, FailReceive, FailTermination, FailTruncation, FailMalformed, FailOverrun]"

definition failed_resubscription_can_be_retried_on_the_production_adapter :: bool where
  "failed_resubscription_can_be_retried_on_the_production_adapter =
     (case do {
        (first, src) \<leftarrow> source_subscribe script_io (with_io script_io (script_subscribed\<lparr> so_opens :=
          [Inr 1, Inl (error_other ''scripted resubscription failure''), Inr 2] \<rparr>));
        (second, src) \<leftarrow> source_subscribe script_io src;
        (third, src) \<leftarrow> source_subscribe script_io src;
        Some (isl first, isl second, isl third)
      } of Some failures \<Rightarrow> failures = (False, True, False) | None \<Rightarrow> False)"

definition waiting_for_a_subscription_retry_needs_no_notification_socket :: "netlink_ops \<Rightarrow> bool" where
  "waiting_for_a_subscription_retry_needs_no_notification_socket nl =
     (map_option fst (source_wait nl script_io 0 (with_io script_io script_subscribed)) = Some (Inr Deadline))"

section \<open>Under the monitor\<close>

definition recovery_script :: "netlink_ops \<Rightarrow> ScriptIo" where
  "recovery_script nl = script_subscribed\<lparr>
     so_opens := [Inr 1, Inr 2, Inl (error_other ''scripted resubscription failure''), Inr 3, Inr 4],
     so_waits := [Inr (not_ready\<lparr> rd_dump := True \<rparr>), Inr (not_ready\<lparr> rd_notification := True \<rparr>),
       Inr (not_ready\<lparr> rd_dump := True \<rparr>), Inr not_ready],
     so_receives := (\<lambda>socket. [])(
       2 := [Inr (datagram (encoded nl [link_message 1 1 ''initial'', done_message 1 0]))],
       1 := [Inl enobufs],
       4 := [Inr (datagram (encoded nl [link_message 2 2 ''recovered'', done_message 2 0]))]) \<rparr>"

definition raw_loss_failed_resubscription_and_recovery_drive_publication :: "netlink_ops \<Rightarrow> bool" where
  "raw_loss_failed_resubscription_and_recovery_drive_publication nl =
     (let start = monitor_start (from_secs 3600) publication (with_io script_io (recovery_script nl))
      in availability (netlink_source nl script_io) (so_waited \<circ> ns_world) 6 start =
           [False, True, False, True] \<and>
         (case monitor_run rfc_ids (netlink_source nl script_io) 6 start of
            Some (Continue m) \<Rightarrow> snapshot (mon_cell m) \<noteq> None
          | _ \<Rightarrow> False))"

section \<open>The tests pass\<close>

lemma script_operations:
  "io_open script_io = scripted_open" "io_send script_io = scripted_send"
  "io_wait script_io = scripted_wait" "io_receive script_io = scripted_receive"
  "io_drop script_io = (\<lambda>socket io. io)" "io_clock script_io = (\<lambda>io. (so_now io, io))"
  "io_sleep script_io = (\<lambda>d io. io\<lparr> so_now := so_now io + d \<rparr>)"
  by (simp_all add: script_io_def)

lemmas script_io_defs = script_subscribed_def answered_by_def failed_acquisition_script_def
  script_operations scripted_open_def scripted_send_def scripted_wait_def scripted_receive_def not_ready_def
  enobufs_def subscribed_source_def inventory_of_def datagram_def

lemmas source_defs = with_io_def source_subscribe_def source_inventory_def next_sequence_def
  set_notification_def inventory_round_def inventory_ready_def inventory_notification_def
  inventory_dump_def receive_notification_def check_notification_def read_notification_def
  source_wait_def source_now_def note_event_def no_events_def INVENTORY_TIMEOUT_def duration_defs

lemmas message_defs = typed_link_message_def link_message_def done_message_def default_link_def
  every_relationship_messages_def

lemmas decoding_defs = consume_dump_def decode_link_def empty_slots_def set_once_def
  NLM_F_DUMP_INTR_def

lemmas link_defs = plain_def of_kind_def with_lower_def with_controller_def with_vxlan_lower_def

lemma netlink_operations:
  "acq_now (netlink_source nl io) = source_now io"
  "acq_subscribe (netlink_source nl io) = source_subscribe io"
  "acq_inventory (netlink_source nl io) = source_inventory nl io"
  "acq_wait (netlink_source nl io) = source_wait nl io"
  by (simp_all add: netlink_source_def)

lemmas replay_source = script_io_defs source_defs message_defs decoding_defs loop_leaves loop_goes_on

lemma actual_link_message_types_decode_supported_fields_passes:
  "actual_link_message_types_decode_supported_fields"
  by (simp add: actual_link_message_types_decode_supported_fields_def decoding_defs link_defs)

lemma final_done_interruption_rejects_the_dump_passes:
  assumes "reads_back nl [done_message 7 NLM_F_DUMP_INTR]"
  shows "final_done_interruption_rejects_the_dump nl"
  using reads_back_datagram [OF assms]
  by (simp add: final_done_interruption_rejects_the_dump_def consume_dump_def)
    (simp add: done_message_def NLM_F_DUMP_INTR_def)

lemma malformed_and_trailing_netlink_bytes_are_rejected_passes:
  "malformed_and_trailing_netlink_bytes_are_rejected nl"
  by (cases "nl_order nl") (simp_all add: malformed_and_trailing_netlink_bytes_are_rejected_def nth_Cons'
      decode_datagram_def decode_from.simps decode_message_def NETLINK_HEADER_LENGTH_def
      message_length_def u32_from_be_bytes_def)

lemma production_acquisition_path_decodes_a_complete_typed_inventory_passes:
  assumes "reads_back nl [link_message 1 2 ''lower'', done_message 1 0]"
  shows "production_acquisition_path_decodes_a_complete_typed_inventory nl"
  using reads_back_datagram [OF assms]
  by (simp add: production_acquisition_path_decodes_a_complete_typed_inventory_def replay_source)

lemma production_packets_build_every_supported_direct_relationship_passes:
  assumes "reads_back nl every_relationship_messages"
  shows "production_packets_build_every_supported_direct_relationship nl"
proof -
  have "unwrap_topology [plain 2 ''lower'', of_kind 9 ''bond'' Bond, with_controller (plain 3 ''member'') 9,
      with_lower (of_kind 10 ''vlan'' Vlan) 9, with_lower (of_kind 11 ''macvlan'' MacVlan) 2,
      with_lower (of_kind 12 ''ipvlan'' IpVlan) 2, with_lower (of_kind 13 ''macvtap'' MacVtap) 2,
      with_vxlan_lower (with_lower (of_kind 14 ''vxlan'' Vxlan) 99) 2,
      with_lower (of_kind 20 ''veth'' Veth) 2] = Some \<lparr> interfaces = [2, 3, 9, 10, 11, 12, 13, 14, 20],
        relationships = map (\<lambda>(h, l). StackRelationship h l)
          [(9, 3), (10, 9), (11, 2), (12, 2), (13, 2), (14, 2)] \<rparr>"
    by code_simp
  then show ?thesis
    using reads_back_datagram [OF assms]
    by (simp add: production_packets_build_every_supported_direct_relationship_def replay_source
        link_defs relationship_pairs_def)
qed

lemma production_acquisition_path_checks_interruption_on_final_done_passes:
  assumes "reads_back nl [done_message 1 NLM_F_DUMP_INTR]"
  shows "production_acquisition_path_checks_interruption_on_final_done nl"
  using reads_back_datagram [OF assms]
  by (simp add: production_acquisition_path_checks_interruption_on_final_done_def replay_source)

lemma failed_production_acquisitions_return_events_already_consumed_passes:
  assumes "reads_back nl [link_message 0 3 ''changed'']" "reads_back nl [done_message 1 0]"
  shows "failed_production_acquisitions_return_events_already_consumed nl"
  using reads_back_datagram [OF assms(1)] reads_back_datagram [OF assms(2)]
  by (simp add: failed_production_acquisitions_return_events_already_consumed_def replay_source)

lemma raw_notification_failures_all_report_lost_continuity_passes:
  assumes "reads_back nl [link_message 0 2 ''link'']" "reads_back nl [overrun_message]"
  shows "raw_notification_failures_all_report_lost_continuity nl"
proof -
  have "isl (decode_datagram nl (replicate 15 0))"
    using malformed_and_trailing_netlink_bytes_are_rejected_passes [of nl]
    by (simp add: malformed_and_trailing_netlink_bytes_are_rejected_def)
  then obtain e where "decode_datagram nl (replicate 15 0) = Inl e" by (auto simp: isl_def)
  then show ?thesis
    using reads_back_datagram [OF assms(1)] reads_back_datagram [OF assms(2)]
    by (simp add: raw_notification_failures_all_report_lost_continuity_def failure_script_def
        overrun_message_def script_io_defs source_defs message_defs)
qed

lemma failed_resubscription_can_be_retried_on_the_production_adapter_passes:
  "failed_resubscription_can_be_retried_on_the_production_adapter"
  by (simp add: failed_resubscription_can_be_retried_on_the_production_adapter_def replay_source)

lemma waiting_for_a_subscription_retry_needs_no_notification_socket_passes:
  "waiting_for_a_subscription_retry_needs_no_notification_socket nl"
  by (simp add: waiting_for_a_subscription_retry_needs_no_notification_socket_def replay_source)

lemma observed_recovery:
  "from_observed [plain 1 ''initial''] = Inr \<lparr> interfaces = [1], relationships = [] \<rparr>"
  "from_observed [plain 2 ''recovered''] = Inr \<lparr> interfaces = [2], relationships = [] \<rparr>"
  by code_simp+

lemma raw_loss_failed_resubscription_and_recovery_drive_publication_passes:
  assumes "reads_back nl [link_message 1 1 ''initial'', done_message 1 0]"
    and "reads_back nl [link_message 2 2 ''recovered'', done_message 2 0]"
  shows "raw_loss_failed_resubscription_and_recovery_drive_publication nl"
  using reads_back_datagram [OF assms(1)] reads_back_datagram [OF assms(2)]
  by (simp add: raw_loss_failed_resubscription_and_recovery_drive_publication_def recovery_script_def
      replay_source netlink_operations method_defs loop_defs availability_numeral from_topology_table_of
      observed_recovery [unfolded link_defs])

section \<open>\<open>CountingIo\<close>\<close>

text \<open>
  A \<open>CountedSocket\<close> is its number; \<open>active\<close>, which the sockets share, counts the open ones. An
  \<open>assert\<close> or \<open>expect\<close> of these operations that fails is \<open>None\<close>: the call does not return.
\<close>

record CountingIo =
  ci_active :: nat
  ci_next_id :: u32
  ci_sequences :: "u32 \<rightharpoonup> u32"

definition counting_open :: "u32 \<Rightarrow> CountingIo \<Rightarrow> u32 io_result \<times> CountingIo" where
  "counting_open groups io =
     (let io = io\<lparr> ci_next_id := ci_next_id io + 1, ci_active := ci_active io + 1 \<rparr>
      in (Inr (ci_next_id io), io))"

definition counting_drop :: "u32 \<Rightarrow> CountingIo \<Rightarrow> CountingIo" where
  "counting_drop socket io = io\<lparr> ci_active := ci_active io - 1 \<rparr>"

definition counting_send ::
    "netlink_ops \<Rightarrow> u32 \<Rightarrow> u8 list \<Rightarrow> CountingIo \<Rightarrow> (unit io_result \<times> CountingIo) option" where
  "counting_send nl socket bytes io =
     (if socket \<le> 1 then None
      else case decode_datagram nl bytes of
        Inl e \<Rightarrow> Some (Inl e, io)
      | Inr [request] \<Rightarrow>
          Some (Inr (), io\<lparr> ci_sequences := (ci_sequences io)(socket \<mapsto> nl_sequence request) \<rparr>)
      | Inr _ \<Rightarrow> None)"

definition counting_wait ::
    "u32 \<Rightarrow> u32 option \<Rightarrow> duration \<Rightarrow> CountingIo \<Rightarrow> (Ready io_result \<times> CountingIo) option" where
  "counting_wait notification dump timeout io = do {
     dump \<leftarrow> dump;
     Some (Inr (not_ready\<lparr> rd_dump := dump mod 3 \<noteq> 0, rd_dump_failed := dump mod 3 = 0 \<rparr>), io)
   }"

definition counting_receive ::
    "netlink_ops \<Rightarrow> u32 \<Rightarrow> CountingIo \<Rightarrow> (Datagram io_result \<times> CountingIo) option" where
  "counting_receive nl socket io = do {
     sequence \<leftarrow> ci_sequences io socket;
     Some (Inr (datagram (encoded nl [done_message sequence 0])),
       io\<lparr> ci_sequences := (ci_sequences io)(socket := None) \<rparr>)
   }"

definition counting_io :: "netlink_ops \<Rightarrow> (u32, CountingIo) io_ops" where
  "counting_io nl = \<lparr> io_open = counting_open, io_send = counting_send nl, io_wait = counting_wait,
     io_receive = counting_receive nl, io_drop = counting_drop, io_clock = (\<lambda>io. (0, io)),
     io_sleep = (\<lambda>d io. io) \<rparr>"

lemma counting_operations:
  "io_open (counting_io nl) = counting_open" "io_send (counting_io nl) = counting_send nl"
  "io_wait (counting_io nl) = counting_wait" "io_receive (counting_io nl) = counting_receive nl"
  "io_drop (counting_io nl) = counting_drop" "io_clock (counting_io nl) = (\<lambda>io. (0, io))"
  by (simp_all add: counting_io_def)

text \<open>
  The loop of the test over the numbers of the inventories: it goes on where the assertions
  hold, every tenth time after a fresh subscription.
\<close>

fun counting_rounds ::
    "netlink_ops \<Rightarrow> nat list \<Rightarrow> (u32, CountingIo) NetlinkSource \<Rightarrow>
     (u32, CountingIo) NetlinkSource option" where
  "counting_rounds nl [] src = Some src"
| "counting_rounds nl (c # cs) src = do {
     (subscribed, src) \<leftarrow> (if c mod 10 = 0 then source_subscribe (counting_io nl) src else Some (Inr (), src));
     let dump_id = ci_next_id (ns_world src) + 1;
     (r, src) \<leftarrow> source_inventory nl (counting_io nl) (Attempt (of_nat c)) src;
     if \<not> isl subscribed \<and> isl r = (dump_id mod 3 = 0) \<and> ci_active (ns_world src) = 1
     then counting_rounds nl cs src else None
   }"

definition repeated_failures_recoveries_and_inventories_release_sockets :: "netlink_ops \<Rightarrow> bool" where
  "repeated_failures_recoveries_and_inventories_release_sockets nl =
     (case do {
        (subscribed, src) \<leftarrow> source_subscribe (counting_io nl) (with_io (counting_io nl)
          \<lparr> ci_active = 0, ci_next_id = 0, ci_sequences = (\<lambda>socket. None) \<rparr>);
        src \<leftarrow> counting_rounds nl [0..<100] src;
        Some (ci_active (ns_world (set_notification (counting_io nl) None src)))
      } of Some active \<Rightarrow> active = 0 | None \<Rightarrow> False)"

text \<open>
  The rounds hold for any number of inventories: each opens one socket of its own and drops
  it, whether it succeeds or fails, and a subscription drops the socket before it.
\<close>

definition request_message :: "netlink_ops \<Rightarrow> u32 \<Rightarrow> NetlinkMessage" where
  "request_message nl sequence = \<lparr> nl_flags = NLM_F_REQUEST OR NLM_F_DUMP, nl_sequence = sequence,
     nl_payload = InnerMessage (GetLink (nl_default_link nl)) \<rparr>"

definition answers_requests :: "netlink_ops \<Rightarrow> nat \<Rightarrow> bool" where
  "answers_requests nl n \<longleftrightarrow> (\<forall>k. 0 < k \<and> k \<le> n \<longrightarrow>
     reads_back nl [request_message nl (of_nat k)] \<and> reads_back nl [done_message (of_nat k) 0])"

text \<open>After \<open>n\<close> requests and \<open>i\<close> openings one socket is open.\<close>

definition counting_state :: "nat \<Rightarrow> nat \<Rightarrow> (u32, CountingIo) NetlinkSource \<Rightarrow> bool" where
  "counting_state n i src \<longleftrightarrow> ns_notification src \<noteq> None \<and> ns_sequence src = of_nat n \<and>
     ci_active (ns_world src) = 1 \<and> ci_next_id (ns_world src) = of_nat i \<and> 0 < i"

lemma counting_subscribe:
  assumes "counting_state n i src"
  shows "\<exists>src'. source_subscribe (counting_io nl) src = Some (Inr (), src') \<and> counting_state n (Suc i) src'"
  using assms
  by (auto simp: counting_state_def source_subscribe_def counting_operations counting_open_def
      counting_drop_def set_notification_def)

lemma counting_inventory:
  assumes "answers_requests nl m" "Suc n \<le> m" "counting_state n i src" "Suc n < 2 ^ 32" "Suc i < 2 ^ 32"
  shows "\<exists>r src'. source_inventory nl (counting_io nl) attempt src = Some (r, src') \<and>
    counting_state (Suc n) (Suc i) src' \<and> (isl r \<longleftrightarrow> (ci_next_id (ns_world src) + 1) mod 3 = 0)"
proof -
  have rb: "reads_back nl [request_message nl (of_nat (Suc n))]" "reads_back nl [done_message (of_nat (Suc n)) 0]"
    using assms(1,2) unfolding answers_requests_def by blast+
  have "unat (of_nat (Suc n) :: u32) = Suc n" using assms(4) by (simp add: unat_of_nat del: of_nat_Suc)
  then have seq: "(of_nat n + 1 :: u32) \<noteq> 0" by (metis nat.simps(3) of_nat_Suc add.commute unat_0)
  have "unat (of_nat (Suc i) :: u32) = Suc i" using assms(5) by (simp add: unat_of_nat del: of_nat_Suc)
  then have id: "\<not> (of_nat i + 1 :: u32) \<le> 1"
    using assms(3) by (simp add: word_le_nat_alt counting_state_def add.commute)
  obtain k where k: "ns_notification src = Some k" using assms(3) by (auto simp: counting_state_def)
  have rq: "decode_datagram nl (dump_request nl (of_nat n + 1)) = Inr [request_message nl (of_nat n + 1)]"
    using rb(1) by (simp add: reads_back_def encoded_def dump_request_def request_message_def add.commute)
  show ?thesis
    using assms(3) reads_back_datagram [OF rb(2)] seq id k rq
    by (cases "(of_nat i + 1 :: u32) mod 3 = 0")
      (simp_all add: source_inventory_def counting_state_def counting_operations counting_open_def counting_send_def
        counting_wait_def counting_receive_def counting_drop_def next_sequence_def inventory_round_def
        loop_leaves inventory_ready_def inventory_dump_def not_ready_def datagram_def consume_dump_def
        done_message_def request_message_def duration_defs INVENTORY_TIMEOUT_def add.commute NLM_F_DUMP_INTR_def)
qed

lemma counting_rounds_hold:
  assumes "answers_requests nl (n + length cs)" "counting_state n i src"
    and "n + length cs < 2 ^ 32" "i + 2 * length cs < 2 ^ 32"
  shows "\<exists>src' i'. counting_rounds nl cs src = Some src' \<and> counting_state (n + length cs) i' src'"
  using assms
proof (induction cs arbitrary: n i src)
  case Nil
  then show ?case by auto
next
  case (Cons c cs)
  have "\<exists>subscribed src1 i1. (if c mod 10 = 0 then source_subscribe (counting_io nl) src
        else Some (Inr (), src)) = Some (subscribed, src1) \<and>
      \<not> isl subscribed \<and> counting_state n i1 src1 \<and> i1 \<le> Suc i"
    using counting_subscribe [OF Cons.prems(2), of nl] Cons.prems(2)
    by (cases "c mod 10 = 0") (fastforce, auto)
  then obtain subscribed src1 i1 where sub: "(if c mod 10 = 0 then source_subscribe (counting_io nl) src
        else Some (Inr (), src)) = Some (subscribed, src1)"
      "\<not> isl subscribed" "counting_state n i1 src1" "i1 \<le> Suc i"
    by blast
  obtain r src2 where inv: "source_inventory nl (counting_io nl) (Attempt (of_nat c)) src1 = Some (r, src2)"
      "counting_state (Suc n) (Suc i1) src2" "isl r \<longleftrightarrow> (ci_next_id (ns_world src1) + 1) mod 3 = 0"
  proof -
    have "Suc n \<le> n + length (c # cs)" "Suc n < 2 ^ 32" "Suc i1 < 2 ^ 32"
      using Cons.prems(3,4) sub(4) by simp_all
    from counting_inventory [OF Cons.prems(1) this(1) sub(3) this(2,3)] show thesis
      using that by blast
  qed
  have "\<exists>src' i'. counting_rounds nl cs src2 = Some src' \<and> counting_state (Suc n + length cs) i' src'"
    by (rule Cons.IH) (use Cons.prems inv(2) sub(4) in auto)
  then show ?case using sub(1,2) inv by (simp add: counting_state_def)
qed

lemma repeated_failures_recoveries_and_inventories_release_sockets_passes:
  assumes "answers_requests nl 100"
  shows "repeated_failures_recoveries_and_inventories_release_sockets nl"
proof -
  define w where "w = \<lparr> ci_active = 0, ci_next_id = 0, ci_sequences = (\<lambda>socket. None) \<rparr>"
  obtain src where sub: "source_subscribe (counting_io nl) (with_io (counting_io nl) w) = Some (Inr (), src)"
      "counting_state 0 1 src"
    by (simp add: w_def source_subscribe_def with_io_def counting_operations counting_open_def
        counting_state_def set_notification_def)
  obtain src' i where "counting_rounds nl [0..<100] src = Some src'" "counting_state 100 i src'"
    using counting_rounds_hold [of nl 0 "[0..<100]" 1 src] assms sub(2) by auto
  then show ?thesis
    using sub(1) unfolding repeated_failures_recoveries_and_inventories_release_sockets_def w_def [symmetric]
    by (auto simp: counting_state_def set_notification_def counting_operations counting_drop_def)
qed

text \<open>A codec as the tests want it exists.\<close>

lemma table_codec_answers_requests:
  "\<exists>nl. answers_requests nl 100"
proof -
  define requests where "requests = map (\<lambda>k. \<lparr> nl_flags = NLM_F_REQUEST OR NLM_F_DUMP,
    nl_sequence = of_nat k, nl_payload = InnerMessage (GetLink default_link) \<rparr>) [0..<101]"
  define dones where "dones = map (\<lambda>k. done_message (of_nat k) 0) [0..<101]"
  let ?nl = "table_codec (requests @ dones)"
  have len: "length (requests @ dones) \<le> 256" by (simp add: requests_def dones_def)
  have "answers_requests ?nl 100"
    unfolding answers_requests_def
  proof (intro allI impI conjI)
    fix k :: nat assume "0 < k \<and> k \<le> 100"
    then have "k \<in> set [0..<101]" by simp
    then have "request_message ?nl (of_nat k) \<in> set (requests @ dones)"
        "done_message (of_nat k) 0 \<in> set (requests @ dones)"
      unfolding requests_def dones_def request_message_def table_codec_def by auto
    then show "reads_back ?nl [request_message ?nl (of_nat k)]" "reads_back ?nl [done_message (of_nat k) 0]"
      by (intro table_codec_reads_back [OF len]; simp)+
  qed
  then show ?thesis by blast
qed

end
