(* ===== verification/Session_Tests.thy ===== *)
theory Session_Tests
  imports Session Rendering
begin

text \<open>
  The unit tests of \<open>src/session.rs\<close>, replayed on the model. The codec of the crate stays an
  argument: a test passes for every codec that decodes the few frames it sends. The pair of
  sockets whose far end drips a frame is \<open>drip_stream\<close>, on a clock that advances while a read
  waits.
\<close>

section \<open>Requests before the first inventory\<close>

definition request_header :: "Type \<Rightarrow> Header" where
  "request_header ty = \<lparr> hdr_version = 1, hdr_ty = ty, hdr_flags = NETWORK_ORDER, hdr_session_id = 0,
     hdr_transaction_id = 0, hdr_packet_id = 0, hdr_payload_length = 0 \<rparr>"

definition every_read_pdu_reports_processing_error_before_the_first_inventory ::
    "'id id_ops \<Rightarrow> 'id pdu_ops \<Rightarrow> u8 list \<Rightarrow> bool" where
  "every_read_pdu_reports_processing_error_before_the_first_inventory ids px bytes =
     list_all (\<lambda>ty.
       case dispatch ids px (request_header ty) bytes publication of
         Some (Inr (response, _)) \<Rightarrow> rs_res_error response = ProcessingError
       | _ \<Rightarrow> False) [TyGet, TyGetNext, TyGetBulk]"

lemma every_read_pdu_reports_processing_error_before_the_first_inventory_passes:
  assumes "px_get px bytes = Inr []" "px_get_bulk px bytes = Inr ([], nr, mr)"
  shows "every_read_pdu_reports_processing_error_before_the_first_inventory ids px bytes"
  using assms
  by (simp add: every_read_pdu_reports_processing_error_before_the_first_inventory_def dispatch_def
      dispatch_lookup_def request_header_def NETWORK_ORDER_def NETWORK_BYTE_ORDER_def
      NON_DEFAULT_CONTEXT_def try_for_def publication_def snapshot_def Let_def)

section \<open>Acknowledgements\<close>

definition administrative_request :: "bool \<Rightarrow> u32 \<Rightarrow> Header" where
  "administrative_request open session_id =
     (if open then (request_header TyOpen)\<lparr> hdr_packet_id := 1 \<rparr>
      else (request_header TyRegister)\<lparr> hdr_session_id := session_id, hdr_packet_id := 2 \<rparr>)"

definition resize :: "nat \<Rightarrow> u8 list \<Rightarrow> u8 list" where
  "resize n bytes = take n bytes @ replicate (n - length bytes) 0"

definition master_response :: "u32 \<Rightarrow> Header \<Rightarrow> nat \<Rightarrow> u8 list" where
  "master_response session_id request payload =
     resize (20 + payload)
       ([1, 18, NETWORK_ORDER, 0] @ u32_to_be_bytes session_id @
        u32_to_be_bytes (hdr_transaction_id request) @ u32_to_be_bytes (hdr_packet_id request) @
        u32_to_be_bytes (of_nat payload) @ u32_to_be_bytes 31223731 @ [0, 0] @ [0, 0])"

definition acknowledgement_accepts_a_response_carrying_a_var_bind_list :: "'id pdu_ops \<Rightarrow> bool" where
  "acknowledgement_accepts_a_response_carrying_a_var_bind_list px =
     list_all (\<lambda>(open, session_id, payload).
       let request = administrative_request open session_id
       in case acknowledge px byte_stream request (master_response session_id request payload) of
            Some (Inr acknowledged, _) \<Rightarrow> hdr_session_id acknowledged = session_id
          | _ \<Rightarrow> False) [(True, 21, 40), (False, 21, 32)]"

text \<open>Headers are decoded as RFC 2741, 6.1, lays them out, and the error field by its value.\<close>

lemma acknowledgement_accepts_a_response_carrying_a_var_bind_list_passes:
  assumes "px_header px = rfc_header" "px_res_error px [0, 0] BigEndian = Inr NoAgentXError"
  shows "acknowledgement_accepts_a_response_carrying_a_var_bind_list px"
proof -
  have responses: "master_response 21 (administrative_request True 21) 40 =
      [1, 18, 16, 0, 0, 0, 0, 21, 0, 0, 0, 0, 0, 0, 0, 1, 0, 0, 0, 40, 1, 220, 111, 179] @ replicate 36 0"
    "master_response 21 (administrative_request False 21) 32 =
      [1, 18, 16, 0, 0, 0, 0, 21, 0, 0, 0, 0, 0, 0, 0, 2, 0, 0, 0, 32, 1, 220, 111, 179] @ replicate 28 0"
    by code_simp+
  have st: "st_read_timeout byte_stream w = (Inr None, w)" "st_clock byte_stream w = (0, w)"
      "st_set_read_timeout byte_stream d w = (Inr (), w)" for w d
    by (simp_all add: byte_stream_def)
  have requests: "hdr_ty (administrative_request open s) = (if open then TyOpen else TyRegister)"
      "hdr_packet_id (administrative_request open s) = (if open then 1 else 2)"
      "hdr_transaction_id (administrative_request open s) = 0"
      "\<not> open \<Longrightarrow> hdr_session_id (administrative_request open s) = s" for "open" s
    by (simp_all add: administrative_request_def request_header_def)
  have field: "replicate 2 0 = [0, 0 :: u8]" by (simp add: numeral_2_eq_2)
  show ?thesis
    using assms
    by (simp add: field acknowledgement_accepts_a_response_carrying_a_var_bind_list_def responses
        acknowledge_def receive_def byte_stream_read_exact [of "Suc 0"] byte_stream_read_before st
        IO_TIMEOUT_def duration_defs MAX_PAYLOAD_def rfc_header_def u32_from_be_bytes_def
        check_acknowledgement_def requests slice_def
        NETWORK_ORDER_def NETWORK_BYTE_ORDER_def)
qed

section \<open>The frame budget\<close>

text \<open>
  The near end of the pair: the bytes still to come with the times at which the far end sends
  them, and then the far end is closed. A read takes what is there, or waits for the next byte
  as long as the timeout allows.
\<close>

record drip =
  dr_now :: duration
  dr_coming :: "(duration \<times> u8) list"
  dr_timeout :: "duration option"

definition drip_read :: "nat \<Rightarrow> drip \<Rightarrow> u8 list io_result \<times> drip" where
  "drip_read n w =
     (case dr_coming w of
        [] \<Rightarrow> (Inr [], w)
      | (at, byte) # rest \<Rightarrow>
          if dr_now w < at \<and> (case dr_timeout w of None \<Rightarrow> False | Some d \<Rightarrow> dr_now w + d < at) then
            (Inl (IoError WouldBlock (OsMessage 11)), w\<lparr> dr_now := dr_now w + the (dr_timeout w) \<rparr>)
          else
            (let now = max at (dr_now w);
                 arrived = takeWhile (\<lambda>x. fst x \<le> now) (dr_coming w);
                 taken = take n arrived
             in (Inr (map snd taken),
                 w\<lparr> dr_now := now, dr_coming := drop (length taken) (dr_coming w) \<rparr>)))"

definition drip_stream :: "drip stream_ops" where
  "drip_stream = \<lparr> st_connect = (\<lambda>path w. (Inr (), w)),
     st_set_read_timeout = (\<lambda>d w. (Inr (), w\<lparr> dr_timeout := d \<rparr>)),
     st_set_write_timeout = (\<lambda>d w. (Inr (), w)), st_read_timeout = (\<lambda>w. (Inr (dr_timeout w), w)),
     st_read = drip_read, st_write_all = (\<lambda>bytes w. (Inr (), w)), st_clock = (\<lambda>w. (dr_now w, w)) \<rparr>"

definition drip_frame :: "u8 list \<Rightarrow> duration \<Rightarrow> duration \<Rightarrow> drip" where
  "drip_frame bytes initial_delay gap = \<lparr> dr_now = 0,
     dr_coming = map (\<lambda>(index, byte). (initial_delay + index * gap, byte)) (enumerate 0 bytes),
     dr_timeout = None \<rparr>"

definition millis :: "nat \<Rightarrow> duration" where
  "millis n = n * 1000000"

definition a_started_frame_must_complete_before_its_budget :: "'id pdu_ops \<Rightarrow> bool" where
  "a_started_frame_must_complete_before_its_budget px =
     (let budget = millis 100; idle = budget + millis 50
      in (case receive px drip_stream budget (drip_frame ping_frame 0 (millis 25)) of
            Some (Inl error, w) \<Rightarrow> error = frame_deadline \<and> budget \<le> dr_now w \<and> dr_now w < millis 500
          | _ \<Rightarrow> False) \<and>
         (case receive px drip_stream budget (drip_frame ping_frame idle (millis 3)) of
            Some (Inr (header, _), w) \<Rightarrow> hdr_ty header = TyPing \<and> idle \<le> dr_now w
          | _ \<Rightarrow> False))"

lemma drip_goes_on:
  assumes "length got < n" "t < deadline" "t \<le> at" "at \<le> deadline" "case rest of [] \<Rightarrow> True | x # _ \<Rightarrow> at < fst x"
  shows "loop (read_before_round drip_stream n deadline) (got, \<lparr> dr_now = t, dr_coming = (at, b) # rest, dr_timeout = d \<rparr>) =
    loop (read_before_round drip_stream n deadline)
      (got @ [b], \<lparr> dr_now = at, dr_coming = rest, dr_timeout = Some (deadline - t) \<rparr>)"
proof -
  have "takeWhile (\<lambda>x. fst x \<le> at) rest = []" using assms(5) by (cases rest) auto
  moreover have "max at t = at" using assms(3) by simp
  ultimately show ?thesis
    by (intro loop_goes_on) (use assms in \<open>simp add: read_before_round_def drip_stream_def drip_read_def saturating_sub_def\<close>)
qed

lemma drip_complete:
  "n \<le> length got \<Longrightarrow> loop (read_before_round drip_stream n deadline) (got, w) = Some (Inr got, w)"
  by (rule loop_leaves) (simp add: read_before_round_def)

lemma drip_late:
  "length got < n \<Longrightarrow> deadline \<le> dr_now w \<Longrightarrow>
     loop (read_before_round drip_stream n deadline) (got, w) = Some (Inl frame_deadline, w)"
  by (rule loop_leaves) (simp add: read_before_round_def drip_stream_def saturating_sub_def)

lemma drip_first:
  assumes "case rest of [] \<Rightarrow> True | x # _ \<Rightarrow> at < fst x"
  shows "read_exact drip_stream 1 \<lparr> dr_now = 0, dr_coming = (at, b) # rest, dr_timeout = None \<rparr> =
    Some (Inr [b], \<lparr> dr_now = at, dr_coming = rest, dr_timeout = None \<rparr>)"
proof -
  have "takeWhile (\<lambda>x. fst x \<le> at) rest = []" using assms by (cases rest) auto
  then show ?thesis
    by (simp add: read_exact_def read_exact_round_def loop_leaves loop_goes_on drip_stream_def drip_read_def)
qed

lemma a_started_frame_must_complete_before_its_budget_passes:
  assumes "px_header px ping_frame = Inr ping_header"
  shows "a_started_frame_must_complete_before_its_budget px"
proof -
  have st: "st_read_timeout drip_stream w = (Inr (dr_timeout w), w)" "st_clock drip_stream w = (dr_now w, w)"
      "st_set_read_timeout drip_stream d w = (Inr (), w\<lparr> dr_timeout := d \<rparr>)" for w d
    by (simp_all add: drip_stream_def)
  show ?thesis
    using assms
    by (simp add: a_started_frame_must_complete_before_its_budget_def receive_def read_before_def st
        drip_first [unfolded One_nat_def] drip_first drip_goes_on drip_complete drip_late
        drip_frame_def ping_frame_def ping_header_def millis_def MAX_PAYLOAD_def)
qed

end
