(* ===== verification/Config_Tests.thy ===== *)
theory Config_Tests
  imports Config Rendering
begin

text \<open>
  The unit tests of \<open>src/config.rs\<close> that are about the program, replayed on the model. The
  file system holds one file. The TOML parser is an argument: a test passes for every parser
  that reads the documents of the test the way the derived \<open>Deserialize\<close> of \<open>Config\<close> does, and
  names the offending key in an error. What the shipped configuration parses to is a matter of
  the parser alone and not replayed.
\<close>

section \<open>Helpers\<close>

definition one_file :: "string \<Rightarrow> string \<Rightarrow> string \<Rightarrow> string io_result" where
  "one_file path contents p = (if p = path then Inr contents else Inl (IoError NotFound (OsMessage 2)))"

fun contains :: "string \<Rightarrow> string \<Rightarrow> bool" where
  "contains [] part \<longleftrightarrow> part = []"
| "contains (c # cs) part \<longleftrightarrow> prefix part (c # cs) \<or> contains cs part"

lemma contains_sublist: "contains s part \<longleftrightarrow> sublist part s"
  by (induction s) (auto simp: sublist_Cons_right)

definition error_contains :: "message + 'a \<Rightarrow> string \<Rightarrow> bool" where
  "error_contains r key = (case r of Inl error \<Rightarrow> contains (shown (\<lambda>n. []) error) key | Inr _ \<Rightarrow> False)"

definition run :: "(string \<Rightarrow> string io_result) \<Rightarrow> (string \<Rightarrow> string + Config) \<Rightarrow> string list \<Rightarrow> string \<Rightarrow> Config option" where
  "run read_to_string from_toml args default_path =
     (case load read_to_string from_toml args default_path of Inr (Run config) \<Rightarrow> Some config | _ \<Rightarrow> None)"

section \<open>The tests\<close>

definition four_keys :: string where
  "four_keys = ''socket = '' @ [CHR 0x27] @ ''/run/agentx/master'' @ [CHR 0x27, CHR 0x0A] @
     ''reconcile = 1'' @ [CHR 0x0A] @ ''priority = 255'' @ [CHR 0x0A] @
     ''log_level = '' @ [CHR 0x27] @ ''trace'' @ [CHR 0x27, CHR 0x0A]"

definition real_file_sets_all_four_keys :: "(string \<Rightarrow> string + Config) \<Rightarrow> bool" where
  "real_file_sets_all_four_keys from_toml =
     (case run (one_file ''config.toml'' four_keys) from_toml [''--config'', ''config.toml''] ''config.toml'' of
        Some config \<Rightarrow> cfg_socket config = ''/run/agentx/master'' \<and> cfg_reconcile config = 1 \<and>
          cfg_priority config = 255 \<and> level_filter (cfg_log_level config) = FilterTrace
      | None \<Rightarrow> False)"

definition absent_default_uses_built_in_defaults :: "(string \<Rightarrow> string + Config) \<Rightarrow> bool" where
  "absent_default_uses_built_in_defaults from_toml =
     (case run (one_file ''config.toml'' []) from_toml [] ''absent.toml'' of
        Some config \<Rightarrow> cfg_socket config = ''/var/agentx/master'' \<and> cfg_reconcile config = 3600 \<and>
          cfg_priority config = 127 \<and> level_filter (cfg_log_level config) = FilterInfo
      | None \<Rightarrow> False)"

definition absent_explicit_file_is_an_error_even_at_default_path :: "(string \<Rightarrow> string + Config) \<Rightarrow> bool" where
  "absent_explicit_file_is_an_error_even_at_default_path from_toml =
     error_contains (load (one_file ''config.toml'' []) from_toml [''--config'', ''absent.toml''] ''absent.toml'')
       ''absent.toml''"

definition reconcile_replaces_refresh_without_a_compatibility_alias :: "(string \<Rightarrow> string + Config) \<Rightarrow> bool" where
  "reconcile_replaces_refresh_without_a_compatibility_alias from_toml \<longleftrightarrow>
     \<not> isl (load (one_file ''config.toml'' ''reconcile = 7'') from_toml [] ''config.toml'') \<and>
     error_contains (load (one_file ''config.toml'' ''refresh = 7'') from_toml [] ''config.toml'') ''refresh''"

definition quoted :: "string \<Rightarrow> string \<Rightarrow> string" where
  "quoted key v = key @ '' = '' @ [CHR 0x27] @ v @ [CHR 0x27]"

definition invalid_files :: "(string \<times> string) list" where
  "invalid_files =
     [(quoted ''sockett'' ''master'', ''sockett''), (quoted ''socket'' [], ''socket''),
      (''socket = 42'', ''socket''), (quoted ''reconcile'' ''five'', ''reconcile''),
      (''reconcile = 0'', ''reconcile''), (''reconcile = -1'', ''reconcile''),
      (''reconcile = 1.5'', ''reconcile''), (''priority = 0'', ''priority''),
      (''priority = 256'', ''priority''), (''priority = -1'', ''priority''),
      (quoted ''log_level'' ''verbose'', ''log_level''), (quoted ''log_level'' ''off'', ''log_level''),
      (quoted ''log_level'' ''INFO'', ''log_level''), (''reconcile = ['', ''reconcile'')]"

definition invalid_files_name_the_key :: "(string \<Rightarrow> string + Config) \<Rightarrow> bool" where
  "invalid_files_name_the_key from_toml = list_all (\<lambda>(contents, key).
     error_contains (load (one_file ''config.toml'' contents) from_toml [] ''config.toml'') key) invalid_files"

definition file_socket :: string where
  "file_socket = quoted ''socket'' ''file-socket'' @ [CHR 0x0A] @ ''priority = 1''"

definition cli_socket_overrides_file_in_either_argument_order :: "(string \<Rightarrow> string + Config) \<Rightarrow> bool" where
  "cli_socket_overrides_file_in_either_argument_order from_toml = list_all (\<lambda>args.
     case run (one_file ''config.toml'' file_socket) from_toml args ''config.toml'' of
       Some config \<Rightarrow> cfg_socket config = ''cli-socket'' \<and> cfg_priority config = 1 \<and> cfg_reconcile config = 3600
     | None \<Rightarrow> False)
     [[''--config'', ''config.toml'', ''--socket'', ''cli-socket''],
      [''--socket'', ''cli-socket'', ''--config'', ''config.toml'']]"

section \<open>The tests pass\<close>

lemmas load_defs = run_def load_def read_config_def one_file_def acceptable_value_def default_config_def

lemma real_file_sets_all_four_keys_passes:
  assumes "from_toml four_keys = Inr \<lparr> cfg_socket = ''/run/agentx/master'', cfg_reconcile = 1,
    cfg_priority = 255, cfg_log_level = LogTrace \<rparr>"
  shows "real_file_sets_all_four_keys from_toml"
  using assms by (simp add: real_file_sets_all_four_keys_def load_defs)

lemma absent_default_uses_built_in_defaults_passes: "absent_default_uses_built_in_defaults from_toml"
  by (simp add: absent_default_uses_built_in_defaults_def load_defs)

lemma absent_explicit_file_is_an_error_even_at_default_path_passes:
  "absent_explicit_file_is_an_error_even_at_default_path from_toml"
  by (simp add: absent_explicit_file_is_an_error_even_at_default_path_def load_defs error_contains_def)

lemma named_by_parser:
  assumes "from_toml contents = Inl e" "contains e key"
  shows "error_contains (load (one_file ''config.toml'' contents) from_toml [] ''config.toml'') key"
proof -
  have "sublist key (''config.toml: '' @ e)"
    using assms(2) by (simp add: contains_sublist sublist_Cons_right)
  moreover have "shown (\<lambda>n. []) (Formatted ''{}: {error}'' [ArgText ''config.toml'', ArgError e]) = ''config.toml: '' @ e"
    by simp
  ultimately show ?thesis
    using assms(1) by (simp add: load_def read_config_def one_file_def error_contains_def contains_sublist)
qed

lemma reconcile_replaces_refresh_without_a_compatibility_alias_passes:
  assumes "from_toml ''reconcile = 7'' = Inr (default_config\<lparr> cfg_reconcile := 7 \<rparr>)"
    and "from_toml ''refresh = 7'' = Inl e" "contains e ''refresh''"
  shows "reconcile_replaces_refresh_without_a_compatibility_alias from_toml"
  using named_by_parser [of from_toml "''refresh = 7''" e "''refresh''", OF assms(2) assms(3)] assms(1)
  by (simp add: reconcile_replaces_refresh_without_a_compatibility_alias_def load_defs)

text \<open>
  Three of the documents are well-formed configurations that \<open>load\<close> refuses itself; the parser
  refuses the others.
\<close>

definition parser_refuses :: "(string \<Rightarrow> string + Config) \<Rightarrow> string \<times> string \<Rightarrow> bool" where
  "parser_refuses from_toml x = (case from_toml (fst x) of Inl e \<Rightarrow> contains e (snd x) | Inr _ \<Rightarrow> False)"

lemma invalid_files_name_the_key_passes:
  assumes "from_toml (quoted ''socket'' []) = Inr (default_config\<lparr> cfg_socket := [] \<rparr>)"
    and "from_toml ''reconcile = 0'' = Inr (default_config\<lparr> cfg_reconcile := 0 \<rparr>)"
    and "from_toml ''priority = 0'' = Inr (default_config\<lparr> cfg_priority := 0 \<rparr>)"
    and "list_all (parser_refuses from_toml) (map ((!) invalid_files) [0, 2, 3, 5, 6, 8, 9, 10, 11, 12, 13])"
  shows "invalid_files_name_the_key from_toml"
proof -
  have "error_contains (load (one_file ''config.toml'' contents) from_toml [] ''config.toml'') key"
    if "parser_refuses from_toml (contents, key)" for contents key
    using that named_by_parser [of from_toml contents _ key] by (auto simp: parser_refuses_def split: sum.splits)
  moreover have "error_contains (load (one_file ''config.toml'' contents) from_toml [] ''config.toml'') key"
    if "(contents, key) \<in> set (map ((!) invalid_files) [1, 4, 7])" for contents key
    using that assms(1-3) by (auto simp: invalid_files_def error_contains_def load_defs)
  ultimately show ?thesis
    using assms(4) by (simp add: invalid_files_name_the_key_def) (simp add: invalid_files_def)
qed

lemma cli_socket_overrides_file_in_either_argument_order_passes:
  assumes "from_toml file_socket = Inr (default_config\<lparr> cfg_socket := ''file-socket'', cfg_priority := 1 \<rparr>)"
  shows "cli_socket_overrides_file_in_either_argument_order from_toml"
  using assms by (simp add: cli_socket_overrides_file_in_either_argument_order_def load_defs)

end
