(* ===== verification/Process_Tests.thy ===== *)
theory Process_Tests
  imports Supervisor
begin

text \<open>
  The unit tests of \<open>src/notify.rs\<close> and of \<open>src/main.rs\<close>, replayed on the model. The test of
  \<open>main.rs\<close> that runs the test binary itself has nothing to replay.
\<close>

definition bytes_of :: "string \<Rightarrow> u8 list" where
  "bytes_of text = map of_char text"

definition an_absolute_path_addresses_a_socket_file :: bool where
  "an_absolute_path_addresses_a_socket_file \<longleftrightarrow>
     address (bytes_of ''/run/systemd/notify'') = Inr (PathnameAddr (bytes_of ''/run/systemd/notify''))"

definition a_leading_at_sign_addresses_the_abstract_namespace :: bool where
  "a_leading_at_sign_addresses_the_abstract_namespace \<longleftrightarrow>
     address (bytes_of ''@systemd/notify'') = Inr (AbstractAddr (bytes_of ''systemd/notify''))"

definition an_unusable_socket_value_is_an_error :: bool where
  "an_unusable_socket_value_is_an_error = list_all (\<lambda>v.
     case address (bytes_of v) of Inl error \<Rightarrow> error_kind_of error = InvalidInput | Inr _ \<Rightarrow> False)
     [[], ''@'', ''run/systemd/notify'']"

lemma notify_tests_pass:
  "an_absolute_path_addresses_a_socket_file" "a_leading_at_sign_addresses_the_abstract_namespace"
  "an_unusable_socket_value_is_an_error"
  by code_simp+

text \<open>The closure of the test panics.\<close>

definition a_monitor_panic_stops_the_process :: bool where
  "a_monitor_panic_stops_the_process \<longleftrightarrow> run_monitor (None :: unit option) = ExitStatus 70"

lemma a_monitor_panic_stops_the_process_passes: "a_monitor_panic_stops_the_process"
  by code_simp

end
