(* ===== verification/Integration_Tests.thy ===== *)
theory Integration_Tests
  imports Transcript Session_Tests Config_Tests Process_Tests
begin

text \<open>
  The integration tests of the daemon that need no namespace of their own, replayed on the model:
  \<open>tests/systemd_readiness.rs\<close> on the session of the process, with what it writes and announces
  observed, and \<open>tests/config_cli.rs\<close> on its start. What the tests check of the encoding of the
  PDUs is a matter of the codec, for which a stand-in is used here.
\<close>

section \<open>Readiness\<close>

text \<open>
  \<open>AgentxMaster::connect\<close> answers with the header of the request; the time of the first answer is
  overwritten with all ones.
\<close>

definition response_of :: "u8 \<Rightarrow> u32 \<Rightarrow> Header \<Rightarrow> u8 list \<Rightarrow> u8 list" where
  "response_of flags session_id request uptime =
     [1, 18, flags, 0] @ u32_to_be_bytes session_id @ u32_to_be_bytes (hdr_transaction_id request) @
     u32_to_be_bytes (hdr_packet_id request) @ u32_to_be_bytes 8 @ uptime @ [0, 0] @ [0, 0]"

definition agentx_master :: "u8 \<Rightarrow> u32 \<Rightarrow> Header \<Rightarrow> u8 list" where
  "agentx_master flags session_id request =
     response_of flags session_id (request\<lparr> hdr_packet_id := 1 \<rparr>) [255, 255, 255, 255] @
     response_of flags session_id (request\<lparr> hdr_packet_id := 2 \<rparr>) [0, 0, 0, 0]"

definition announced :: "event list \<Rightarrow> (u8 list \<times> SocketAddr) list" where
  "announced es = concat (map (\<lambda>e. case e of Announced text addr \<Rightarrow> [(text, addr)] | _ \<Rightarrow> []) es)"

text \<open>The datagrams that arrive at \<open>addr\<close> from a subagent that was given \<open>notify\<close>.\<close>

definition received :: "SocketAddr \<Rightarrow> string \<Rightarrow> u8 list list" where
  "received addr notify =
     (case process_session rfc_ids (demo_pdus [] []) logged_stream (manager_at (Some (bytes_of notify)))
        (\<lambda>w. publication) default_config (agentx_master NETWORK_ORDER 100 (demo_header TyOpen), []) of
        Some (_, _, es) \<Rightarrow> map fst (filter (\<lambda>x. snd x = addr) (announced es))
      | None \<Rightarrow> [])"

definition the_subagent_reports_readiness_once_it_registers_the_table :: bool where
  "the_subagent_reports_readiness_once_it_registers_the_table \<longleftrightarrow>
     received (PathnameAddr (bytes_of ''/tmp/notify'')) ''/tmp/notify'' = [READY]"

definition an_abstract_notify_socket_receives_the_same_message :: bool where
  "an_abstract_notify_socket_receives_the_same_message \<longleftrightarrow>
     received (AbstractAddr (bytes_of ''agentx-ifstack-test-1'')) ''@agentx-ifstack-test-1'' = [READY]"

text \<open>
  No socket of a master exists. What is done in the first sessions is to sleep, and the third
  begins after three seconds.
\<close>

definition no_master :: "wire stream_ops" where
  "no_master = logged_stream\<lparr> st_connect := \<lambda>path w. (Inl (IoError NotFound (OsMessage 2)), w) \<rparr>"

definition a_subagent_without_a_master_reports_nothing :: bool where
  "a_subagent_without_a_master_reports_nothing \<longleftrightarrow>
     (case reconnecting (process rfc_ids (demo_pdus [] []) no_master (manager_at (Some (bytes_of ''/tmp/notify'')))
        (\<lambda>w. publication) logged_sleep default_config) 3 ([], []) of
        Some (_, _, es) \<Rightarrow> announced es = [] \<and> es = [Slept (from_secs 1), Slept (from_secs 2), Slept (from_secs 4)]
      | None \<Rightarrow> False)"

lemma announced_simps [simp]:
  "announced [] = []" "announced (Announced text addr # es) = (text, addr) # announced es"
  "announced (Wrote pdu # es) = announced es" "announced (Connected path # es) = announced es"
  "announced (Slept d # es) = announced es" "announced (Got byte # es) = announced es"
  "announced (es @ fs) = announced es @ announced fs"
  by (simp_all add: announced_def)

lemma announced_got [simp]: "announced (map Got bytes) = []"
  by (induction bytes) simp_all

lemma session_announces_nothing_else:
  "registration ids px config opened hs \<Longrightarrow> announced hs = []" "serving px session_id ss \<Longrightarrow> announced ss = []"
  by (auto simp: registration_def open_log_def register_log_def) (induction rule: serving.induct, simp_all)

lemma master_acknowledges:
  assumes "hdr_transaction_id request = 3" "hdr_packet_id request = packet" "packet \<in> {1, 2}"
    "hdr_ty request \<noteq> TyOpen \<longrightarrow> hdr_session_id request = 100" "length uptime = 4"
    "hdr_transaction_id answered = 3" "hdr_packet_id answered = packet"
  shows "acknowledge (demo_pdus rs vbs) logged_stream request
      (response_of NETWORK_ORDER 100 answered uptime @ rest, es) =
    Some (Inr ((demo_header TyResponse)\<lparr> hdr_session_id := 100, hdr_packet_id := packet \<rparr>), rest,
      es @ map Got (response_of NETWORK_ORDER 100 answered uptime))"
proof -
  have field: "replicate 2 0 = [0, 0 :: u8]" by (simp add: numeral_2_eq_2)
  have bytes: "u32_to_be_bytes 100 = [0, 0, 0, 100]" "u32_to_be_bytes 3 = [0, 0, 0, 3]"
      "u32_to_be_bytes 8 = [0, 0, 0, 8]" "u32_to_be_bytes 1 = [0, 0, 0, 1]" "u32_to_be_bytes 2 = [0, 0, 0, 2]"
    by code_simp+
  obtain a b c d where "uptime = [a, b, c, d]" using assms(5) by (auto simp: numeral_eq_Suc length_Suc_conv)
  then show ?thesis using assms
    by (auto simp: acknowledge_def receive_def logged_read_exact [of "Suc 0"] logged_read_before logged_calls
        IO_TIMEOUT_def duration_defs MAX_PAYLOAD_def rfc_header_def u32_from_be_bytes_def response_of_def demo_px
        check_acknowledgement_def slice_def NETWORK_ORDER_def NETWORK_BYTE_ORDER_def field demo_header_def bytes)
qed

lemma master_connects:
  "\<exists>hs. establish rfc_ids (demo_pdus rs vbs) logged_stream default_config
     (agentx_master NETWORK_ORDER 100 (demo_header TyOpen), []) =
   Some (Inr ((demo_header TyResponse)\<lparr> hdr_session_id := 100, hdr_packet_id := 1 \<rparr>), [], hs)"
  using master_acknowledges [where packet = 2 and rest = "[]"]
  by (simp add: establish_def open_session_def register_table_def demo_px logged_calls agentx_master_def
      master_acknowledges demo_header_def rfc_ids_def TABLE_def)

lemma received_ready:
  assumes "address (bytes_of notify) = Inr addr"
  shows "received addr notify = [READY]"
proof -
  let ?nf = "manager_at (Some (bytes_of notify))" and ?w = "(agentx_master NETWORK_ORDER 100 (demo_header TyOpen), [])"
  obtain r rest es where run: "process_session rfc_ids (demo_pdus [] []) logged_stream ?nf (\<lambda>w. publication)
      default_config ?w = Some (r, rest, es)"
    using wire_ends.session_run_returns [OF rfc.agentx_ids_axioms demo.agentx_pdus_axioms,
      of "[]" "[]" default_config "\<lambda>w. publication" "ready ?nf" ?w]
    unfolding process_session_def by auto
  obtain hs where "establish rfc_ids (demo_pdus [] []) logged_stream default_config ?w =
      Some (Inr ((demo_header TyResponse)\<lparr> hdr_session_id := 100, hdr_packet_id := 1 \<rparr>), [], hs)"
    using master_connects by blast
  with session_seen [OF wire.observed_axioms demo.agentx_pdus_axioms run] show ?thesis
    using manager_announces [OF assms]
    by (auto simp: received_def run dest!: session_announces_nothing_else)
qed

lemma readiness_tests_pass:
  "the_subagent_reports_readiness_once_it_registers_the_table"
  "an_abstract_notify_socket_receives_the_same_message"
  unfolding the_subagent_reports_readiness_once_it_registers_the_table_def
    an_abstract_notify_socket_receives_the_same_message_def
  by (rule received_ready, code_simp)+

lemma a_subagent_without_a_master_reports_nothing_passes: "a_subagent_without_a_master_reports_nothing"
proof -
  have refused: "process_session rfc_ids (demo_pdus [] []) no_master nf tables config w =
      Some (Inl (IoError NotFound (OsMessage 2)), w)" for nf tables config w
    by (simp add: process_session_def session_run_def open_session_def no_master_def)
  have clock: "st_clock no_master w = (0, w)" for w by (simp add: no_master_def logged_stream_def)
  show ?thesis
    by (simp add: a_subagent_without_a_master_reports_nothing_def reconnecting_def reconnect_round_def process_def
        refused clock numeral_3_eq_3 duration_defs twice_def saturating_sub_def logged_sleep_def)
qed

section \<open>The command line\<close>

text \<open>
  The exit code, if the process ends before its first session, and how often the monitor was
  started; the file is \<open>config.toml\<close>, where it exists.
\<close>

definition start ::
    "(string \<Rightarrow> string + Config) \<Rightarrow> string option \<Rightarrow> string list \<Rightarrow> (exit_code + Config) \<times> nat" where
  "start from_toml contents args =
     main_startup (case contents of Some c \<Rightarrow> one_file ''config.toml'' c | None \<Rightarrow> \<lambda>p. Inl (IoError NotFound (OsMessage 2)))
       from_toml args (\<lambda>period n. (Inr (), Suc n)) 0"

definition rejected_files :: "string option list" where
  "rejected_files = [None, Some ''reconcile = 0'', Some ''refresh = 0'', Some ''priority = 256'',
     Some (quoted ''sockett'' ''master''), Some (quoted ''log_level'' ''off''), Some ''refresh = ['']"

definition invalid_configuration_exits_before_connecting :: "(string \<Rightarrow> string + Config) \<Rightarrow> bool" where
  "invalid_configuration_exits_before_connecting from_toml = list_all (\<lambda>contents.
     start from_toml contents [''--config'', ''config.toml'', ''--socket'', ''master''] = (Inl ExitFailure, 0))
     rejected_files"

definition help_and_version_exit_without_reading_configuration :: "(string \<Rightarrow> string + Config) \<Rightarrow> bool" where
  "help_and_version_exit_without_reading_configuration from_toml = list_all (\<lambda>option.
     start from_toml None [''--config'', ''absent.toml'', option] = (Inl ExitSuccess, 0))
     [''--help'', ''-h'', ''--version'']"

definition invalid_cli_arguments_exit_nonzero :: "(string \<Rightarrow> string + Config) \<Rightarrow> bool" where
  "invalid_cli_arguments_exit_nonzero from_toml = list_all (\<lambda>args. fst (start from_toml None args) = Inl ExitFailure)
     [[''--config''], [''--socket''], [''--socket'', []], [''--config'', ''--socket''], [''--unknown'']]"

definition an_empty_file_socket_is_rejected_without_a_cli_override :: "(string \<Rightarrow> string + Config) \<Rightarrow> bool" where
  "an_empty_file_socket_is_rejected_without_a_cli_override from_toml \<longleftrightarrow>
     fst (start from_toml (Some (quoted ''socket'' [])) [''--config'', ''config.toml'']) = Inl ExitFailure"

text \<open>A listener that accepts and does not answer; the world is the list of accepted connections.\<close>

definition listener :: "string \<Rightarrow> string list stream_ops" where
  "listener socket = \<lparr> st_connect = (\<lambda>path w. if path = socket then (Inr (), path # w)
       else (Inl (IoError NotFound (OsMessage 2)), w)),
     st_set_read_timeout = (\<lambda>d w. (Inr (), w)), st_set_write_timeout = (\<lambda>d w. (Inr (), w)),
     st_read_timeout = (\<lambda>w. (Inr None, w)), st_read = (\<lambda>n w. (Inl (IoError WouldBlock (OsMessage 11)), w)),
     st_write_all = (\<lambda>bytes w. (Inr (), w)), st_clock = (\<lambda>w. (0, w)) \<rparr>"

definition cli_socket_overrides_an_empty_file_socket :: "(string \<Rightarrow> string + Config) \<Rightarrow> bool" where
  "cli_socket_overrides_an_empty_file_socket from_toml =
     (case start from_toml (Some (quoted ''socket'' [])) [''--config'', ''config.toml'', ''--socket'', ''master''] of
        (Inr config, _) \<Rightarrow>
          (case session_run rfc_ids (demo_pdus [] []) (listener ''master'') config (\<lambda>w. publication) id [] of
             Some (_, accepted) \<Rightarrow> accepted = [''master'']
           | None \<Rightarrow> False)
      | (Inl _, _) \<Rightarrow> False)"

lemmas start_defs = start_def main_startup_def load_def read_config_def one_file_def acceptable_value_def

lemma invalid_configuration_exits_before_connecting_passes:
  assumes "from_toml ''reconcile = 0'' = Inr (default_config\<lparr> cfg_reconcile := 0 \<rparr>)"
    and "\<And>contents. contents \<in> set (drop 2 rejected_files) \<Longrightarrow> isl (from_toml (the contents))"
  shows "invalid_configuration_exits_before_connecting from_toml"
proof -
  let ?args = "[''--config'', ''config.toml'', ''--socket'', ''master'']"
  have refused: "start from_toml (Some c) ?args = (Inl ExitFailure, 0)" if "isl (from_toml c)" for c
    using that by (auto simp: start_defs isl_def)
  have "start from_toml (Some c) ?args = (Inl ExitFailure, 0)"
    if "Some c \<in> set (drop 2 rejected_files)" for c
    using refused assms(2) [OF that] by simp
  moreover have "start from_toml None ?args = (Inl ExitFailure, 0)"
      "start from_toml (Some ''reconcile = 0'') ?args = (Inl ExitFailure, 0)"
    using assms(1) by (simp_all add: start_defs default_config_def)
  ultimately show ?thesis by (simp add: invalid_configuration_exits_before_connecting_def rejected_files_def)
qed

lemma command_line_tests_pass:
  "help_and_version_exit_without_reading_configuration from_toml" "invalid_cli_arguments_exit_nonzero from_toml"
  by (simp_all add: help_and_version_exit_without_reading_configuration_def invalid_cli_arguments_exit_nonzero_def
      start_defs)

lemma an_empty_file_socket_is_rejected_without_a_cli_override_passes:
  assumes "from_toml (quoted ''socket'' []) = Inr (default_config\<lparr> cfg_socket := [] \<rparr>)"
  shows "an_empty_file_socket_is_rejected_without_a_cli_override from_toml"
  using assms by (simp add: an_empty_file_socket_is_rejected_without_a_cli_override_def start_defs default_config_def)

lemma unanswered:
  assumes "cfg_socket config = socket"
  shows "session_run rfc_ids (demo_pdus rs vbs) (listener socket) config tables registered w =
    Some (Inl (IoError WouldBlock (OsMessage 11)), socket # w)"
proof -
  have "read_exact_round (listener socket) (Suc 0) ([], v) = Some (Leave (Inl (IoError WouldBlock (OsMessage 11)), v))" for v
    by (simp add: read_exact_round_def listener_def)
  then have "read_exact (listener socket) (Suc 0) v = Some (Inl (IoError WouldBlock (OsMessage 11)), v)" for v
    by (simp add: read_exact_def loop_leaves)
  then have "acknowledge px (listener socket) request v = Some (Inl (IoError WouldBlock (OsMessage 11)), v)"
    for px :: "rfc_id pdu_ops" and request v
    by (simp add: acknowledge_def receive_def)
  then show ?thesis
    using assms by (simp add: session_run_def open_session_def demo_px) (simp add: listener_def)
qed

lemma cli_socket_overrides_an_empty_file_socket_passes:
  assumes "from_toml (quoted ''socket'' []) = Inr (default_config\<lparr> cfg_socket := [] \<rparr>)"
  shows "cli_socket_overrides_an_empty_file_socket from_toml"
  using assms by (simp add: cli_socket_overrides_an_empty_file_socket_def start_defs default_config_def unanswered)

end
