(* ===== verification/Spec2Isabelle.thy ===== *)
theory Spec2Isabelle
  imports Refresh Transcript Manager Link_Tests Mib_Tests Monitor_Tests Netlink_Tests Session_Tests
    Config_Tests Process_Tests Integration_Tests
begin

text \<open>
  A model of \<open>agentx-ifstack\<close>, a daemon that serves the \<open>ifStackTable\<close> of RFC 2863 through an
  AgentX subagent (RFC 2741), in HOL, with the theorems that make it correct.

  \<^bold>\<open>The program.\<close> Two threads share one cell. The monitor thread (\<open>monitor.rs\<close> over \<open>netlink.rs\<close>)
  subscribes to link notifications of the kernel, requests dumps of the links, validates each
  dump into a topology of direct stack relationships (\<open>link.rs\<close>), builds a table from it
  (\<open>mib.rs\<close>) and publishes that table; it withdraws the table whenever it may have missed a
  notification. The main thread (\<open>main.rs\<close>) connects to the master agent again and again; each
  session (\<open>session.rs\<close>) opens, registers the table, reports readiness to the service manager
  (\<open>notify.rs\<close>), and answers requests from the table that is published at that moment.
  \<open>config.rs\<close> reads the command line and a TOML file first.

  \<^bold>\<open>The theories,\<close> each with the part of \<open>src/src\<close> it models; a definition has the name of the
  function, constant or type it translates, with a prefix where HOL has that name already.

  \<^item> \<open>Prelude\<close>: results with the \<open>?\<close> operator (\<open>and_then\<close>, \<open>try_fold\<close>, \<open>try_call\<close>), \<open>std::io\<close> errors
    with their format strings, calls that may panic (\<open>option\<close>), \<open>loop\<close> with its rules, durations in
    nanoseconds, bytes. \<open>Ordered_Map\<close>: \<open>BTreeMap\<close> and \<open>BTreeSet\<close> as ascending lists; the locale
    \<open>ordered_map\<close> is what the program uses of them, \<open>ranked\<close> gives it for keys that a rank orders.
  \<^item> \<open>Link\<close> (\<open>link.rs\<close>): \<open>from_observed\<close> with every error. \<open>coherent\<close>, \<open>runs_over\<close> and \<open>topology_of\<close>
    specify which inventories are accepted and what they mean, with no reference to the passes
    of the code.
  \<^item> \<open>Agentx\<close>: the interface of the \<open>agentx\<close> crate, as records of operations, with the locale
    \<open>agentx_ids\<close> for identifiers, interpreted on identifiers as RFC 2741 defines them.
  \<^item> \<open>Mib\<close> (\<open>mib.rs\<close>): the table and GET, GETNEXT and GETBULK. \<open>serves\<close> says which rows a table
    has, \<open>table_rows\<close> which rows RFC 2863 asks for, \<open>admitted\<close> which instances a range admits.
  \<^item> \<open>Monitor\<close> (\<open>monitor.rs\<close>): the scheduling state with all its methods and one iteration of
    \<open>run\<close>, over the operations of a source. \<open>service_step\<close> is the abstract service a reader sees;
    \<open>acquisition\<close> and \<open>source_invariant\<close> are the contracts of a source.
  \<^item> \<open>Netlink_Codec\<close>, \<open>Netlink\<close>, \<open>Netlink_Socket\<close> (\<open>netlink.rs\<close>): decoding of datagrams and links;
    \<open>NetlinkSource\<close> over the trait \<open>DatagramIo\<close>, with the dropping of sockets; \<open>SocketIo\<close> over the
    system calls. The source is interpreted in \<open>acquisition\<close>; \<open>datagram_io\<close> is the contract of
    the trait, and \<open>system_calls\<close>, the contract of the kernel, gives it for \<open>SocketIo\<close>;
    \<open>dump_exchange\<close> and \<open>whole_dump\<close> say what one dump is: the calls it takes and its datagrams.
  \<^item> \<open>Session\<close>, \<open>Session_Lifetime\<close> (\<open>session.rs\<close>): handshake, framing, dispatch, answers, and how a
    session ends. The codec (\<open>agentx_pdus\<close>) and the stream (\<open>session_stream\<close>, \<open>closing_stream\<close>) are
    arguments with contracts.
  \<^item> \<open>Config\<close>, \<open>Notify\<close>, \<open>Supervisor\<close> (\<open>config.rs\<close>, \<open>notify.rs\<close>, \<open>main.rs\<close>): start, readiness, and the
    loop of the process; \<open>monitor_thread\<close> and \<open>process\<close> put the parts together.
  \<^item> \<open>Threads\<close> (\<open>main.rs\<close>, \<open>session.rs\<close>): the two threads interleaved, as a step relation over the
    state \<open>daemon\<close>, in which the rest of the world may change by \<open>env\<close> at any time.
    \<open>session_run_steps\<close> shows that it has every session that \<open>session_run\<close> describes while the
    monitor stands still. \<open>front_step\<close> specifies a session in front of the abstract service.
  \<^item> \<open>Refresh\<close>: how the table follows the kernel in time. \<open>timely_source\<close> is the contract of a
    source whose clock advances while it waits; a source over \<open>datagram_io\<close> keeps it.
    \<open>attempted\<close> says what one attempt at an inventory leaves, by its result.
  \<^item> \<open>Transcript\<close>: the order of what sessions and the process do to the outside. \<open>observed\<close> is the
    contract of an observer of connections, of the bytes that are written and got, and of the
    datagrams that are sent; \<open>registration\<close>, \<open>serving\<close> and \<open>process_log\<close> specify the transcripts of
    an acknowledged handshake, of an open session and of a process with its sleeps.
  \<^item> \<open>Manager\<close>: a manager that walks the table with GETNEXT requests through the session.
  \<^item> \<open>Rendering\<close>, \<open>Link_Tests\<close>, \<open>Mib_Tests\<close>, \<open>Monitor_Tests\<close>, \<open>Netlink_Tests\<close>, \<open>Session_Tests\<close>,
    \<open>Config_Tests\<close>, \<open>Process_Tests\<close>, \<open>Integration_Tests\<close>: the unit tests of the modules and the tests
    of the start and of the readiness of the process, each as a definition with the
    name of the test and a lemma that the model passes it; the fakes of the tests (\<open>Controlled\<close>,
    \<open>ScriptIo\<close>, \<open>CountingIo\<close>, the dripping sender) are models of their own.

  \<^bold>\<open>What is shown.\<close> Validation: the accepted inventories are exactly the coherent ones, the
  result is exactly their stack, in any order of the links, and always well formed. The table:
  it serves exactly the rows of the topology, and lookups, walks and bulk requests are exact.
  The monitor: it never panics, publishes only tables of coherent inventories of the current
  generation under a subscription, refines the abstract service, waits exactly until something
  is due, backs off and recovers; a batch of events loses nothing. While it is subscribed, it asks
  for another dump after finitely many iterations, whatever notifications arrive, and begins no
  wait at or after the deadline of its state; the dump replaces the table, or else the table is
  kept and another attempt is due within half a minute. Netlink: datagrams, links and dumps are decoded
  exactly as specified; an inventory is one whole dump; it ends. Sessions: every request is
  answered by one write and correctly, malformed ones and sets are refused, frames are bounded,
  nothing panics, and a session ends with its connection. The process reconnects for ever, with
  the sleeps of its schedule between the sessions, and reports readiness to the service manager
  exactly when the table is registered: after the frames that acknowledge its Open and its
  Register PDU and before any answer, and then answers frame by frame. The threads: no schedule
  panics, and the daemon refines a session in front of the abstract service. A manager's
  walk lists exactly the stack. This theory has the theorems that span the parts: the monitor
  thread over real sockets runs for ever without leaking a socket, and whatever the schedule,
  what a session writes in answer to a GET of its own is drawn exactly from the links of one complete
  dump of the kernel, or is an error while there is none. The replayed tests tie the definitions to what
  the authors of the code observed of it, down to the texts of the errors.

  \<^bold>\<open>Conventions and bounds.\<close> Machine integers are words; lengths and durations are natural
  numbers, with the places where Rust saturates or panics written out; \<open>usize\<close> has 64 bits. A
  panic is \<open>None\<close>, and so is a loop that never leaves: \<open>loop\<close> is a partial function in the option
  type, so no fuel is needed, and every loop is shown to leave under the contract of what it
  calls. The endless loops of \<open>monitor::run\<close> and of \<open>main\<close> are given by the number of rounds,
  which the theorems quantify over. The contracts state documented behaviour: identifiers
  compare as lists of numbers, an encoded response has its fixed fields, a clock does not run
  backwards, \<open>poll\<close> takes time, a call is interrupted a finite number of times. Each contract
  is satisfied by a concrete instance, which the witnesses use.

  The two threads interact through the cell only, and every access to the cell is atomic. In
  \<open>Session\<close> the rest of the program's world is a state that every call may change, so the table a
  session reads is a function of that state, read once per request. In \<open>Threads\<close> the cell is that
  of the monitor, and a step is an iteration of the monitor or a part of a session between two
  points where it waits; an iteration changes the cell at most once.

  \<^bold>\<open>Not modelled.\<close> Logging and the texts of \<open>--help\<close> and \<open>--version\<close>: no effect on the behaviour.
  The crates \<open>agentx\<close>, \<open>netlink-packet-*\<close>, \<open>netlink-sys\<close>, \<open>toml\<close>, \<open>libc\<close> and the kernel: arguments of
  the model. The \<open>shutdown\<close> flag, which exists under \<open>cfg(test)\<close> only. The integration test
  \<open>tests/real_namespace.rs\<close>, which needs a kernel with namespaces, and what the others check of
  processes, texts and the encoding of PDUs. The two unit tests that need the machine or the
  crates themselves: the inventory of the real namespace and the shipped configuration file. Time
  that passes inside a blocking read between frames: a read returns, in the model. How long the process sleeps between sessions is left out of \<open>Threads\<close> and is in
  \<open>Supervisor\<close> and \<open>Transcript\<close>.
\<close>

section \<open>The monitor over netlink sockets\<close>

text \<open>With system calls that keep their contract, the monitor thread runs for ever.\<close>

lemma monitor_thread_runs:
  assumes ids: "agentx_ids ids subids" and sys: "system_calls sys time held patience"
  obtains m where "monitor_thread ids nl sys config n w = Some (Continue m)" "monitor_ok m"
    "subscribed (mon_state m) \<longleftrightarrow> ns_notification (mon_source m) \<noteq> None"
    "held (ns_world (mon_source m)) = held w + socket_of (mon_source m)"
proof -
  let ?src = "with_io (socket_io sys) w"
  obtain origin w0 where clock: "sys_clock sys w = (origin, w0)" by (cases "sys_clock sys w")
  then have src: "ns_notification ?src = None" "held (ns_world ?src) = held w"
    using system_calls.clock_law [OF sys clock] by (simp_all add: with_io_def socket_io_def)
  obtain flow where run: "monitor_thread ids nl sys config n w = Some flow"
    using monitor_run_total [OF ids system_calls.total_promise [OF sys]]
    unfolding monitor_thread_def by blast
  note run' = run [unfolded monitor_thread_def]
  obtain m where m: "flow = Continue m" "monitor_ok m"
      "subscribed (mon_state m) \<longleftrightarrow> ns_notification (mon_source m) \<noteq> None"
    using netlink.run_attached [OF _ run'] src(1) by blast
  moreover have "held (ns_world (mon_source m)) = held w + socket_of (mon_source m)"
    using system_calls.sockets_promise [OF sys run' src(2,1)] m(1) by simp
  ultimately show thesis using run that by blast
qed

text \<open>
  C2. The monitor thread over netlink sockets runs for ever and leaks nothing: after any number
  of iterations it is still running, in a state that satisfies the scheduling invariant; it
  regards itself as subscribed exactly when it holds a notification socket, and that socket is
  all it holds open beyond what was open before, whatever the kernel answered.
\<close>

theorem netlink_monitor_runs:
  assumes "agentx_ids ids subids" "system_calls sys time held patience"
  shows "\<exists>m. monitor_thread ids nl sys config n w = Some (Continue m) \<and> monitor_ok m \<and>
    (subscribed (mon_state m) \<longleftrightarrow> ns_notification (mon_source m) \<noteq> None) \<and>
    held (ns_world (mon_source m)) = held w + socket_of (mon_source m)"
  by (rule monitor_thread_runs [OF assms]) blast

definition demo_kernel :: kernel where
  "demo_kernel = \<lparr> kn_time = 0, kn_held = {#}, kn_next = 3, kn_inbox = [] \<rparr>"

lemma netlink_monitor_runs_witness:
  "\<exists>m. monitor_thread rfc_ids demo_codec kernel_sys default_config 4 demo_kernel = Some (Continue m) \<and>
    kn_held (ns_world (mon_source m)) = socket_of (mon_source m)"
  using netlink_monitor_runs [OF rfc.agentx_ids_axioms kernel.system_calls_axioms,
      of demo_codec default_config 4 demo_kernel]
  by (auto simp: demo_kernel_def)

section \<open>From the kernel to the master agent\<close>

text \<open>
  A table that is published comes from one dump of the kernel: the datagrams that a socket,
  opened for it, delivered in answer to one request.
\<close>

lemma published_dump:
  assumes ids: "agentx_ids ids subids"
    and run: "monitor_thread ids nl sys config n w = Some (Continue m)" and mib: "mon_cell m = Some mib"
  obtains k dump sequence v ds v' links where "dump_exchange nl (socket_io sys) k dump sequence v ds v'"
    "whole_dump nl sequence ds links" "sequence \<noteq> 0" "coherent links" "serves ids subids mib (table_rows (topology_of links))"
    "subscribed (mon_state m)"
proof -
  obtain iv src1 src2 where iv:
      "source_inventory nl (socket_io sys) (Attempt (continuity (mon_state m))) src1 = Some (Inr iv, src2)"
      "coherent (inv_links iv)" "serves ids subids mib (table_rows (topology_of (inv_links iv)))"
      "subscribed (mon_state m)"
    using monitor_run_published [OF ids run [unfolded monitor_thread_def]] mib
    by (auto simp: snapshot_def netlink_source_def)
  obtain k dump ds v' where
      "dump_exchange nl (socket_io sys) k dump (fst (next_sequence src1)) (ns_world src1) ds v'"
      "whole_dump nl (fst (next_sequence src1)) ds (inv_links iv)"
    using inventory_dumped [OF iv(1)] by blast
  then show thesis using that iv next_sequence_fresh by blast
qed

text \<open>A GET of the open session is answered with one write of the response of the dispatch.\<close>

lemma get_handled:
  assumes "dm_session d = Some (hdr_session_id header)" "hdr_ty header = TyGet"
    and "dispatch ids px header bytes (mon_cell (dm_monitor d)) = Some (Inr (response, None))"
  shows "handle_request ids px st (hdr_session_id header) (header, bytes) d =
    (case px_response_bytes px response of
       Inl e \<Rightarrow> Some (Leave (Inl e, dm_world d))
     | Inr (packet, sent) \<Rightarrow> delivered st packet (dm_world d))"
  using assms
  by (auto simp: handle_request_def handle_frame_def encode_answer_def answer_delivered
      split: sum.split prod.split)

text \<open>
  C1. What a GET is answered with is what the kernel reported, whatever the schedule of the two
  threads. In every reachable state of the daemon in which the session has received a well-formed
  GET of its own in the default context, handling it is one write to the master agent (or ends
  the session, if the codec cannot encode the response or the write fails). What is written is
  the encoding of a response to this request: a processing error, while no table is published,
  or else, and then the monitor is subscribed, one value for each name that is asked for, drawn
  from the links of one complete, coherent dump, the answer of the kernel to one request on one
  socket: the value 1 for exactly the instances that the relationships and the stack boundaries
  of these links ask for, \<open>noSuchInstance\<close> for the other names under the column and
  \<open>noSuchObject\<close> elsewhere.
\<close>

theorem every_get_answers_dump:
  assumes "agentx_ids ids subids"
    and "reachable ids (netlink_source nl (socket_io sys)) px st config registered env
      (from_secs (unat (cfg_reconcile config))) (with_io (socket_io sys) w0) w d"
    and "dm_session d = Some (hdr_session_id header)" "dm_frame d = Some (header, bytes)"
    and "hdr_ty header = TyGet" "hdr_flags header AND 8 = 0"
    and "px_get px bytes = Inr ranges" "list_all (range_ok ids subids) ranges"
  shows "\<exists>response.
    handle_request ids px st (hdr_session_id header) (header, bytes) d =
      (case px_response_bytes px response of
         Inl e \<Rightarrow> Some (Leave (Inl e, dm_world d))
       | Inr (packet, sent) \<Rightarrow> delivered st packet (dm_world d)) \<and>
    (case mon_cell (dm_monitor d) of
       None \<Rightarrow> response = (reply px header)\<lparr> rs_res_error := ProcessingError \<rparr>
     | Some mib \<Rightarrow> subscribed (mon_state (dm_monitor d)) \<and>
         (\<exists>k dump sequence v ds v' links. dump_exchange nl (socket_io sys) k dump sequence v ds v' \<and>
           whole_dump nl sequence ds links \<and> sequence \<noteq> 0 \<and> coherent links \<and>
           response = (reply px header)\<lparr> rs_vb := Some
             (map (\<lambda>rng. binding ids (sr_start rng)
               (if subids (sr_start rng) \<in> instance_of ` table_rows (topology_of links) then Integer 1
                else if \<exists>rest. subids (sr_start rng) = STATUS @ rest then NoSuchInstance
                else NoSuchObject)) ranges) \<rparr>))"
proof -
  obtain n where run: "monitor_thread ids nl sys config n w0 = Some (Continue (dm_monitor d))"
    using reachable_monitor [OF assms(2)] unfolding monitor_thread_def by blast
  show ?thesis
  proof (cases "mon_cell (dm_monitor d)")
    case None
    then have "dispatch ids px header bytes (mon_cell (dm_monitor d)) =
        Some (Inr ((reply px header)\<lparr> rs_res_error := ProcessingError \<rparr>, None))"
      using unavailable_answered [OF assms(1,6,8), of px bytes 0 0] assms(5,7)
      by (simp add: publication_def)
    from get_handled [OF assms(3,5) this] None show ?thesis by auto
  next
    case (Some mib)
    obtain k dump sequence v ds v' links where dump: "dump_exchange nl (socket_io sys) k dump sequence v ds v'"
        "whole_dump nl sequence ds links" "sequence \<noteq> 0" "coherent links" "serves ids subids mib (table_rows (topology_of links))"
        "subscribed (mon_state (dm_monitor d))"
      by (rule published_dump [OF assms(1) run Some])
    note answer = get_answered [OF assms(1) dump(5) assms(5-8), folded Some]
    show ?thesis
      unfolding Some option.case
      by (intro exI conjI, rule get_handled [OF assms(3,5) answer]) (rule dump refl)+
  qed
qed

text \<open>
  The daemon of the witness handles its GET after the first iteration of the monitor thread, which
  publishes the table of the interface that the kernel reports.
\<close>

lemma every_get_answers_dump_witness:
  "\<exists>(d :: (rfc_id, (nat, kernel) NetlinkSource, u8 list) daemon) mib response value.
    mon_cell (dm_monitor d) = Some mib \<and> dm_frame d = Some (demo_get_header, demo_get) \<and>
    rs_vb response = Some [binding rfc_ids (sr_start (demo_range STATUS)) value] \<and>
    px_response_bytes (demo_pdus [demo_range STATUS] []) response = Inr (replicate 28 0, response) \<and>
    handle_request rfc_ids (demo_pdus [demo_range STATUS] []) byte_stream 7 (demo_get_header, demo_get) d =
      delivered byte_stream (replicate 28 0) []"
proof -
  let ?px = "demo_pdus [demo_range STATUS] []"
  let ?src = "with_io (socket_io kernel_sys) demo_live_kernel"
  let ?ops = "netlink_source demo_codec (socket_io kernel_sys)"
  let ?period = "from_secs (unat (cfg_reconcile default_config))"
  obtain m mib where run: "monitor_run rfc_ids ?ops 1 (monitor_start ?period publication ?src) = Some (Continue m)"
      "mon_cell m = Some mib"
    by (rule demo_live_publishes [unfolded monitor_thread_def])
  obtain d where
    reach: "reachable rfc_ids ?ops ?px byte_stream default_config id (=) ?period ?src demo_master d"
    and d: "dm_monitor d = m" "dm_world d = []" "dm_session d = Some 7" "dm_frame d = Some (demo_get_header, demo_get)"
    by (rule demo_reachable [OF run(1)])
  have header: "hdr_session_id demo_get_header = 7" "hdr_ty demo_get_header = TyGet" "hdr_flags demo_get_header AND 8 = 0"
      "px_get ?px demo_get = Inr [demo_range STATUS]" "list_all (range_ok rfc_ids rfc_subids) [demo_range STATUS]"
    by (simp_all add: demo_get_header_def demo_header_def demo_pdus_def demo_range_ok STATUS_def)
  have sent: "px_response_bytes ?px response = Inr (replicate 28 0, response)" for response
    by (simp add: demo_pdus_def)
  let ?found = "\<lambda>links. binding rfc_ids (sr_start (demo_range STATUS))
       (if rfc_subids (sr_start (demo_range STATUS)) \<in> instance_of ` table_rows (topology_of links) then Integer 1
        else if \<exists>rest. rfc_subids (sr_start (demo_range STATUS)) = STATUS @ rest then NoSuchInstance
        else NoSuchObject)"
  obtain response links where response:
    "handle_request rfc_ids ?px byte_stream 7 (demo_get_header, demo_get) d = delivered byte_stream (replicate 28 0) []"
    "response = (reply ?px demo_get_header)\<lparr> rs_vb := Some [?found links] \<rparr>"
    using every_get_answers_dump [OF rfc.agentx_ids_axioms reach, of demo_get_header demo_get "[demo_range STATUS]"]
      d run(2) header by (simp add: sent)
  have "rs_vb response = Some [?found links]" by (simp add: response(2))
  with response(1) d(1,4) run(2) sent show ?thesis by blast
qed

end
